(* ===== verification/Marvin_Prelude.thy ===== *)
theory Marvin_Prelude
  imports Main "HOL-Library.Word" "HOL-Library.Monad_Syntax"
begin

text \<open>
  What every component of the development shares: the byte-addressed memory the
  runtime's objects, stubs and table entries live in, with little-endian loads and
  stores; the ordered maps and sets of the C++ standard library; and the generic facts
  on lists, words and options the component proofs rest on.

  A fatal check of the program (CHECK, LOG(FATAL), a null dereference) ends the process.
  An operation that can end that way, or that can spin forever, returns \<^typ>\<open>'a option\<close>,
  with \<^const>\<open>None\<close> for the run that never returns to its caller.
\<close>

unbundle bit_operations_syntax

named_theorems mem_simps \<open>what a load sees of an earlier store\<close>
named_theorems smap_simps \<open>lookups in an ordered map after an update\<close>

type_synonym byte = "8 word"
type_synonym addr = nat
type_synonym mem = "addr \<Rightarrow> byte"

section \<open>Byte memory\<close>

definition read_bytes :: "mem \<Rightarrow> addr \<Rightarrow> nat \<Rightarrow> byte list" where
  "read_bytes m a n = map (\<lambda>i. m (a + i)) [0..<n]"

definition write_bytes :: "mem \<Rightarrow> addr \<Rightarrow> byte list \<Rightarrow> mem" where
  "write_bytes m a bs = (\<lambda>x. if a \<le> x \<and> x < a + length bs then bs ! (x - a) else m x)"

definition memcpy :: "mem \<Rightarrow> addr \<Rightarrow> addr \<Rightarrow> nat \<Rightarrow> mem" where
  "memcpy m dst src n = write_bytes m dst (read_bytes m src n)"

text \<open>Dropping anonymous pages (madvise with MADV\_DONTNEED): the next read finds zeros.\<close>

definition zero_bytes :: "mem \<Rightarrow> addr \<Rightarrow> nat \<Rightarrow> mem" where
  "zero_bytes m a n = write_bytes m a (replicate n 0)"

text \<open>Little-endian integers of \<open>n\<close> bytes.\<close>

fun le_nat :: "byte list \<Rightarrow> nat" where
  "le_nat [] = 0"
| "le_nat (b # bs) = unat b + 256 * le_nat bs"

fun le_bytes :: "nat \<Rightarrow> nat \<Rightarrow> byte list" where
  "le_bytes 0 v = []"
| "le_bytes (Suc n) v = of_nat v # le_bytes n (v div 256)"

definition load :: "mem \<Rightarrow> addr \<Rightarrow> nat \<Rightarrow> nat" where
  "load m a n = le_nat (read_bytes m a n)"

definition store :: "mem \<Rightarrow> addr \<Rightarrow> nat \<Rightarrow> nat \<Rightarrow> mem" where
  "store m a n v = write_bytes m a (le_bytes n v)"

text \<open>Two memories that agree everywhere but in \<open>[lo, hi)\<close>.\<close>

definition same_outside :: "nat \<Rightarrow> nat \<Rightarrow> mem \<Rightarrow> mem \<Rightarrow> bool" where
  "same_outside lo hi m m' \<longleftrightarrow> (\<forall>x. x < lo \<or> hi \<le> x \<longrightarrow> m' x = m x)"

text \<open>Two address ranges that do not meet.\<close>

definition apart :: "addr \<Rightarrow> nat \<Rightarrow> addr \<Rightarrow> nat \<Rightarrow> bool" where
  "apart a n b k \<longleftrightarrow> a + n \<le> b \<or> b + k \<le> a"

lemma word_nonzero_bit: "w \<noteq> 0 \<Longrightarrow> \<exists>k. bit w k" for w :: "'a :: len word"
  using bit_eq_iff [of w 0] by auto

lemma length_read_bytes [simp]: "length (read_bytes m a n) = n"
  by (simp add: read_bytes_def)

lemma nth_read_bytes [simp]: "i < n \<Longrightarrow> read_bytes m a n ! i = m (a + i)"
  by (simp add: read_bytes_def)

lemma length_le_bytes [simp]: "length (le_bytes n v) = n"
  by (induction n arbitrary: v) auto

lemma write_bytes_in: "i < length bs \<Longrightarrow> write_bytes m a bs (a + i) = bs ! i"
  by (simp add: write_bytes_def)

lemma write_bytes_out: "x < a \<or> a + length bs \<le> x \<Longrightarrow> write_bytes m a bs x = m x"
  by (auto simp: write_bytes_def)

lemma read_write_bytes [mem_simps]: "read_bytes (write_bytes m a bs) a (length bs) = bs"
  by (rule nth_equalityI) (auto simp: write_bytes_in)

lemma read_write_bytes': "n = length bs \<Longrightarrow> read_bytes (write_bytes m a bs) a n = bs"
  by (simp add: read_write_bytes)

lemma read_bytes_cong:
  "(\<And>i. i < n \<Longrightarrow> m (a + i) = m' (a + i)) \<Longrightarrow> read_bytes m a n = read_bytes m' a n"
  by (simp add: read_bytes_def)

lemma read_write_bytes_apart [mem_simps]:
  "apart a n b (length bs) \<Longrightarrow> read_bytes (write_bytes m b bs) a n = read_bytes m a n"
  by (rule read_bytes_cong) (auto simp: apart_def intro!: write_bytes_out)

lemma read_memcpy: "read_bytes (memcpy m d s n) d n = read_bytes m s n"
  by (simp add: memcpy_def read_write_bytes')

lemma read_zero_bytes: "read_bytes (zero_bytes m a n) a n = replicate n 0"
  by (simp add: zero_bytes_def read_write_bytes')

lemma write_read_bytes [simp]: "write_bytes m a (read_bytes m a n) = m"
  by (auto simp: write_bytes_def fun_eq_iff)

lemma write_write_bytes:
  "length bs = length cs \<Longrightarrow> write_bytes (write_bytes m a bs) a cs = write_bytes m a cs"
  by (auto simp: write_bytes_def fun_eq_iff)

lemma le_nat_le_bytes: "le_nat (le_bytes n v) = v mod 256 ^ n"
proof (induction n arbitrary: v)
  case (Suc n)
  have "unat (of_nat v :: byte) = v mod 256"
    by (simp add: unat_of_nat)
  with Suc show ?case
    by (simp add: mod_mult2_eq)
qed simp

lemma le_bytes_le_nat: "le_bytes (length bs) (le_nat bs) = bs"
proof (induction bs)
  case (Cons b bs)
  have "unat b < 256" using unsigned_less [of b] by simp
  then have "(unat b + 256 * le_nat bs) div 256 = le_nat bs"
    by simp
  moreover have "(of_nat (unat b + 256 * le_nat bs) :: byte) = b"
  proof -
    have zero: "(256 :: byte) = 0" by (simp add: word_eq_iff_unsigned)
    have "256 * (of_nat (le_nat bs) :: byte) = 0" by (metis zero mult_zero_left)
    then show ?thesis by simp
  qed
  ultimately show ?case
    using Cons.IH by simp
qed simp

lemma le_nat_bound: "le_nat bs < 256 ^ length bs"
proof (induction bs)
  case (Cons b bs)
  have "unat b < 256" using unsigned_less [of b] by simp
  with Cons show ?case by simp
qed simp

lemma load_bound: "load m a n < 256 ^ n"
  using le_nat_bound [of "read_bytes m a n"] by (simp add: load_def)

lemma load_eval:
  "load m a 1 = unat (m a)"
  "load m a 2 = unat (m a) + 256 * unat (m (a + 1))"
  "load m a 4 = unat (m a) + 256 * (unat (m (a + 1)) + 256 * (unat (m (a + 2)) + 256 * unat (m (a + 3))))"
  by (simp_all add: load_def read_bytes_def upt_rec numeral_3_eq_3)

lemma load_store_same [mem_simps]: "load (store m a n v) a n = v mod 256 ^ n"
  by (simp add: load_def store_def read_write_bytes' le_nat_le_bytes)

lemma load_store_id: "v < 256 ^ n \<Longrightarrow> load (store m a n v) a n = v"
  by (simp add: mem_simps)

lemma load_store_apart [mem_simps]: "apart a n b k \<Longrightarrow> load (store m b k v) a n = load m a n"
  by (simp add: load_def store_def read_write_bytes_apart)

lemma store_load [simp]: "store m a n (load m a n) = m"
proof -
  have "le_bytes n (le_nat (read_bytes m a n)) = read_bytes m a n"
    using le_bytes_le_nat [of "read_bytes m a n"] by simp
  then show ?thesis
    by (simp add: store_def load_def)
qed

lemma store_byte_out: "x < a \<or> a + n \<le> x \<Longrightarrow> store m a n v x = m x"
  by (simp add: store_def write_bytes_out)

lemma load_byte_out:
  "x < a \<or> a + n \<le> x \<Longrightarrow> load (m(x := b)) a n = load m a n"
  unfolding load_def by (rule arg_cong [where f = le_nat], rule read_bytes_cong) auto

lemma read_byte_out:
  "x < a \<or> a + n \<le> x \<Longrightarrow> read_bytes (m(x := b)) a n = read_bytes m a n"
  by (rule read_bytes_cong) auto

lemma same_outside_refl [simp]: "same_outside lo hi m m"
  by (simp add: same_outside_def)

lemma same_outside_trans:
  "same_outside lo hi m m1 \<Longrightarrow> same_outside lo hi m1 m2 \<Longrightarrow> same_outside lo hi m m2"
  by (simp add: same_outside_def)

lemma same_outside_mono:
  "same_outside lo hi m m' \<Longrightarrow> lo' \<le> lo \<Longrightarrow> hi \<le> hi' \<Longrightarrow> same_outside lo' hi' m m'"
  unfolding same_outside_def by (meson le_trans less_le_trans)

lemma same_outside_byte: "lo \<le> x \<Longrightarrow> x < hi \<Longrightarrow> same_outside lo hi m (m(x := b))"
  by (auto simp: same_outside_def)

lemma same_outside_write: "same_outside a (a + length bs) m (write_bytes m a bs)"
  by (auto simp: same_outside_def write_bytes_out)

lemma same_outside_store: "same_outside a (a + n) m (store m a n v)"
  by (auto simp: same_outside_def store_byte_out)

lemma same_outside_read:
  "same_outside lo hi m m' \<Longrightarrow> apart a n lo (hi - lo) \<Longrightarrow> lo \<le> hi \<Longrightarrow>
     read_bytes m' a n = read_bytes m a n"
  by (rule read_bytes_cong) (auto simp: apart_def same_outside_def)

lemma same_outside_load:
  "same_outside lo hi m m' \<Longrightarrow> apart a n lo (hi - lo) \<Longrightarrow> lo \<le> hi \<Longrightarrow> load m' a n = load m a n"
  by (simp add: load_def same_outside_read)

lemma apart_sym: "apart a n b k \<Longrightarrow> apart b k a n"
  by (auto simp: apart_def)

lemma apart_mono:
  "apart a n b k \<Longrightarrow> a \<le> a' \<Longrightarrow> a' + n' \<le> a + n \<Longrightarrow> b \<le> b' \<Longrightarrow> b' + k' \<le> b + k \<Longrightarrow> apart a' n' b' k'"
  by (auto simp: apart_def)

section \<open>The ordered map of the C++ standard library\<close>

text \<open>
  A \<open>std::map\<close> keyed by pointers is the list of its entries in key order, which is the
  order its iterators visit them in. \<open>sm_put\<close> is assignment through \<open>operator[]\<close>,
  \<open>sm_at\<close> a read through \<open>operator[]\<close>, which inserts the default value of the mapped type
  when the key is missing.
\<close>

type_synonym 'v smap = "(addr \<times> 'v) list"

fun sm_put :: "addr \<Rightarrow> 'v \<Rightarrow> 'v smap \<Rightarrow> 'v smap" where
  "sm_put k v [] = [(k, v)]"
| "sm_put k v ((k', v') # m) =
     (if k < k' then (k, v) # (k', v') # m
      else if k = k' then (k, v) # m
      else (k', v') # sm_put k v m)"

definition sm_erase :: "addr \<Rightarrow> 'v smap \<Rightarrow> 'v smap" where
  "sm_erase k m = filter (\<lambda>e. fst e \<noteq> k) m"

definition sm_has :: "addr \<Rightarrow> 'v smap \<Rightarrow> bool" where
  "sm_has k m \<longleftrightarrow> map_of m k \<noteq> None"

definition sm_at :: "'v \<Rightarrow> addr \<Rightarrow> 'v smap \<Rightarrow> 'v \<times> 'v smap" where
  "sm_at d k m = (case map_of m k of Some v \<Rightarrow> (v, m) | None \<Rightarrow> (d, sm_put k d m))"

definition sm_wf :: "'v smap \<Rightarrow> bool" where
  "sm_wf m \<longleftrightarrow> sorted_wrt (<) (map fst m)"

lemma sm_wf_Nil [simp]: "sm_wf []"
  by (simp add: sm_wf_def)

lemma sm_wf_Cons [simp]: "sm_wf ((k, v) # m) \<longleftrightarrow> sm_wf m \<and> (\<forall>k' \<in> fst ` set m. k < k')"
  by (auto simp: sm_wf_def)

lemma sm_wf_distinct: "sm_wf m \<Longrightarrow> distinct (map fst m)"
  by (simp add: sm_wf_def strict_sorted_iff)

lemma set_sm_put_keys [simp]: "fst ` set (sm_put k v m) = insert k (fst ` set m)"
  by (induction k v m rule: sm_put.induct) auto

lemma ball_sm_put [simp]:
  "(\<forall>e \<in> set (sm_put k v m). P (fst e)) \<longleftrightarrow> P k \<and> (\<forall>e \<in> set m. P (fst e))"
  by (induction k v m rule: sm_put.induct) auto

lemma sm_wf_put [simp]: "sm_wf m \<Longrightarrow> sm_wf (sm_put k v m)"
proof (induction k v m rule: sm_put.induct)
  case (2 k v k' v' m)
  then show ?case by (auto intro: less_trans)
qed simp

lemma map_of_sm_put [smap_simps]:
  "sm_wf m \<Longrightarrow> map_of (sm_put k v m) = (map_of m)(k \<mapsto> v)"
proof (induction k v m rule: sm_put.induct)
  case (2 k v k' v' m)
  then show ?case by (auto simp: fun_eq_iff)
qed simp

lemma sm_wf_erase [simp]: "sm_wf m \<Longrightarrow> sm_wf (sm_erase k m)"
  by (induction m) (auto simp: sm_erase_def)

lemma map_of_sm_erase [smap_simps]: "map_of (sm_erase k m) = (map_of m)(k := None)"
  by (induction m) (auto simp: sm_erase_def fun_eq_iff)

lemma sm_has_put [smap_simps]: "sm_wf m \<Longrightarrow> sm_has j (sm_put k v m) \<longleftrightarrow> j = k \<or> sm_has j m"
  by (simp add: sm_has_def smap_simps)

lemma sm_has_erase [smap_simps]: "sm_has j (sm_erase k m) \<longleftrightarrow> j \<noteq> k \<and> sm_has j m"
  by (simp add: sm_has_def smap_simps)

lemma sm_has_iff: "sm_has k m \<longleftrightarrow> k \<in> fst ` set m"
  by (simp add: sm_has_def map_of_eq_None_iff)

lemma sm_at_Some: "map_of m k = Some v \<Longrightarrow> sm_at d k m = (v, m)"
  by (simp add: sm_at_def)

lemma sm_at_None: "map_of m k = None \<Longrightarrow> sm_at d k m = (d, sm_put k d m)"
  by (simp add: sm_at_def)

lemma sm_put_id: "sm_wf m \<Longrightarrow> map_of m k = Some v \<Longrightarrow> sm_put k v m = m"
proof (induction k v m rule: sm_put.induct)
  case (2 k v k' v' m)
  show ?case
  proof (cases "k < k'")
    case True
    with 2 have "k \<noteq> k'" "map_of m k = Some v" by auto
    then have "k \<in> fst ` set m" by (metis map_of_eq_None_iff option.distinct(1))
    with 2 True show ?thesis by force
  qed (use 2 in auto)
qed simp

subsection \<open>The contract of a pointer-keyed map\<close>

locale std_map =
  fixes lookup :: "'m \<Rightarrow> addr \<Rightarrow> 'v option"
    and put :: "addr \<Rightarrow> 'v \<Rightarrow> 'm \<Rightarrow> 'm"
    and erase :: "addr \<Rightarrow> 'm \<Rightarrow> 'm"
    and wf :: "'m \<Rightarrow> bool"
  assumes lookup_put: "wf m \<Longrightarrow> lookup (put k v m) = (lookup m)(k \<mapsto> v)"
    and lookup_erase: "wf m \<Longrightarrow> lookup (erase k m) = (lookup m)(k := None)"
    and wf_put: "wf m \<Longrightarrow> wf (put k v m)"
    and wf_erase: "wf m \<Longrightarrow> wf (erase k m)"
begin

lemma wf_puts: "wf m \<Longrightarrow> wf (fold (\<lambda>(k, v). put k v) kvs m)"
  by (induction kvs arbitrary: m) (auto simp: wf_put)

lemma lookup_puts: "wf m \<Longrightarrow> lookup (fold (\<lambda>(k, v). put k v) kvs m) = lookup m ++ map_of (rev kvs)"
proof (induction kvs arbitrary: m)
  case (Cons kv kvs)
  obtain k v where kv: "kv = (k, v)" by force
  show ?case
    by (simp add: kv Cons.IH wf_put Cons.prems lookup_put map_add_upd_left map_of_append
        flip: map_add_assoc) (simp add: map_add_def fun_eq_iff split: option.splits)
qed simp

lemma wf_erases: "wf m \<Longrightarrow> wf (fold erase ks m)"
  by (induction ks arbitrary: m) (auto simp: wf_erase)

lemma lookup_erases: "wf m \<Longrightarrow> lookup (fold erase ks m) = (\<lambda>k. if k \<in> set ks then None else lookup m k)"
  by (induction ks arbitrary: m) (auto simp: wf_erase lookup_erase fun_eq_iff)

end

interpretation sm: std_map map_of sm_put sm_erase sm_wf
  by unfold_locales (simp_all add: smap_simps)

section \<open>The ordered set of the C++ standard library\<close>

text \<open>
  A \<open>std::set\<close> of pointers is the sorted list of its elements: \<open>insert\<close> is
  \<^const>\<open>insort_insert\<close>, \<open>erase\<close> is \<^const>\<open>removeAll\<close>.
\<close>

definition ss_wf :: "addr list \<Rightarrow> bool" where
  "ss_wf s \<longleftrightarrow> sorted s \<and> distinct s"

lemma ss_wf_Nil [simp]: "ss_wf []"
  by (simp add: ss_wf_def)

lemma ss_wf_insert [simp]: "ss_wf s \<Longrightarrow> ss_wf (insort_insert x s)"
  by (simp add: ss_wf_def sorted_insort_insert distinct_insort_insert)

lemma ss_wf_erase [simp]: "ss_wf s \<Longrightarrow> ss_wf (removeAll x s)"
  by (simp add: ss_wf_def sorted_filter distinct_removeAll removeAll_filter_not_eq
      sorted_wrt_filter)

lemma sm_erase_absent: "map_of m obj = None \<Longrightarrow> sm_erase obj m = m"
  by (auto simp: sm_erase_def filter_id_conv map_of_eq_None_iff)

section \<open>Postconditions\<close>

text \<open>A postcondition of a computation, for whatever it returns; pushed inwards through the binds.\<close>

definition ensures :: "'a option \<Rightarrow> ('a \<Rightarrow> bool) \<Rightarrow> bool" where
  "ensures r P \<longleftrightarrow> (\<forall>y. r = Some y \<longrightarrow> P y)"

lemma ensures_simps [simp]:
  "ensures None P" "ensures (Some y) P = P y"
  "ensures (if b then r else r') P = ((b \<longrightarrow> ensures r P) \<and> (\<not> b \<longrightarrow> ensures r' P))"
  by (auto simp: ensures_def bind_eq_Some_conv)

lemma ensures_bind [simp]: "ensures (Option.bind r f) P = ensures r (\<lambda>y. ensures (f y) P)"
  by (auto simp: ensures_def bind_eq_Some_conv)

lemma ensuresD: "ensures r P \<Longrightarrow> r = Some y \<Longrightarrow> P y"
  by (simp add: ensures_def)

lemma ensures_mono: "ensures r P \<Longrightarrow> (\<And>y. P y \<Longrightarrow> Q y) \<Longrightarrow> ensures r Q"
  by (simp add: ensures_def)

lemma ensures_any: "(\<And>y. P y) \<Longrightarrow> ensures r P"
  by (simp add: ensures_def)

lemma bit_small: "bit w n \<Longrightarrow> unat w < 2 ^ k \<Longrightarrow> n < k" for w :: "'a::len word"
proof (rule ccontr)
  assume b: "bit w n" and small: "unat w < 2 ^ k" and "\<not> n < k"
  then have "unat w < 2 ^ n" by (meson le_trans not_le_imp_less leD order_less_le_trans power_increasing one_le_numeral linorder_not_less)
  moreover have "bit (unat w) n" using b by (simp add: bit_unsigned_iff bit_imp_le_length)
  ultimately show False by (simp add: bit_iff_odd)
qed

lemma take_bit_small: "unat w < 2 ^ k \<Longrightarrow> take_bit k w = w" for w :: "'a::len word"
  by (rule bit_eqI) (auto simp: bit_simps dest: bit_small)

lemma unat_drop_bit: "unat (drop_bit k v) = unat v div 2 ^ k" for v :: "'a::len word"
proof -
  have "unat v < 2 ^ LENGTH('a)" by (rule unsigned_less)
  then show ?thesis by (simp add: unsigned_drop_bit_eq take_bit_nat_eq_self) (simp add: drop_bit_eq_div)
qed

end
