(* ===== verification/Object_Header.thy ===== *)
theory Object_Header
  imports Marvin_Prelude
begin

text \<open>
  The object header of \<^verbatim>\<open>mirror::Object\<close> as Marvin lays it out
  (src/runtime/mirror/object.h, object-inl.h and object.cc): the bit-field helpers on
  8-bit and 32-bit words, and the flags and shift registers Marvin adds to every object,
  at their byte offsets in memory. An object is the address of its first byte.

  Byte offsets: \<open>klass_\<close> 0 to 3, \<open>monitor_\<close> 4 to 7, \<open>x_flags_\<close> 8, \<open>x_shift_regs_\<close> 9,
  \<open>x_dirty_bit_\<close> 10, \<open>x_access_bits_\<close> 11, \<open>x_padding_\<close> 12 to 15; the header is 16 bytes
  (no Brooks read barrier).
\<close>

section \<open>Bit fields\<close>

definition GetBits32 :: "32 word \<Rightarrow> nat \<Rightarrow> nat \<Rightarrow> 32 word" where
  "GetBits32 data offset width = drop_bit offset data AND drop_bit (32 - width) 0xffffffff"

definition SetBits32 :: "32 word \<Rightarrow> nat \<Rightarrow> nat \<Rightarrow> 32 word" where
  "SetBits32 data offset width = data OR push_bit offset (drop_bit (32 - width) 0xffffffff)"

definition ClearBits32 :: "32 word \<Rightarrow> nat \<Rightarrow> nat \<Rightarrow> 32 word" where
  "ClearBits32 data offset width =
     data AND NOT (push_bit offset (drop_bit (32 - width) 0xffffffff))"

definition AssignBits32 :: "32 word \<Rightarrow> 32 word \<Rightarrow> nat \<Rightarrow> nat \<Rightarrow> 32 word" where
  "AssignBits32 data val offset width =
     (let data' = ClearBits32 data offset width
      in data' OR (push_bit offset val AND drop_bit (32 - width - offset) 0xffffffff))"

definition GetBits8 :: "byte \<Rightarrow> nat \<Rightarrow> nat \<Rightarrow> byte" where
  "GetBits8 data offset width = drop_bit offset data AND drop_bit (8 - width) 0xff"

definition SetBits8 :: "byte \<Rightarrow> nat \<Rightarrow> nat \<Rightarrow> byte" where
  "SetBits8 data offset width = data OR push_bit offset (drop_bit (8 - width) 0xff)"

definition ClearBits8 :: "byte \<Rightarrow> nat \<Rightarrow> nat \<Rightarrow> byte" where
  "ClearBits8 data offset width = data AND NOT (push_bit offset (drop_bit (8 - width) 0xff))"

definition AssignBits8 :: "byte \<Rightarrow> byte \<Rightarrow> nat \<Rightarrow> nat \<Rightarrow> byte" where
  "AssignBits8 data val offset width =
     (let data' = ClearBits8 data offset width
      in data' OR (push_bit offset val AND drop_bit (8 - width - offset) 0xff))"

text \<open>
  The atomic variants load, or fetch-and-modify, the byte in one step; their value is the
  one of the plain variants.
\<close>

definition GetBitsAtomic8 :: "byte \<Rightarrow> nat \<Rightarrow> nat \<Rightarrow> byte" where
  "GetBitsAtomic8 data offset width = drop_bit offset data AND drop_bit (8 - width) 0xff"

definition SetBitsAtomic8 :: "byte \<Rightarrow> nat \<Rightarrow> nat \<Rightarrow> byte" where
  "SetBitsAtomic8 data offset width = data OR push_bit offset (drop_bit (8 - width) 0xff)"

definition ClearBitsAtomic8 :: "byte \<Rightarrow> nat \<Rightarrow> nat \<Rightarrow> byte" where
  "ClearBitsAtomic8 data offset width =
     data AND NOT (push_bit offset (drop_bit (8 - width) 0xff))"

text \<open>The self test of the helpers: results and expected values, compared one by one.\<close>

definition TestBitMethods :: bool where
  "TestBitMethods =
     (let tests32 =
        [(GetBits32 0xabcdef12 4 12, 0xef1),
         (GetBits32 0xffffffff 17 7, 0x7f),
         (SetBits32 0 4 12, 0x0000fff0),
         (SetBits32 0 17 7, 0x00fe0000),
         (ClearBits32 0xffffffff 4 12, 0xffff000f),
         (ClearBits32 0xffffffff 17 7, 0xff01ffff),
         (AssignBits32 0xabcdef12 0x88888 4 12, 0xabcd8882),
         (AssignBits32 0xffffffff 0xe 16 8, 0xff0effff)];
       tests8 =
        [(GetBits8 0xd9 2 4, 6),
         (SetBits8 0x00 5 2, 0x60),
         (ClearBits8 0xff 3 3, 0xc7),
         (AssignBits8 0xbb 0x1 1 4, 0xa3),
         (GetBitsAtomic8 0xd9 2 4, 6),
         (SetBitsAtomic8 0x00 5 2, 0x60),
         (ClearBitsAtomic8 0xff 3 3, 0xc7)]
      in list_all (\<lambda>(result, expected). result = expected) tests32 \<and>
         list_all (\<lambda>(result, expected). result = expected) tests8)"

section \<open>Header fields\<close>

definition kObjectHeaderSize :: nat where
  "kObjectHeaderSize = 16"

definition GetIgnoreReadFlag :: "mem \<Rightarrow> addr \<Rightarrow> bool" where
  "GetIgnoreReadFlag m p \<longleftrightarrow> GetBits8 (m (p + 11)) 0 1 \<noteq> 0"

definition SetIgnoreReadFlag :: "mem \<Rightarrow> addr \<Rightarrow> mem" where
  "SetIgnoreReadFlag m p = m(p + 11 := SetBits8 (m (p + 11)) 0 1)"

definition ClearIgnoreReadFlag :: "mem \<Rightarrow> addr \<Rightarrow> mem" where
  "ClearIgnoreReadFlag m p = m(p + 11 := ClearBits8 (m (p + 11)) 0 1)"

definition GetWriteBit :: "mem \<Rightarrow> addr \<Rightarrow> bool" where
  "GetWriteBit m p \<longleftrightarrow> GetBits8 (m (p + 11)) 2 1 \<noteq> 0"

definition SetWriteBit :: "mem \<Rightarrow> addr \<Rightarrow> mem" where
  "SetWriteBit m p = m(p + 11 := SetBits8 (m (p + 11)) 2 1)"

definition ClearWriteBit :: "mem \<Rightarrow> addr \<Rightarrow> mem" where
  "ClearWriteBit m p = m(p + 11 := ClearBits8 (m (p + 11)) 2 1)"

definition GetReadBit :: "mem \<Rightarrow> addr \<Rightarrow> bool" where
  "GetReadBit m p \<longleftrightarrow> GetBits8 (m (p + 11)) 1 1 \<noteq> 0"

definition SetReadBit :: "mem \<Rightarrow> addr \<Rightarrow> mem" where
  "SetReadBit m p = m(p + 11 := SetBits8 (m (p + 11)) 1 1)"

definition ClearReadBit :: "mem \<Rightarrow> addr \<Rightarrow> mem" where
  "ClearReadBit m p = m(p + 11 := ClearBits8 (m (p + 11)) 1 1)"

definition GetWriteShiftRegister :: "mem \<Rightarrow> addr \<Rightarrow> byte" where
  "GetWriteShiftRegister m p = GetBits8 (m (p + 9)) 0 4"

definition UpdateWriteShiftRegister :: "mem \<Rightarrow> addr \<Rightarrow> bool \<Rightarrow> mem" where
  "UpdateWriteShiftRegister m p written =
     (let oldVal = GetWriteShiftRegister m p;
          newVal = drop_bit 1 oldVal OR push_bit (4 - 1) (of_bool written)
      in m(p + 9 := AssignBits8 (m (p + 9)) newVal 0 4))"

definition GetReadShiftRegister :: "mem \<Rightarrow> addr \<Rightarrow> byte" where
  "GetReadShiftRegister m p = GetBits8 (m (p + 9)) 4 4"

definition UpdateReadShiftRegister :: "mem \<Rightarrow> addr \<Rightarrow> bool \<Rightarrow> mem" where
  "UpdateReadShiftRegister m p read =
     (let oldVal = GetReadShiftRegister m p;
          newVal = drop_bit 1 oldVal OR push_bit (4 - 1) (of_bool read)
      in m(p + 9 := AssignBits8 (m (p + 9)) newVal 4 4))"

definition GetDirtyBit :: "mem \<Rightarrow> addr \<Rightarrow> bool" where
  "GetDirtyBit m p \<longleftrightarrow> m (p + 10) \<noteq> 0"

definition SetDirtyBit :: "mem \<Rightarrow> addr \<Rightarrow> mem" where
  "SetDirtyBit m p = m(p + 10 := 1)"

definition ClearDirtyBit :: "mem \<Rightarrow> addr \<Rightarrow> mem" where
  "ClearDirtyBit m p = m(p + 10 := 0)"

definition GetStubFlag :: "mem \<Rightarrow> addr \<Rightarrow> bool" where
  "GetStubFlag m p \<longleftrightarrow> GetBitsAtomic8 (m (p + 8)) 7 1 \<noteq> 0"

definition GetNoSwapFlag :: "mem \<Rightarrow> addr \<Rightarrow> bool" where
  "GetNoSwapFlag m p \<longleftrightarrow> GetBitsAtomic8 (m (p + 8)) 2 1 \<noteq> 0"

definition SetNoSwapFlag :: "mem \<Rightarrow> addr \<Rightarrow> mem" where
  "SetNoSwapFlag m p = m(p + 8 := SetBitsAtomic8 (m (p + 8)) 2 1)"

definition GetPadding :: "mem \<Rightarrow> addr \<Rightarrow> nat" where
  "GetPadding m p = load m (p + 12) 4"

definition SetPadding :: "mem \<Rightarrow> addr \<Rightarrow> nat \<Rightarrow> mem" where
  "SetPadding m p val = store m (p + 12) 4 val"

text \<open>When the swap code counts an object as cold, from its write history
  (src/runtime/marvin\_common.h).\<close>

definition objectIsCold :: "byte \<Rightarrow> bool \<Rightarrow> bool" where
  "objectIsCold writeShiftRegVal wasWritten \<longleftrightarrow> writeShiftRegVal < 2 \<and> \<not> wasWritten"

definition objectIsLarge :: "nat \<Rightarrow> bool" where
  "objectIsLarge objectSize \<longleftrightarrow> objectSize \<ge> 2 * 1024"

section \<open>The bit fields, bit by bit\<close>

lemma bit_255 [simp]: "bit (255 :: int) i \<longleftrightarrow> i < 8"
  using bit_mask_iff [of 8 i, where 'a = int] by (simp add: mask_eq_exp_minus_1)

lemma bit_max32 [simp]: "bit (4294967295 :: int) i \<longleftrightarrow> i < 32"
  using bit_mask_iff [of 32 i, where 'a = int] by (simp add: mask_eq_exp_minus_1)

lemma bit_GetBits8:
  "w \<le> 8 \<Longrightarrow> bit (GetBits8 d off w) i \<longleftrightarrow> i < w \<and> bit d (off + i)"
  by (auto simp: GetBits8_def bit_simps)

lemma bit_SetBits8:
  "w \<le> 8 \<Longrightarrow> bit (SetBits8 d off w) i \<longleftrightarrow> bit d i \<or> i < 8 \<and> off \<le> i \<and> i < off + w"
  by (auto simp: SetBits8_def bit_simps)

lemma bit_ClearBits8:
  "w \<le> 8 \<Longrightarrow> bit (ClearBits8 d off w) i \<longleftrightarrow> bit d i \<and> \<not> (off \<le> i \<and> i < off + w)"
  by (auto simp: ClearBits8_def bit_simps dest: bit_imp_le_length)

lemma bit_AssignBits8:
  "off + w \<le> 8 \<Longrightarrow>
     bit (AssignBits8 d v off w) i \<longleftrightarrow> (if off \<le> i \<and> i < off + w then bit v (i - off) else bit d i)"
proof -
  assume le: "off + w \<le> 8"
  show ?thesis
    using le by (auto simp: AssignBits8_def Let_def bit_simps bit_ClearBits8)
qed

lemma GetBits8_1_iff: "GetBits8 d k 1 \<noteq> 0 \<longleftrightarrow> bit d k"
proof
  assume "GetBits8 d k 1 \<noteq> 0"
  then obtain i where "bit (GetBits8 d k 1) i" 
    using bit_eq_iff [of "GetBits8 d k 1" 0] by auto
  then show "bit d k" by (auto simp: bit_GetBits8)
next
  assume "bit d k"
  then have "bit (GetBits8 d k 1) 0" by (simp add: bit_GetBits8)
  then show "GetBits8 d k 1 \<noteq> 0" by auto
qed

lemma GetBits8_1_iff': "GetBits8 d k (Suc 0) = 0 \<longleftrightarrow> \<not> bit d k"
  using GetBits8_1_iff [of d k] by auto

lemma atomic8_eq:
  "GetBitsAtomic8 = GetBits8" "SetBitsAtomic8 = SetBits8" "ClearBitsAtomic8 = ClearBits8"
  by (simp_all add: fun_eq_iff GetBitsAtomic8_def GetBits8_def SetBitsAtomic8_def SetBits8_def
      ClearBitsAtomic8_def ClearBits8_def)

lemmas header_bit_simps = GetBits8_1_iff' bit_SetBits8 bit_ClearBits8 atomic8_eq

section \<open>What a header flag promises\<close>

text \<open>
  A flag lives in one byte of the object: setting it makes it true, changes no other byte
  and, because only the flag's byte is read, no flag of another byte.
\<close>

locale header_flag =
  fixes get :: "mem \<Rightarrow> addr \<Rightarrow> bool"
    and set_flag :: "mem \<Rightarrow> addr \<Rightarrow> mem"
    and off :: nat
  assumes get_set: "get (set_flag m p) p"
    and set_frame: "x \<noteq> p + off \<Longrightarrow> set_flag m p x = m x"
    and get_local: "m (p + off) = m' (p + off) \<Longrightarrow> get m p = get m' p"
begin

lemma set_same_outside: "lo \<le> p + off \<Longrightarrow> p + off < hi \<Longrightarrow> same_outside lo hi m (set_flag m p)"
  by (simp add: same_outside_def set_frame)

lemma get_outside:
  "same_outside lo hi m m' \<Longrightarrow> p + off < lo \<or> hi \<le> p + off \<Longrightarrow> get m' p = get m p"
  by (rule get_local) (auto simp: same_outside_def)

lemma get_set_other: "p \<noteq> q \<Longrightarrow> get (set_flag m q) p = get m p"
  by (rule get_local) (simp add: set_frame)

lemma get_sets: "get (fold (\<lambda>q m. set_flag m q) qs m) p \<longleftrightarrow> p \<in> set qs \<or> get m p"
proof (induction qs arbitrary: m)
  case (Cons q qs)
  then show ?case by (cases "p = q") (simp_all add: get_set get_set_other)
qed simp

end

locale clearable_flag = header_flag +
  fixes clear_flag :: "mem \<Rightarrow> addr \<Rightarrow> mem"
  assumes get_clear: "\<not> get (clear_flag m p) p"
    and clear_frame: "x \<noteq> p + off \<Longrightarrow> clear_flag m p x = m x"
begin

lemma clear_same_outside:
  "lo \<le> p + off \<Longrightarrow> p + off < hi \<Longrightarrow> same_outside lo hi m (clear_flag m p)"
  by (simp add: same_outside_def clear_frame)

lemma get_clear_other: "p \<noteq> q \<Longrightarrow> get (clear_flag m q) p = get m p"
  by (rule get_local) (simp add: clear_frame)

lemma get_clears: "get (fold (\<lambda>q m. clear_flag m q) qs m) p \<longleftrightarrow> p \<notin> set qs \<and> get m p"
proof (induction qs arbitrary: m)
  case (Cons q qs)
  then show ?case by (cases "p = q") (simp_all add: get_clear get_clear_other)
qed simp

end

lemmas access_flag_defs =
  GetIgnoreReadFlag_def SetIgnoreReadFlag_def ClearIgnoreReadFlag_def
  GetWriteBit_def SetWriteBit_def ClearWriteBit_def
  GetReadBit_def SetReadBit_def ClearReadBit_def
  GetDirtyBit_def SetDirtyBit_def ClearDirtyBit_def
  GetNoSwapFlag_def SetNoSwapFlag_def GetStubFlag_def

interpretation ignore_read: clearable_flag GetIgnoreReadFlag SetIgnoreReadFlag 11 ClearIgnoreReadFlag
  by unfold_locales (simp_all add: access_flag_defs header_bit_simps)

interpretation write_bit: clearable_flag GetWriteBit SetWriteBit 11 ClearWriteBit
  by unfold_locales (simp_all add: access_flag_defs header_bit_simps)

interpretation read_bit: clearable_flag GetReadBit SetReadBit 11 ClearReadBit
  by unfold_locales (simp_all add: access_flag_defs header_bit_simps)

interpretation dirty_bit: clearable_flag GetDirtyBit SetDirtyBit 10 ClearDirtyBit
  by unfold_locales (simp_all add: access_flag_defs)

interpretation no_swap: header_flag GetNoSwapFlag SetNoSwapFlag 8
  by unfold_locales (simp_all add: access_flag_defs header_bit_simps)

section \<open>The shift registers\<close>

lemma UpdateWriteShiftRegister_other [mem_simps]:
  "x \<noteq> p + 9 \<Longrightarrow> UpdateWriteShiftRegister m p b x = m x"
  by (simp add: UpdateWriteShiftRegister_def Let_def)

lemma UpdateReadShiftRegister_other [mem_simps]:
  "x \<noteq> p + 9 \<Longrightarrow> UpdateReadShiftRegister m p b x = m x"
  by (simp add: UpdateReadShiftRegister_def Let_def)

lemma bit_write_register:
  "bit (GetWriteShiftRegister (UpdateWriteShiftRegister m p b) p) i \<longleftrightarrow>
     (if i = 3 then b else i < 3 \<and> bit (GetWriteShiftRegister m p) (Suc i))"
  by (auto simp: GetWriteShiftRegister_def UpdateWriteShiftRegister_def Let_def bit_GetBits8
      bit_AssignBits8 bit_simps)

lemma bit_read_register:
  "bit (GetReadShiftRegister (UpdateReadShiftRegister m p b) p) i \<longleftrightarrow>
     (if i = 3 then b else i < 3 \<and> bit (GetReadShiftRegister m p) (Suc i))"
  by (auto simp: GetReadShiftRegister_def UpdateReadShiftRegister_def Let_def bit_GetBits8
      bit_AssignBits8 bit_simps)

lemma write_register_of_read_update [simp]:
  "GetWriteShiftRegister (UpdateReadShiftRegister m p b) q = GetWriteShiftRegister m q"
  by (rule bit_eqI) (auto simp: GetWriteShiftRegister_def UpdateReadShiftRegister_def Let_def
      bit_GetBits8 bit_AssignBits8 bit_simps)

lemma read_register_of_write_update [simp]:
  "GetReadShiftRegister (UpdateWriteShiftRegister m p b) q = GetReadShiftRegister m q"
  by (rule bit_eqI) (auto simp: GetReadShiftRegister_def UpdateWriteShiftRegister_def Let_def
      bit_GetBits8 bit_AssignBits8 bit_simps)

lemma less_2_iff_bits: "(v :: byte) < 2 \<longleftrightarrow> (\<forall>i. 0 < i \<longrightarrow> \<not> bit v i)"
proof -
  have "v < 2 \<longleftrightarrow> drop_bit 1 v = 0"
    by (simp add: drop_bit_eq_div word_less_nat_alt word_unat_eq_iff unat_div div_eq_0_iff)
  also have "\<dots> \<longleftrightarrow> (\<forall>i. 0 < i \<longrightarrow> \<not> bit v i)"
  proof (intro iffI allI impI notI)
    fix i assume *: "drop_bit 1 v = 0" and i: "0 < i" "bit v i"
    from i have "bit (drop_bit 1 v) (i - 1)" by (simp add: bit_simps)
    then have "bit (0 :: byte) (i - 1)" unfolding * .
    then show False by simp
  qed (auto intro!: bit_eqI simp: bit_simps)
  finally show ?thesis .
qed

lemma cold_after_three:
  "objectIsCold (GetWriteShiftRegister (UpdateWriteShiftRegister (UpdateWriteShiftRegister
     (UpdateWriteShiftRegister m p a) p b) p c) p) w \<longleftrightarrow> \<not> a \<and> \<not> b \<and> \<not> c \<and> \<not> w"
proof -
  let ?v = "GetWriteShiftRegister (UpdateWriteShiftRegister (UpdateWriteShiftRegister
     (UpdateWriteShiftRegister m p a) p b) p c) p"
  have "(\<forall>i. 0 < i \<longrightarrow> \<not> bit ?v i) \<longleftrightarrow> \<not> a \<and> \<not> b \<and> \<not> c"
  proof (intro iffI conjI allI impI)
    assume *: "\<forall>i. 0 < i \<longrightarrow> \<not> bit ?v i"
    show "\<not> a" using * [rule_format, of 1] by (simp add: bit_write_register)
    show "\<not> b" using * [rule_format, of 2] by (simp add: bit_write_register)
    show "\<not> c" using * [rule_format, of 3] by (simp add: bit_write_register)
  qed (auto simp: bit_write_register)
  then show ?thesis by (auto simp: objectIsCold_def less_2_iff_bits)
qed

section \<open>Properties of the header\<close>

text \<open>C14. An object that has been through at least three rounds of the collector's access
  accounting (each round shifts the round's written/not-written bit into the write shift
  register) is cold exactly when it was written in none of the last three rounds and has not
  been written since. Rounds before that do not matter.\<close>

theorem cold_iff_recently_unwritten:
  assumes "3 \<le> length ws"
  shows "objectIsCold
           (GetWriteShiftRegister (fold (\<lambda>w m. UpdateWriteShiftRegister m p w) ws m) p) w \<longleftrightarrow>
         \<not> w \<and> (\<forall>b \<in> set (take 3 (rev ws)). \<not> b)"
proof -
  obtain c b a us where "rev ws = c # b # a # us"
    using assms by (metis length_rev Suc_le_length_iff numeral_3_eq_3)
  then have ws: "ws = rev us @ [a, b, c]"
    by (simp add: rev_swap)
  show ?thesis by (auto simp: ws cold_after_three numeral_3_eq_3)
qed

theorem cold_iff_recently_unwritten_witness:
  "objectIsCold
     (GetWriteShiftRegister
        (fold (\<lambda>w m. UpdateWriteShiftRegister m 64 w) [True, False, False, False] (\<lambda>_. 0)) 64) False \<and>
   \<not> objectIsCold
     (GetWriteShiftRegister
        (fold (\<lambda>w m. UpdateWriteShiftRegister m 64 w) [True, False, False] (\<lambda>_. 0)) 64) False"
  using cold_iff_recently_unwritten [of "[True, False, False, False]" 64 "\<lambda>_. 0" False]
    cold_iff_recently_unwritten [of "[True, False, False]" 64 "\<lambda>_. 0" False]
  by (auto simp: numeral_3_eq_3)

text \<open>C15. A field assigned with \<^verbatim>\<open>AssignBits8\<close> reads back as the low bits of the value, and
  every field of the same byte that does not overlap it reads as before.\<close>

theorem AssignBits8_field:
  assumes "off + w \<le> 8"
  shows "GetBits8 (AssignBits8 d v off w) off w = take_bit w v \<and>
         (\<forall>off' w'. w' \<le> 8 \<and> (off' + w' \<le> off \<or> off + w \<le> off') \<longrightarrow>
            GetBits8 (AssignBits8 d v off w) off' w' = GetBits8 d off' w')"
proof (intro conjI allI impI)
  show "GetBits8 (AssignBits8 d v off w) off w = take_bit w v"
    using assms by (intro bit_eqI) (auto simp: bit_GetBits8 bit_AssignBits8 bit_simps)
  fix off' w' assume "w' \<le> 8 \<and> (off' + w' \<le> off \<or> off + w \<le> off')"
  then show "GetBits8 (AssignBits8 d v off w) off' w' = GetBits8 d off' w'"
    using assms by (intro bit_eqI) (auto simp: bit_GetBits8 bit_AssignBits8)
qed

theorem AssignBits8_field_witness:
  "GetBits8 (AssignBits8 0xbb 0x1 1 4) 1 4 = 1 \<and>
   GetBits8 (AssignBits8 0xbb 0x1 1 4) 5 3 = GetBits8 0xbb 5 3"
proof
  show "GetBits8 (AssignBits8 0xbb 0x1 1 4) 1 4 = 1"
    using AssignBits8_field [of 1 4 "0xbb" 1, THEN conjunct1] by simp
  show "GetBits8 (AssignBits8 0xbb 0x1 1 4) 5 3 = GetBits8 0xbb 5 3"
    using AssignBits8_field [of 1 4 "0xbb" 1, THEN conjunct2, rule_format, of 3 5] by simp
qed

text \<open>The self test of the bit helpers, all fifteen comparisons, passes.\<close>

theorem TestBitMethods_passes: "TestBitMethods"
  by (simp add: TestBitMethods_def GetBits32_def SetBits32_def ClearBits32_def AssignBits32_def
      GetBits8_def SetBits8_def ClearBits8_def AssignBits8_def atomic8_eq)

text \<open>C16. The three access bits share one byte and do not disturb one another: marking an object
  written leaves its read bit, its ignore-read flag, its dirty bit, its stub and no-swap flags and
  both shift registers as they were, and the same for marking it read and for clearing either.\<close>

theorem access_bits_independent:
  "GetReadBit (SetWriteBit m p) p = GetReadBit m p \<and>
   GetReadBit (ClearWriteBit m p) p = GetReadBit m p \<and>
   GetWriteBit (SetReadBit m p) p = GetWriteBit m p \<and>
   GetWriteBit (ClearReadBit m p) p = GetWriteBit m p \<and>
   (\<forall>f \<in> {SetWriteBit, ClearWriteBit, SetReadBit, ClearReadBit}.
      GetIgnoreReadFlag (f m p) p = GetIgnoreReadFlag m p \<and>
      GetDirtyBit (f m p) p = GetDirtyBit m p \<and>
      GetStubFlag (f m p) p = GetStubFlag m p \<and>
      GetNoSwapFlag (f m p) p = GetNoSwapFlag m p \<and>
      GetWriteShiftRegister (f m p) p = GetWriteShiftRegister m p \<and>
      GetReadShiftRegister (f m p) p = GetReadShiftRegister m p)"
  by (simp add: access_flag_defs header_bit_simps GetWriteShiftRegister_def GetReadShiftRegister_def)

theorem access_bits_independent_witness:
  "GetIgnoreReadFlag (SetWriteBit (\<lambda>_. 1) 0) 0"
proof -
  have "GetIgnoreReadFlag (SetWriteBit (\<lambda>_. 1) 0) 0 = GetIgnoreReadFlag (\<lambda>_. 1) 0"
    using access_bits_independent [of "\<lambda>_. 1" 0] by simp
  then show ?thesis by (simp add: GetIgnoreReadFlag_def header_bit_simps)
qed

end
