(* ===== verification/Reclamation_Table.thy ===== *)
theory Reclamation_Table
  imports Object_Header
begin

text \<open>
  The reclamation table (src/runtime/marvin\_reclamation\_table.h and .cc): an array of 12-byte
  entries shared with the part of the system that reclaims memory. Each entry has three flag
  bits, a lock counter of the application threads, a page count and an object address.

  Layout of an entry: \<open>bit_flags_\<close> 0, \<open>app_lock_counter_\<close> 1, \<open>num_pages_\<close> 2 and 3,
  \<open>object_address_\<close> 4 to 7, \<open>stub_back_pointer_\<close> 8 to 11.
\<close>

section \<open>Entries\<close>

definition OCCUPIED_BIT_OFFSET :: nat where "OCCUPIED_BIT_OFFSET = 0"
definition KERNEL_LOCK_BIT_OFFSET :: nat where "KERNEL_LOCK_BIT_OFFSET = 1"
definition RESIDENT_BIT_OFFSET :: nat where "RESIDENT_BIT_OFFSET = 2"

text \<open>The size of an entry: two bytes, one 16-bit and two 32-bit fields.\<close>

definition sizeof_TableEntry :: nat where "sizeof_TableEntry = 12"

definition GetBit :: "mem \<Rightarrow> addr \<Rightarrow> nat \<Rightarrow> bool" where
  "GetBit m e offset \<longleftrightarrow> drop_bit offset (m e) AND 1 \<noteq> 0"

definition SetBit :: "mem \<Rightarrow> addr \<Rightarrow> nat \<Rightarrow> mem" where
  "SetBit m e offset = m(e := m e OR push_bit offset 1)"

definition ClearBit :: "mem \<Rightarrow> addr \<Rightarrow> nat \<Rightarrow> mem" where
  "ClearBit m e offset = m(e := m e AND NOT (push_bit offset 1))"

definition GetOccupiedBit :: "mem \<Rightarrow> addr \<Rightarrow> bool" where
  "GetOccupiedBit m e = GetBit m e OCCUPIED_BIT_OFFSET"

definition SetOccupiedBit :: "mem \<Rightarrow> addr \<Rightarrow> mem" where
  "SetOccupiedBit m e = SetBit m e OCCUPIED_BIT_OFFSET"

definition ClearOccupiedBit :: "mem \<Rightarrow> addr \<Rightarrow> mem" where
  "ClearOccupiedBit m e = ClearBit m e OCCUPIED_BIT_OFFSET"

definition GetKernelLockBit :: "mem \<Rightarrow> addr \<Rightarrow> bool" where
  "GetKernelLockBit m e = GetBit m e KERNEL_LOCK_BIT_OFFSET"

definition SetKernelLockBit :: "mem \<Rightarrow> addr \<Rightarrow> mem" where
  "SetKernelLockBit m e = SetBit m e KERNEL_LOCK_BIT_OFFSET"

definition ClearKernelLockBit :: "mem \<Rightarrow> addr \<Rightarrow> mem" where
  "ClearKernelLockBit m e = ClearBit m e KERNEL_LOCK_BIT_OFFSET"

definition GetResidentBit :: "mem \<Rightarrow> addr \<Rightarrow> bool" where
  "GetResidentBit m e = GetBit m e RESIDENT_BIT_OFFSET"

definition SetResidentBit :: "mem \<Rightarrow> addr \<Rightarrow> mem" where
  "SetResidentBit m e = SetBit m e RESIDENT_BIT_OFFSET"

definition ClearResidentBit :: "mem \<Rightarrow> addr \<Rightarrow> mem" where
  "ClearResidentBit m e = ClearBit m e RESIDENT_BIT_OFFSET"

definition GetAppLockCounter :: "mem \<Rightarrow> addr \<Rightarrow> byte" where
  "GetAppLockCounter m e = m (e + 1)"

definition IncrAppLockCounter :: "mem \<Rightarrow> addr \<Rightarrow> mem" where
  "IncrAppLockCounter m e = m(e + 1 := m (e + 1) + 1)"

definition DecrAppLockCounter :: "mem \<Rightarrow> addr \<Rightarrow> mem" where
  "DecrAppLockCounter m e = m(e + 1 := m (e + 1) - 1)"

definition ZeroAppLockCounter :: "mem \<Rightarrow> addr \<Rightarrow> mem" where
  "ZeroAppLockCounter m e = m(e + 1 := 0)"

definition GetNumPages :: "mem \<Rightarrow> addr \<Rightarrow> nat" where
  "GetNumPages m e = load m (e + 2) 2"

definition SetNumPages :: "mem \<Rightarrow> addr \<Rightarrow> nat \<Rightarrow> mem" where
  "SetNumPages m e num = store m (e + 2) 2 num"

definition GetObjectAddress :: "mem \<Rightarrow> addr \<Rightarrow> addr" where
  "GetObjectAddress m e = load m (e + 4) 4"

text \<open>The address is truncated to its low 32 bits.\<close>

definition SetObjectAddress :: "mem \<Rightarrow> addr \<Rightarrow> addr \<Rightarrow> mem" where
  "SetObjectAddress m e obj = store m (e + 4) 4 obj"

text \<open>Run alone, a thread that finds the kernel lock bit set spins forever: the loop has no
  result.\<close>

partial_function (option) SpinOnKernelLock :: "mem \<Rightarrow> addr \<Rightarrow> mem option" where
  "SpinOnKernelLock m e = (if GetKernelLockBit m e then SpinOnKernelLock m e else Some m)"

definition LockFromAppThread :: "mem \<Rightarrow> addr \<Rightarrow> mem option" where
  "LockFromAppThread m e = do {
     m \<leftarrow> SpinOnKernelLock m e;
     let m = IncrAppLockCounter m e;
     SpinOnKernelLock m e
   }"

definition UnlockFromAppThread :: "mem \<Rightarrow> addr \<Rightarrow> mem" where
  "UnlockFromAppThread m e = DecrAppLockCounter m e"

section \<open>The table\<close>

record ReclamationTable =
  base_address :: addr
  num_entries :: nat

text \<open>\<^verbatim>\<open>mmap\<close> is an argument: the address of a fresh zero-filled mapping, or None when it fails.\<close>

definition CreateTable :: "addr option \<Rightarrow> nat \<Rightarrow> mem \<Rightarrow> ReclamationTable \<times> mem" where
  "CreateTable mmap numEntries m =
     (let size = numEntries * sizeof_TableEntry in
      case mmap of
        None \<Rightarrow> (\<lparr>base_address = 0, num_entries = 0\<rparr>, m)
      | Some baseAddress \<Rightarrow>
          (\<lparr>base_address = baseAddress, num_entries = numEntries\<rparr>, zero_bytes m baseAddress size))"

definition table_Begin :: "ReclamationTable \<Rightarrow> addr" where
  "table_Begin t = base_address t"

definition table_End :: "ReclamationTable \<Rightarrow> addr" where
  "table_End t = base_address t + num_entries t * sizeof_TableEntry"

definition InitEntry :: "mem \<Rightarrow> addr \<Rightarrow> mem" where
  "InitEntry m e = SetOccupiedBit (SetObjectAddress (SetNumPages (ZeroAppLockCounter m e) e 0) e 0) e"

text \<open>The scan of \<^verbatim>\<open>CreateEntry\<close> from \<open>curEntry\<close> with \<open>n\<close> entries left before the end; 0 is the
  null pointer, None a failed CHECK.\<close>

fun CreateEntry_from :: "nat \<Rightarrow> addr \<Rightarrow> mem \<Rightarrow> (addr \<times> mem) option" where
  "CreateEntry_from 0 curEntry m = Some (0, m)"
| "CreateEntry_from (Suc n) curEntry m =
     (if \<not> GetOccupiedBit m curEntry then
        (if GetKernelLockBit m curEntry then None else Some (curEntry, InitEntry m curEntry))
      else CreateEntry_from n (curEntry + sizeof_TableEntry) m)"

definition CreateEntry :: "ReclamationTable \<Rightarrow> mem \<Rightarrow> (addr \<times> mem) option" where
  "CreateEntry t m = CreateEntry_from (num_entries t) (table_Begin t) m"

definition FreeEntry :: "mem \<Rightarrow> addr \<Rightarrow> mem" where
  "FreeEntry m entry = ClearOccupiedBit m entry"

definition IsValid :: "ReclamationTable \<Rightarrow> bool" where
  "IsValid t \<longleftrightarrow> base_address t \<noteq> 0"

fun UnlockAllEntries_from :: "nat \<Rightarrow> addr \<Rightarrow> mem \<Rightarrow> mem" where
  "UnlockAllEntries_from 0 curEntry m = m"
| "UnlockAllEntries_from (Suc n) curEntry m =
     UnlockAllEntries_from n (curEntry + sizeof_TableEntry)
       (if GetOccupiedBit m curEntry then ZeroAppLockCounter m curEntry else m)"

definition UnlockAllEntries :: "ReclamationTable \<Rightarrow> mem \<Rightarrow> mem" where
  "UnlockAllEntries t m = UnlockAllEntries_from (num_entries t) (table_Begin t) m"

text \<open>The address of entry \<open>i\<close>.\<close>

definition table_entry :: "ReclamationTable \<Rightarrow> nat \<Rightarrow> addr" where
  "table_entry t i = base_address t + i * sizeof_TableEntry"

definition table_entries :: "ReclamationTable \<Rightarrow> addr list" where
  "table_entries t = map (table_entry t) [0..<num_entries t]"

text \<open>The table as a set of occupied slots.\<close>

definition occupied_slots :: "ReclamationTable \<Rightarrow> mem \<Rightarrow> nat set" where
  "occupied_slots t m = {i \<in> {..<num_entries t}. GetOccupiedBit m (table_entry t i)}"

section \<open>Entry lemmas\<close>

lemma GetBit_iff: "GetBit m e k \<longleftrightarrow> bit (m e) k"
proof -
  have "drop_bit k (m e) AND 1 \<noteq> 0 \<longleftrightarrow> odd (drop_bit k (m e))"
    by (simp add: and_one_eq odd_iff_mod_2_eq_one)
  then show ?thesis by (simp add: GetBit_def bit_iff_odd drop_bit_eq_div)
qed

lemmas entry_bit_defs =
  GetOccupiedBit_def SetOccupiedBit_def ClearOccupiedBit_def
  GetKernelLockBit_def SetKernelLockBit_def ClearKernelLockBit_def
  GetResidentBit_def SetResidentBit_def ClearResidentBit_def
  OCCUPIED_BIT_OFFSET_def KERNEL_LOCK_BIT_OFFSET_def RESIDENT_BIT_OFFSET_def
  GetBit_iff SetBit_def ClearBit_def

interpretation occupied: clearable_flag GetOccupiedBit SetOccupiedBit 0 ClearOccupiedBit
  by unfold_locales (auto simp: entry_bit_defs bit_simps)

interpretation kernel_lock: clearable_flag GetKernelLockBit SetKernelLockBit 0 ClearKernelLockBit
  by unfold_locales (auto simp: entry_bit_defs bit_simps)

interpretation resident: clearable_flag GetResidentBit SetResidentBit 0 ClearResidentBit
  by unfold_locales (auto simp: entry_bit_defs bit_simps)

text \<open>The three flags share a byte and are independent; the other fields are in other bytes.\<close>

lemma entry_flags_independent [simp]:
  "GetKernelLockBit (SetOccupiedBit m e) e = GetKernelLockBit m e"
  "GetResidentBit (SetOccupiedBit m e) e = GetResidentBit m e"
  "GetKernelLockBit (ClearOccupiedBit m e) e = GetKernelLockBit m e"
  "GetResidentBit (ClearOccupiedBit m e) e = GetResidentBit m e"
  "GetOccupiedBit (SetKernelLockBit m e) e = GetOccupiedBit m e"
  "GetResidentBit (SetKernelLockBit m e) e = GetResidentBit m e"
  "GetOccupiedBit (ClearKernelLockBit m e) e = GetOccupiedBit m e"
  "GetResidentBit (ClearKernelLockBit m e) e = GetResidentBit m e"
  "GetOccupiedBit (SetResidentBit m e) e = GetOccupiedBit m e"
  "GetKernelLockBit (SetResidentBit m e) e = GetKernelLockBit m e"
  "GetOccupiedBit (ClearResidentBit m e) e = GetOccupiedBit m e"
  "GetKernelLockBit (ClearResidentBit m e) e = GetKernelLockBit m e"
  by (auto simp: entry_bit_defs bit_simps)

lemma entry_fields_apart [simp]:
  "GetOccupiedBit (ZeroAppLockCounter m e) e = GetOccupiedBit m e"
  "GetKernelLockBit (IncrAppLockCounter m e) e = GetKernelLockBit m e"
  "GetKernelLockBit (DecrAppLockCounter m e) e = GetKernelLockBit m e"
  "GetResidentBit (IncrAppLockCounter m e) e = GetResidentBit m e"
  "GetResidentBit (DecrAppLockCounter m e) e = GetResidentBit m e"
  "GetAppLockCounter (SetKernelLockBit m e) e = GetAppLockCounter m e"
  "GetAppLockCounter (ClearKernelLockBit m e) e = GetAppLockCounter m e"
  "GetAppLockCounter (SetResidentBit m e) e = GetAppLockCounter m e"
  "GetAppLockCounter (ClearResidentBit m e) e = GetAppLockCounter m e"
  by (simp_all add: entry_bit_defs IncrAppLockCounter_def DecrAppLockCounter_def
      ZeroAppLockCounter_def GetAppLockCounter_def)

lemma InitEntry_outside: "x < e \<or> e + 8 \<le> x \<Longrightarrow> InitEntry m e x = m x"
  by (auto simp: InitEntry_def SetObjectAddress_def SetNumPages_def ZeroAppLockCounter_def
      occupied.set_frame store_byte_out)

lemma InitEntry_flags:
  "GetOccupiedBit (InitEntry m e) e"
  "GetResidentBit (InitEntry m e) e = GetResidentBit m e"
  "GetKernelLockBit (InitEntry m e) e = GetKernelLockBit m e"
  "GetAppLockCounter (InitEntry m e) e = 0"
  by (auto simp: InitEntry_def occupied.get_set entry_bit_defs bit_simps SetObjectAddress_def
      SetNumPages_def ZeroAppLockCounter_def GetAppLockCounter_def store_byte_out)

lemma InitEntry_fields: "GetNumPages (InitEntry m e) e = 0" "GetObjectAddress (InitEntry m e) e = 0"
proof -
  have occ: "load (SetOccupiedBit m' e) a n = load m' a n" if "e < a" for m' a n
    using that by (auto simp: load_def entry_bit_defs intro!: arg_cong [where f = le_nat] read_bytes_cong)
  show "GetNumPages (InitEntry m e) e = 0" "GetObjectAddress (InitEntry m e) e = 0"
    by (simp_all add: InitEntry_def GetNumPages_def GetObjectAddress_def occ SetObjectAddress_def SetNumPages_def
        load_store_apart load_store_same apart_def)
qed

lemma SpinOnKernelLock_Some:
  "SpinOnKernelLock m e = Some m' \<Longrightarrow> \<not> GetKernelLockBit m e \<and> m' = m"
  by (rule SpinOnKernelLock.raw_induct [where P = "\<lambda>m e m'. \<not> GetKernelLockBit m e \<and> m' = m"])
     (auto split: if_splits)

lemma SpinOnKernelLock_eq:
  "SpinOnKernelLock m e = (if GetKernelLockBit m e then None else Some m)"
  using SpinOnKernelLock_Some [of m e] SpinOnKernelLock.simps [of m e]
  by (cases "SpinOnKernelLock m e"; cases "GetKernelLockBit m e") auto

lemma LockFromAppThread_eq:
  "LockFromAppThread m e =
     (if GetKernelLockBit m e then None else Some (IncrAppLockCounter m e))"
  by (simp add: LockFromAppThread_def SpinOnKernelLock_eq)

lemma Unlock_Lock [simp]:
  "UnlockFromAppThread (IncrAppLockCounter m e) e = m"
  by (auto simp: UnlockFromAppThread_def IncrAppLockCounter_def DecrAppLockCounter_def)

section \<open>Table lemmas\<close>

lemma CreateEntry_from_find:
  "CreateEntry_from n e m =
     (case find (\<lambda>i. \<not> GetOccupiedBit m (e + i * sizeof_TableEntry)) [0..<n] of
        None \<Rightarrow> Some (0, m)
      | Some i \<Rightarrow> let e' = e + i * sizeof_TableEntry in
          if GetKernelLockBit m e' then None else Some (e', InitEntry m e'))"
proof (induction n arbitrary: e)
  case (Suc n)
  have *: "find P [0..<Suc n] = (if P 0 then Some 0 else map_option Suc (find (\<lambda>i. P (Suc i)) [0..<n]))" for P
  proof -
    have "find P (map Suc xs) = map_option Suc (find (\<lambda>i. P (Suc i)) xs)" for xs
      by (induction xs) auto
    then show ?thesis by (simp add: upt_conv_Cons map_Suc_upt [symmetric] del: upt_Suc)
  qed
  show ?case
    by (simp add: * Suc.IH algebra_simps Let_def del: upt_Suc split: option.split)
qed simp

lemma UnlockAllEntries_from_byte:
  "UnlockAllEntries_from n e m x =
     (if \<exists>i<n. x = e + i * sizeof_TableEntry + 1 \<and> GetOccupiedBit m (e + i * sizeof_TableEntry)
      then 0 else m x)"
proof (induction n arbitrary: e m)
  case (Suc n)
  let ?m = "if GetOccupiedBit m e then ZeroAppLockCounter m e else m"
  have occ: "GetOccupiedBit ?m (e + sizeof_TableEntry + i * sizeof_TableEntry) =
             GetOccupiedBit m (e + sizeof_TableEntry + i * sizeof_TableEntry)" for i
    by (auto intro!: occupied.get_local simp: ZeroAppLockCounter_def sizeof_TableEntry_def)
  have ex: "(\<exists>i<Suc n. P i) \<longleftrightarrow> P 0 \<or> (\<exists>i<n. P (Suc i))" for P
    by (metis Suc_less_eq gr0_conv_Suc less_Suc_eq_0_disj)
  show ?case
    unfolding UnlockAllEntries_from.simps Suc.IH occ ex
    by (auto simp: ZeroAppLockCounter_def add.assoc)
qed simp

lemma table_entry_eq_iff [simp]: "table_entry t i = table_entry t j \<longleftrightarrow> i = j"
  by (simp add: table_entry_def sizeof_TableEntry_def)

lemma table_entry_apart:
  "i \<noteq> j \<Longrightarrow> table_entry t i + 12 \<le> table_entry t j \<or> table_entry t j + 12 \<le> table_entry t i"
  by (auto simp: table_entry_def sizeof_TableEntry_def)

lemma occupied_slots_InitEntry:
  "i < num_entries t \<Longrightarrow>
     occupied_slots t (InitEntry m (table_entry t i)) = insert i (occupied_slots t m)"
proof -
  assume i: "i < num_entries t"
  have "GetOccupiedBit (InitEntry m (table_entry t i)) (table_entry t j) =
        (j = i \<or> GetOccupiedBit m (table_entry t j))" for j
  proof (cases "j = i")
    case False
    then show ?thesis
      using table_entry_apart [of j i t] by (auto intro!: occupied.get_local simp: InitEntry_outside)
  qed (simp add: InitEntry_flags)
  then show ?thesis using i by (auto simp: occupied_slots_def)
qed

section \<open>Properties of the table\<close>


text \<open>The first slot is occupied, the second one free but still resident with a page count and an object of its last owner.\<close>

definition demo_table :: ReclamationTable where
  "demo_table = \<lparr>base_address = 4096, num_entries = 2\<rparr>"

definition demo_table_mem :: mem where
  "demo_table_mem = (\<lambda>_. 0)(4096 := 1, 4108 := 4, 4110 := 3, 4113 := 32)"


text \<open>C24. \<^verbatim>\<open>UnlockAllEntries\<close> zeroes the lock counter of exactly the occupied entries; every other
  byte of memory keeps its value.\<close>

theorem UnlockAllEntries_zeroes_counters:
  "UnlockAllEntries t m x =
     (if \<exists>i \<in> occupied_slots t m. x = table_entry t i + 1 then 0 else m x)"
  by (auto simp: UnlockAllEntries_def UnlockAllEntries_from_byte table_Begin_def table_entry_def
      occupied_slots_def)

end
