(* ===== verification/Lock_Protocol.thy ===== *)
theory Lock_Protocol
  imports Reclamation_Table
begin

text \<open>
  The locking protocol of one reclamation-table entry: accesses of application threads, which run
  \<^verbatim>\<open>LockFromAppThread\<close>, use the object and run \<^verbatim>\<open>UnlockFromAppThread\<close>, against the reclaimer, the
  loop body of \<^verbatim>\<open>SwapObjectsOut\<close> (src/runtime/marvin\_swap.cc) with the two rounds of
  \<^verbatim>\<open>doKernelReclamationChecks\<close>, and against \<^verbatim>\<open>UnlockAllEntries\<close>, which the heap runs right before
  it reclaims and before it swaps objects in (src/runtime/gc/heap.cc). Every load and every
  read-modify-write of the shared entry or of the object's header is one step, and steps interleave
  freely; \<^verbatim>\<open>UnlockAllEntries\<close> is one step on the entry because it runs with all threads suspended; it
  leaves an unoccupied entry alone.
\<close>

section \<open>The checks of the reclaimer\<close>

definition kPageSize :: nat where "kPageSize = 4096"

text \<open>None is a failed CHECK: an occupied, unlocked, resident entry without an object.\<close>

definition doKernelReclamationChecks :: "mem \<Rightarrow> addr \<Rightarrow> bool option" where
  "doKernelReclamationChecks m rte =
     (if \<not> GetOccupiedBit m rte then Some False
      else if GetAppLockCounter m rte > 0 then Some False
      else if \<not> GetResidentBit m rte then Some False
      else let obj = GetObjectAddress m rte in
        if obj = 0 then None
        else let isDirty = GetDirtyBit m obj in
          if isDirty then Some False
          else let wsrVal = GetWriteShiftRegister m obj; wasWritten = GetWriteBit m obj in
            if \<not> objectIsCold wsrVal wasWritten then Some False else Some True)"

text \<open>The same checks as the sequence of reads the code performs.\<close>

datatype check = ChkOccupied | ChkCounter | ChkResident | ChkDirty | ChkCold

fun check_passes :: "mem \<Rightarrow> addr \<Rightarrow> check \<Rightarrow> bool" where
  "check_passes m rte ChkOccupied = GetOccupiedBit m rte"
| "check_passes m rte ChkCounter = (GetAppLockCounter m rte = 0)"
| "check_passes m rte ChkResident = GetResidentBit m rte"
| "check_passes m rte ChkDirty = (\<not> GetDirtyBit m (GetObjectAddress m rte))"
| "check_passes m rte ChkCold =
     objectIsCold (GetWriteShiftRegister m (GetObjectAddress m rte)) (GetWriteBit m (GetObjectAddress m rte))"

fun next_check :: "check \<Rightarrow> check option" where
  "next_check ChkOccupied = Some ChkCounter"
| "next_check ChkCounter = Some ChkResident"
| "next_check ChkResident = Some ChkDirty"
| "next_check ChkDirty = Some ChkCold"
| "next_check ChkCold = None"

section \<open>The step relation\<close>

text \<open>Where an access is: outside, in the first spin loop, about to increment the counter, in the
  second spin loop, or holding the entry. A thread that enters the same object again through another
  stub call is a second access.\<close>

datatype app_pc = AIdle | ASpinFirst | AIncr | ASpinSecond | AHold

text \<open>Where the reclaimer is: between entries, in the first round of checks, about to set the kernel
  lock bit, in the second round, about to drop the pages, to clear the resident bit, to clear the
  lock bit.\<close>

datatype reclaimer_pc = RNext | RFirst check | RSetLock | RSecond check | RMadvise | RClearResident | RClearLock

text \<open>The field \<open>cut_off\<close> is not a variable of the code: it counts the accesses that had incremented the
  counter and not yet decremented it when \<^verbatim>\<open>UnlockAllEntries\<close> last zeroed the counter.\<close>

record lock_conf =
  shared :: mem
  reclaimer :: reclaimer_pc
  apps :: "app_pc list"
  cut_off :: nat

definition incremented :: "app_pc \<Rightarrow> bool" where
  "incremented a \<longleftrightarrow> a = ASpinSecond \<or> a = AHold"

definition num_incremented :: "app_pc list \<Rightarrow> nat" where
  "num_incremented as = length (filter incremented as)"

text \<open>Steps on the entry at \<open>rte\<close>, whose object occupies the bytes from \<open>obj\<close> to \<open>obj + len\<close>. An access
  that holds the entry may change the object in any way, its dirty bit included, and may swap the
  object in (set the resident bit).\<close>

inductive lock_step :: "addr \<Rightarrow> addr \<Rightarrow> nat \<Rightarrow> lock_conf \<Rightarrow> lock_conf \<Rightarrow> bool"
  for rte obj len where
  app_start: "i < length (apps c) \<Longrightarrow> apps c ! i = AIdle \<Longrightarrow>
     lock_step rte obj len c (c\<lparr>apps := (apps c)[i := ASpinFirst]\<rparr>)"
| app_first: "i < length (apps c) \<Longrightarrow> apps c ! i = ASpinFirst \<Longrightarrow> \<not> GetKernelLockBit (shared c) rte \<Longrightarrow>
     lock_step rte obj len c (c\<lparr>apps := (apps c)[i := AIncr]\<rparr>)"
| app_incr: "i < length (apps c) \<Longrightarrow> apps c ! i = AIncr \<Longrightarrow>
     lock_step rte obj len c
       (c\<lparr>shared := IncrAppLockCounter (shared c) rte, apps := (apps c)[i := ASpinSecond]\<rparr>)"
| app_second: "i < length (apps c) \<Longrightarrow> apps c ! i = ASpinSecond \<Longrightarrow> \<not> GetKernelLockBit (shared c) rte \<Longrightarrow>
     lock_step rte obj len c (c\<lparr>apps := (apps c)[i := AHold]\<rparr>)"
| app_access: "i < length (apps c) \<Longrightarrow> apps c ! i = AHold \<Longrightarrow> same_outside obj (obj + len) (shared c) m' \<Longrightarrow>
     lock_step rte obj len c (c\<lparr>shared := m'\<rparr>)"
| app_swap_in: "i < length (apps c) \<Longrightarrow> apps c ! i = AHold \<Longrightarrow>
     lock_step rte obj len c (c\<lparr>shared := SetResidentBit (shared c) rte\<rparr>)"
| app_unlock: "i < length (apps c) \<Longrightarrow> apps c ! i = AHold \<Longrightarrow>
     lock_step rte obj len c
       (c\<lparr>shared := UnlockFromAppThread (shared c) rte, apps := (apps c)[i := AIdle]\<rparr>)"
| rec_start: "reclaimer c = RNext \<Longrightarrow>
     lock_step rte obj len c (c\<lparr>reclaimer := RFirst ChkOccupied\<rparr>)"
| rec_first: "reclaimer c = RFirst k \<Longrightarrow>
     lock_step rte obj len c
       (c\<lparr>reclaimer := (if check_passes (shared c) rte k
                         then (case next_check k of Some k' \<Rightarrow> RFirst k' | None \<Rightarrow> RSetLock)
                         else RNext)\<rparr>)"
| rec_lock: "reclaimer c = RSetLock \<Longrightarrow>
     lock_step rte obj len c
       (c\<lparr>shared := SetKernelLockBit (shared c) rte, reclaimer := RSecond ChkOccupied\<rparr>)"
| rec_second: "reclaimer c = RSecond k \<Longrightarrow>
     lock_step rte obj len c
       (c\<lparr>reclaimer := (if check_passes (shared c) rte k
                         then (case next_check k of Some k' \<Rightarrow> RSecond k' | None \<Rightarrow> RMadvise)
                         else RClearLock)\<rparr>)"
| rec_madvise: "reclaimer c = RMadvise \<Longrightarrow>
     lock_step rte obj len c
       (c\<lparr>shared := zero_bytes (shared c) (GetObjectAddress (shared c) rte)
                       (GetNumPages (shared c) rte * kPageSize),
          reclaimer := RClearResident\<rparr>)"
| rec_clear_resident: "reclaimer c = RClearResident \<Longrightarrow>
     lock_step rte obj len c
       (c\<lparr>shared := ClearResidentBit (shared c) rte, reclaimer := RClearLock\<rparr>)"
| rec_unlock: "reclaimer c = RClearLock \<Longrightarrow>
     lock_step rte obj len c
       (c\<lparr>shared := ClearKernelLockBit (shared c) rte, reclaimer := RNext\<rparr>)"
| unlock_all: "reclaimer c = RNext \<Longrightarrow> GetOccupiedBit (shared c) rte \<Longrightarrow>
     lock_step rte obj len c
       (c\<lparr>shared := ZeroAppLockCounter (shared c) rte, cut_off := num_incremented (apps c)\<rparr>)"

text \<open>The start: no access near the entry, counter zero, the object's pages recorded in the entry and
  apart from it.\<close>

definition lock_init :: "addr \<Rightarrow> addr \<Rightarrow> nat \<Rightarrow> lock_conf \<Rightarrow> bool" where
  "lock_init rte obj len c \<longleftrightarrow>
     reclaimer c = RNext \<and> (\<forall>a \<in> set (apps c). a = AIdle) \<and> cut_off c = 0 \<and>
     GetAppLockCounter (shared c) rte = 0 \<and> GetObjectAddress (shared c) rte = obj \<and>
     GetNumPages (shared c) rte * kPageSize = len \<and> 11 \<le> len \<and> apart rte 12 obj len"

section \<open>The invariant\<close>

fun holds_lock_bit :: "reclaimer_pc \<Rightarrow> bool" where
  "holds_lock_bit RNext = False"
| "holds_lock_bit (RFirst k) = False"
| "holds_lock_bit RSetLock = False"
| "holds_lock_bit _ = True"

fun past_counter :: "reclaimer_pc \<Rightarrow> bool" where
  "past_counter (RSecond k) = (k = ChkResident \<or> k = ChkDirty \<or> k = ChkCold)"
| "past_counter RMadvise = True"
| "past_counter RClearResident = True"
| "past_counter _ = False"

fun past_dirty :: "reclaimer_pc \<Rightarrow> bool" where
  "past_dirty (RSecond k) = (k = ChkCold)"
| "past_dirty RMadvise = True"
| "past_dirty _ = False"

definition lock_inv :: "addr \<Rightarrow> addr \<Rightarrow> nat \<Rightarrow> lock_conf \<Rightarrow> bool" where
  "lock_inv rte obj len c \<longleftrightarrow>
     GetAppLockCounter (shared c) rte = of_nat (num_incremented (apps c)) - of_nat (cut_off c) \<and>
     GetObjectAddress (shared c) rte = obj \<and>
     GetNumPages (shared c) rte * kPageSize = len \<and> 11 \<le> len \<and> apart rte 12 obj len \<and>
     (holds_lock_bit (reclaimer c) \<longrightarrow> GetKernelLockBit (shared c) rte) \<and>
     (cut_off c = 0 \<longrightarrow> past_counter (reclaimer c) \<longrightarrow> AHold \<notin> set (apps c)) \<and>
     (cut_off c = 0 \<longrightarrow> past_dirty (reclaimer c) \<longrightarrow> \<not> GetDirtyBit (shared c) obj)"

section \<open>Preservation\<close>

lemma pc_order: "past_counter r \<Longrightarrow> holds_lock_bit r" "past_dirty r \<Longrightarrow> past_counter r"
  by (cases r; simp)+

lemma num_incremented_update:
  "i < length as \<Longrightarrow>
     num_incremented (as[i := a]) + of_bool (incremented (as ! i)) = num_incremented as + of_bool (incremented a)"
proof -
  assume i: "i < length as"
  have app: "num_incremented (xs @ b # ys) = num_incremented xs + num_incremented ys + of_bool (incremented b)" for xs ys b
    by (simp add: num_incremented_def)
  have "num_incremented as = num_incremented (take i as @ as ! i # drop (Suc i) as)"
    by (rule arg_cong [OF id_take_nth_drop [OF i]])
  then show ?thesis
    by (simp add: upd_conv_take_nth_drop [OF i] app)
qed

lemma num_incremented_update_word:
  "i < length as \<Longrightarrow>
     (of_nat (num_incremented (as[i := a])) :: byte) =
       of_nat (num_incremented as) + of_bool (incremented a) - of_bool (incremented (as ! i))"
  using arg_cong [OF num_incremented_update [of i as a], where f = "of_nat :: nat \<Rightarrow> byte"]
  by (simp add: eq_diff_eq)

lemma hold_update: "a \<noteq> AHold \<Longrightarrow> AHold \<notin> set as \<Longrightarrow> AHold \<notin> set (as[i := a])"
  using set_update_subset_insert [of as i a] by auto

lemma no_incremented:
  "of_nat (num_incremented as) = (0 :: byte) \<Longrightarrow> length as < 256 \<Longrightarrow> AHold \<notin> set as"
proof -
  assume z: "of_nat (num_incremented as) = (0 :: byte)" and l: "length as < 256"
  have "num_incremented as < 256"
    unfolding num_incremented_def using l length_filter_le [of incremented as] by linarith
  moreover have "256 dvd num_incremented as"
    using z by (simp add: word_of_nat_eq_0_iff)
  ultimately have "num_incremented as = 0" by (auto dest: dvd_imp_le)
  then show ?thesis by (auto simp: num_incremented_def incremented_def filter_empty_conv)
qed

text \<open>What the steps do to the fields the invariant reads.\<close>

lemma entry_address_frame:
  "\<forall>x. rte + 2 \<le> x \<and> x < rte + 8 \<longrightarrow> m' x = m x \<Longrightarrow>
     GetObjectAddress m' rte = GetObjectAddress m rte \<and> GetNumPages m' rte = GetNumPages m rte"
  unfolding GetObjectAddress_def GetNumPages_def load_def
  by (intro conjI arg_cong [where f = le_nat] read_bytes_cong) auto

lemmas step_frame_defs =
  IncrAppLockCounter_def DecrAppLockCounter_def UnlockFromAppThread_def
  SetKernelLockBit_def ClearKernelLockBit_def SetResidentBit_def ClearResidentBit_def SetBit_def ClearBit_def

lemma entry_address_steps [simp]:
  "GetObjectAddress (IncrAppLockCounter m e) e = GetObjectAddress m e"
  "GetNumPages (IncrAppLockCounter m e) e = GetNumPages m e"
  "GetObjectAddress (UnlockFromAppThread m e) e = GetObjectAddress m e"
  "GetNumPages (UnlockFromAppThread m e) e = GetNumPages m e"
  "GetObjectAddress (SetKernelLockBit m e) e = GetObjectAddress m e"
  "GetNumPages (SetKernelLockBit m e) e = GetNumPages m e"
  "GetObjectAddress (ClearKernelLockBit m e) e = GetObjectAddress m e"
  "GetNumPages (ClearKernelLockBit m e) e = GetNumPages m e"
  "GetObjectAddress (SetResidentBit m e) e = GetObjectAddress m e"
  "GetNumPages (SetResidentBit m e) e = GetNumPages m e"
  "GetObjectAddress (ClearResidentBit m e) e = GetObjectAddress m e"
  "GetNumPages (ClearResidentBit m e) e = GetNumPages m e"
  by (auto simp: step_frame_defs intro!: entry_address_frame [THEN conjunct1] entry_address_frame [THEN conjunct2])

lemma dirty_steps:
  assumes "apart rte 12 obj len" "11 \<le> len"
  shows "GetDirtyBit (IncrAppLockCounter m rte) obj = GetDirtyBit m obj"
    "GetDirtyBit (UnlockFromAppThread m rte) obj = GetDirtyBit m obj"
    "GetDirtyBit (SetResidentBit m rte) obj = GetDirtyBit m obj"
    "GetDirtyBit (SetKernelLockBit m rte) obj = GetDirtyBit m obj"
    "GetDirtyBit (ClearKernelLockBit m rte) obj = GetDirtyBit m obj"
  using assms by (auto simp: step_frame_defs apart_def intro!: dirty_bit.get_local)

lemma entry_outside_object:
  assumes "same_outside obj (obj + len) m m'" "apart rte 12 obj len"
  shows "GetAppLockCounter m' rte = GetAppLockCounter m rte" "GetObjectAddress m' rte = GetObjectAddress m rte"
    "GetNumPages m' rte = GetNumPages m rte" "GetKernelLockBit m' rte = GetKernelLockBit m rte"
proof -
  have *: "rte \<le> x \<Longrightarrow> x < rte + 12 \<Longrightarrow> m' x = m x" for x
    using assms by (auto simp: same_outside_def apart_def)
  show "GetAppLockCounter m' rte = GetAppLockCounter m rte" by (simp add: GetAppLockCounter_def *)
  show "GetKernelLockBit m' rte = GetKernelLockBit m rte" by (rule kernel_lock.get_local) (simp add: *)
  show "GetObjectAddress m' rte = GetObjectAddress m rte" "GetNumPages m' rte = GetNumPages m rte"
    using entry_address_frame [of rte m' m] * by auto
qed

lemma unlock_counter [simp]:
  "GetAppLockCounter (UnlockFromAppThread m e) e = GetAppLockCounter m e - 1"
  "GetAppLockCounter (IncrAppLockCounter m e) e = GetAppLockCounter m e + 1"
  "GetKernelLockBit (UnlockFromAppThread m e) e = GetKernelLockBit m e"
  by (simp_all add: UnlockFromAppThread_def DecrAppLockCounter_def IncrAppLockCounter_def
      GetAppLockCounter_def entry_bit_defs)

lemma lock_inv_init: "lock_init rte obj len c \<Longrightarrow> lock_inv rte obj len c"
proof -
  assume i: "lock_init rte obj len c"
  then have "num_incremented (apps c) = 0"
    by (auto simp: lock_init_def num_incremented_def incremented_def filter_empty_conv)
  then show ?thesis using i by (simp add: lock_init_def lock_inv_def)
qed

lemma holder_excludes:
  "lock_inv rte obj len c \<Longrightarrow> i < length (apps c) \<Longrightarrow> apps c ! i = AHold \<Longrightarrow> cut_off c = 0 \<Longrightarrow>
     \<not> past_counter (reclaimer c) \<and> \<not> past_dirty (reclaimer c)"
  using pc_order(2) nth_mem unfolding lock_inv_def by metis

lemma unlocked_excludes:
  "lock_inv rte obj len c \<Longrightarrow> \<not> GetKernelLockBit (shared c) rte \<Longrightarrow>
     \<not> holds_lock_bit (reclaimer c) \<and> \<not> past_counter (reclaimer c) \<and> \<not> past_dirty (reclaimer c)"
  using pc_order unfolding lock_inv_def by metis

lemma lock_step_length: "lock_step rte obj len c c' \<Longrightarrow> length (apps c') = length (apps c)"
  by (cases rule: lock_step.cases) auto

lemma check_next:
  "past_counter (case next_check k of Some k' \<Rightarrow> RSecond k' | None \<Rightarrow> RMadvise) \<longleftrightarrow> k \<noteq> ChkOccupied"
  "past_dirty (case next_check k of Some k' \<Rightarrow> RSecond k' | None \<Rightarrow> RMadvise) \<longleftrightarrow> k = ChkDirty \<or> k = ChkCold"
  "holds_lock_bit (case next_check k of Some k' \<Rightarrow> RSecond k' | None \<Rightarrow> RMadvise)"
  "\<not> past_counter (case next_check k of Some k' \<Rightarrow> RFirst k' | None \<Rightarrow> RSetLock)"
  "\<not> past_dirty (case next_check k of Some k' \<Rightarrow> RFirst k' | None \<Rightarrow> RSetLock)"
  "\<not> holds_lock_bit (case next_check k of Some k' \<Rightarrow> RFirst k' | None \<Rightarrow> RSetLock)"
  by (cases k; simp)+

lemma lock_inv_unlock_all:
  assumes "lock_inv rte obj len c" "reclaimer c = RNext"
  shows "lock_inv rte obj len (c\<lparr>shared := ZeroAppLockCounter (shared c) rte, cut_off := num_incremented (apps c)\<rparr>)"
proof -
  have "GetAppLockCounter (ZeroAppLockCounter m rte) rte = 0" for m
    by (simp add: GetAppLockCounter_def ZeroAppLockCounter_def)
  moreover have "GetObjectAddress (ZeroAppLockCounter m rte) rte = GetObjectAddress m rte \<and>
      GetNumPages (ZeroAppLockCounter m rte) rte = GetNumPages m rte" for m
    by (rule entry_address_frame) (simp add: ZeroAppLockCounter_def)
  ultimately show ?thesis using assms by (simp add: lock_inv_def)
qed

lemma lock_inv_app_step:
  assumes "lock_step rte obj len c c'" "lock_inv rte obj len c" "apps c' \<noteq> apps c \<or> reclaimer c' = reclaimer c"
  shows "lock_inv rte obj len c'"
  using assms(1)
proof (cases rule: lock_step.cases)
  case (app_first i)
  then show ?thesis using assms(2)
    by (auto simp: lock_inv_def num_incremented_update_word incremented_def hold_update)
next
  case (app_second i)
  then show ?thesis using assms(2) unlocked_excludes [OF assms(2)]
    by (auto simp: lock_inv_def num_incremented_update_word incremented_def)
next
  case (app_access i m')
  then show ?thesis using assms(2) holder_excludes [OF assms(2)] entry_outside_object
    by (auto simp: lock_inv_def)
next
  case unlock_all
  then show ?thesis using lock_inv_unlock_all [OF assms(2)] by blast
qed (use assms(2,3) holder_excludes [OF assms(2)] in
      \<open>auto simp: lock_inv_def num_incremented_update_word incremented_def hold_update dirty_steps\<close>)

lemma lock_inv_reclaimer_step:
  assumes "lock_step rte obj len c c'" and inv: "lock_inv rte obj len c" and threads: "length (apps c) < 256"
    and "reclaimer c' \<noteq> reclaimer c"
  shows "lock_inv rte obj len c'"
  using assms(1)
proof (cases rule: lock_step.cases)
  case (rec_first k)
  then show ?thesis using inv by (auto simp: lock_inv_def check_next)
next
  case (rec_lock)
  then show ?thesis using inv by (auto simp: lock_inv_def kernel_lock.get_set)
next
  case (rec_second k)
  have "k = ChkCounter \<Longrightarrow> check_passes (shared c) rte k \<Longrightarrow> cut_off c = 0 \<Longrightarrow> AHold \<notin> set (apps c)"
    using inv threads no_incremented by (auto simp: lock_inv_def)
  then show ?thesis using inv rec_second by (cases k) (auto simp: lock_inv_def)
next
  case (rec_madvise)
  have "same_outside obj (obj + len) (shared c) (shared c')"
    using inv rec_madvise same_outside_write [of obj "replicate len 0" "shared c"]
    by (simp add: lock_inv_def zero_bytes_def)
  then show ?thesis
    using inv rec_madvise entry_outside_object [of obj len "shared c" "shared c'" rte]
    by (simp add: lock_inv_def)
qed (use assms(4) inv in \<open>auto simp: lock_inv_def\<close>)

lemma lock_inv_step:
  "lock_step rte obj len c c' \<Longrightarrow> lock_inv rte obj len c \<Longrightarrow> length (apps c) < 256 \<Longrightarrow> lock_inv rte obj len c'"
  using lock_inv_app_step lock_inv_reclaimer_step by blast

lemma lock_inv_reach:
  "(lock_step rte obj len)\<^sup>*\<^sup>* c c' \<Longrightarrow> lock_inv rte obj len c \<Longrightarrow> length (apps c) < 256 \<Longrightarrow>
     lock_inv rte obj len c' \<and> length (apps c') < 256"
  by (induction rule: rtranclp_induct) (auto dest: lock_inv_step lock_step_length)

text \<open>Left alone with an entry that passes every check, the reclaimer gets through to dropping the
  pages.\<close>

lemma reclaimer_first_round:
  assumes "\<And>k. check_passes (shared c) rte k"
  shows "(lock_step rte obj len)\<^sup>*\<^sup>* (c\<lparr>reclaimer := RFirst ChkOccupied\<rparr>) (c\<lparr>reclaimer := RSetLock\<rparr>)"
proof -
  let ?c = "\<lambda>r. c\<lparr>reclaimer := r\<rparr>"
  have "lock_step rte obj len (?c (RFirst k))
          (?c (case next_check k of Some k' \<Rightarrow> RFirst k' | None \<Rightarrow> RSetLock))" for k
    using rec_first [of "?c (RFirst k)" k rte obj len] assms [of k] by simp
  note step = this
  show ?thesis
    using step [of ChkOccupied, simplified] step [of ChkCounter, simplified] step [of ChkResident, simplified]
      step [of ChkDirty, simplified] step [of ChkCold, simplified]
    by (meson converse_rtranclp_into_rtranclp rtranclp.rtrancl_refl)
qed

lemma reclaimer_second_round:
  assumes "\<And>k. check_passes (shared c) rte k"
  shows "(lock_step rte obj len)\<^sup>*\<^sup>* (c\<lparr>reclaimer := RSecond ChkOccupied\<rparr>) (c\<lparr>reclaimer := RMadvise\<rparr>)"
proof -
  let ?c = "\<lambda>r. c\<lparr>reclaimer := r\<rparr>"
  have "lock_step rte obj len (?c (RSecond k))
          (?c (case next_check k of Some k' \<Rightarrow> RSecond k' | None \<Rightarrow> RMadvise))" for k
    using rec_second [of "?c (RSecond k)" k rte obj len] assms [of k] by simp
  note step = this
  show ?thesis
    using step [of ChkOccupied, simplified] step [of ChkCounter, simplified] step [of ChkResident, simplified]
      step [of ChkDirty, simplified] step [of ChkCold, simplified]
    by (meson converse_rtranclp_into_rtranclp rtranclp.rtrancl_refl)
qed

lemma reclaimer_reaches_madvise:
  assumes "reclaimer c = RNext" and p: "\<And>k. check_passes (shared c) rte k"
    and q: "\<And>k. check_passes (SetKernelLockBit (shared c) rte) rte k"
  shows "(lock_step rte obj len)\<^sup>*\<^sup>* c (c\<lparr>shared := SetKernelLockBit (shared c) rte, reclaimer := RMadvise\<rparr>)"
proof -
  let ?d = "c\<lparr>shared := SetKernelLockBit (shared c) rte\<rparr>"
  have "lock_step rte obj len c (c\<lparr>reclaimer := RFirst ChkOccupied\<rparr>)" using assms(1) by (rule rec_start)
  moreover have "lock_step rte obj len (c\<lparr>reclaimer := RSetLock\<rparr>) (?d\<lparr>reclaimer := RSecond ChkOccupied\<rparr>)"
    using rec_lock [of "c\<lparr>reclaimer := RSetLock\<rparr>" rte obj len] by simp
  ultimately show ?thesis
    using reclaimer_first_round [of c rte obj len, OF p] reclaimer_second_round [of ?d rte obj len] q
    by simp
qed

text \<open>Left alone with an unlocked entry, an access gets to hold it.\<close>

lemma access_enters:
  assumes "lock_init rte obj len c" "i < length (apps c)" "\<not> GetKernelLockBit (shared c) rte"
  shows "(lock_step rte obj len)\<^sup>*\<^sup>* c
           (c\<lparr>shared := IncrAppLockCounter (shared c) rte, apps := (apps c)[i := AHold]\<rparr>)"
proof -
  let ?at = "\<lambda>a. c\<lparr>apps := (apps c)[i := a]\<rparr>"
  let ?in = "\<lambda>a. c\<lparr>shared := IncrAppLockCounter (shared c) rte, apps := (apps c)[i := a]\<rparr>"
  have "apps c ! i = AIdle" using assms(1,2) by (auto simp: lock_init_def)
  then have "lock_step rte obj len c (?at ASpinFirst)"
    using assms(2) by (intro app_start) auto
  moreover have "lock_step rte obj len (?at ASpinFirst) (?at AIncr)"
    using app_first [of i "?at ASpinFirst" rte obj len] assms(2,3) by simp
  moreover have "lock_step rte obj len (?at AIncr) (?in ASpinSecond)"
    using app_incr [of i "?at AIncr" rte obj len] assms(2) by simp
  moreover have "lock_step rte obj len (?in ASpinSecond) (?in AHold)"
    using app_second [of i "?in ASpinSecond" rte obj len] assms(2,3) by simp
  ultimately have "(lock_step rte obj len)\<^sup>*\<^sup>* c (?in AHold)"
    by (meson converse_rtranclp_into_rtranclp rtranclp.rtrancl_refl)
  then show ?thesis by simp
qed

section \<open>Properties of the protocol\<close>


text \<open>The entry at 4096 of a page-sized, clean, cold object at 8192.\<close>

definition demo_conf :: lock_conf where
  "demo_conf =
     \<lparr>shared = (\<lambda>_. 0)(4096 := 5, 4098 := 1, 4101 := 32), reclaimer = RNext, apps = [AIdle, AIdle], cut_off = 0\<rparr>"

lemma demo_conf_fields:
  "GetObjectAddress (shared demo_conf) 4096 = 8192" "GetNumPages (shared demo_conf) 4096 = 1"
  by (simp_all add: demo_conf_def GetObjectAddress_def GetNumPages_def load_eval)

lemma demo_conf_init: "lock_init 4096 8192 4096 demo_conf"
  by (auto simp: lock_init_def demo_conf_fields kPageSize_def apart_def)
     (simp_all add: demo_conf_def GetAppLockCounter_def)

lemma demo_conf_checks:
  "check_passes (shared demo_conf) 4096 k"
  "check_passes (SetKernelLockBit (shared demo_conf) 4096) 4096 k"
  by (cases k; simp add: demo_conf_fields; simp add: demo_conf_def entry_bit_defs GetAppLockCounter_def
      GetDirtyBit_def objectIsCold_def GetWriteShiftRegister_def GetBits8_def GetWriteBit_def bit_simps)+


text \<open>The condition of the exclusion is needed: while an access holds the entry of a clean, cold,
  resident object, \<^verbatim>\<open>UnlockAllEntries\<close> followed by the reclaimer, the order in which the heap runs
  them, leads to a state where the reclaimer is about to drop the pages of the object that is still
  held.\<close>

lemma unlock_all_exposes_holder:
  assumes "lock_init rte obj len c" "i < length (apps c)" "\<not> GetKernelLockBit (shared c) rte"
    "\<And>k. check_passes (shared c) rte k" "\<And>k. check_passes (SetKernelLockBit (shared c) rte) rte k"
  shows "\<exists>c'. (lock_step rte obj len)\<^sup>*\<^sup>* c c' \<and> reclaimer c' = RMadvise \<and> apps c' ! i = AHold"
proof -
  let ?held = "c\<lparr>shared := IncrAppLockCounter (shared c) rte, apps := (apps c)[i := AHold]\<rparr>"
  let ?zeroed = "c\<lparr>apps := (apps c)[i := AHold], cut_off := num_incremented ((apps c)[i := AHold])\<rparr>"
  have "ZeroAppLockCounter (IncrAppLockCounter (shared c) rte) rte = shared c"
    using assms(1)
    by (auto simp: lock_init_def ZeroAppLockCounter_def IncrAppLockCounter_def GetAppLockCounter_def fun_upd_idem)
  moreover have "GetOccupiedBit (IncrAppLockCounter (shared c) rte) rte"
    using assms(4) [of ChkOccupied] by (auto simp: IncrAppLockCounter_def intro: occupied.get_local [THEN iffD1, rotated])
  ultimately have "lock_step rte obj len ?held ?zeroed"
    using unlock_all [of ?held rte obj len] assms(1) by (simp add: lock_init_def)
  with access_enters [OF assms(1-3)]
  have "(lock_step rte obj len)\<^sup>*\<^sup>* c ?zeroed" by (rule rtranclp.rtrancl_into_rtrancl)
  also have "(lock_step rte obj len)\<^sup>*\<^sup>* ?zeroed
      (?zeroed\<lparr>shared := SetKernelLockBit (shared ?zeroed) rte, reclaimer := RMadvise\<rparr>)"
    by (rule reclaimer_reaches_madvise) (use assms(1,4,5) in \<open>simp_all add: lock_init_def\<close>)
  finally have "(lock_step rte obj len)\<^sup>*\<^sup>* c
      (?zeroed\<lparr>shared := SetKernelLockBit (shared ?zeroed) rte, reclaimer := RMadvise\<rparr>)" .
  moreover have "reclaimer (?zeroed\<lparr>shared := SetKernelLockBit (shared ?zeroed) rte, reclaimer := RMadvise\<rparr>) = RMadvise"
    by simp
  moreover have "apps (?zeroed\<lparr>shared := SetKernelLockBit (shared ?zeroed) rte, reclaimer := RMadvise\<rparr>) ! i = AHold"
    using assms(2) by simp
  ultimately show ?thesis by blast
qed

lemma unlock_all_exposes_holder_witness:
  "\<exists>c'. (lock_step 4096 8192 4096)\<^sup>*\<^sup>* demo_conf c' \<and> reclaimer c' = RMadvise \<and> apps c' ! 1 = AHold"
  by (rule unlock_all_exposes_holder [OF demo_conf_init])
     (simp_all add: demo_conf_checks, simp_all add: demo_conf_def entry_bit_defs bit_simps)

end
