(* ===== verification/Free_List_Space.thy ===== *)
theory Free_List_Space
  imports Lock_Protocol "HOL-Library.Sublist"
begin

text \<open>
  \<^verbatim>\<open>FreeListSpace\<close> (src/runtime/gc/space/large\_object\_space.cc and .h), the page-granular best-fit
  allocator that Marvin uses for the space that holds swapped-in objects. The side table
  \<open>allocation_info_\<close> has one record per page slot; a pointer into it is the slot's index. The ordered
  set \<open>free_blocks_\<close> is the list of its elements in the order of the tree, compared with
  \<^verbatim>\<open>SortByPrevFree\<close> on the current contents of the table, as the code does.

  The abstraction is the sequence of blocks, free or allocated, from the first slot to the start
  of the free region at the end. The instrumentation hooks and the debug-build page protection are
  left out; the call of \<^verbatim>\<open>GcRecordFree\<close> at the head of \<^verbatim>\<open>Free\<close> is in the theory
  \<^verbatim>\<open>Swap_Stubs\<close> (\<open>swappedIn_Free\<close>), whose state it changes: for an object of the swapped-in space, the only space
  of this kind, it returns at once.
\<close>

section \<open>Allocation infos\<close>

definition kAlignment :: nat where "kAlignment = kPageSize"

definition kFlagFree :: "32 word" where "kFlagFree = 0x80000000"
definition kFlagZygote :: "32 word" where "kFlagZygote = 0x40000000"
definition kFlagsMask :: "32 word" where "kFlagsMask = NOT (kFlagFree OR kFlagZygote)"

record AllocationInfo =
  prev_free :: "32 word"
  alloc_size :: "32 word"

definition new_AllocationInfo :: AllocationInfo where
  "new_AllocationInfo = \<lparr>prev_free = 0, alloc_size = 0\<rparr>"

definition AlignSize :: "AllocationInfo \<Rightarrow> nat" where
  "AlignSize i = unat (alloc_size i AND kFlagsMask)"

definition ByteSize :: "AllocationInfo \<Rightarrow> nat" where
  "ByteSize i = AlignSize i * kAlignment"

definition SetByteSize :: "nat \<Rightarrow> bool \<Rightarrow> AllocationInfo \<Rightarrow> AllocationInfo" where
  "SetByteSize size' free i =
     i\<lparr>alloc_size := of_nat (size' div kAlignment) OR (if free then kFlagFree else 0)\<rparr>"

definition IsFree :: "AllocationInfo \<Rightarrow> bool" where
  "IsFree i \<longleftrightarrow> alloc_size i AND kFlagFree \<noteq> 0"

definition IsZygoteObject :: "AllocationInfo \<Rightarrow> bool" where
  "IsZygoteObject i \<longleftrightarrow> alloc_size i AND kFlagZygote \<noteq> 0"

definition SetZygoteObject :: "AllocationInfo \<Rightarrow> AllocationInfo" where
  "SetZygoteObject i = i\<lparr>alloc_size := alloc_size i OR kFlagZygote\<rparr>"

definition GetPrevFree :: "AllocationInfo \<Rightarrow> nat" where
  "GetPrevFree i = unat (prev_free i)"

definition GetPrevFreeBytes :: "AllocationInfo \<Rightarrow> nat" where
  "GetPrevFreeBytes i = GetPrevFree i * kAlignment"

definition SetPrevFreeBytes :: "nat \<Rightarrow> AllocationInfo \<Rightarrow> AllocationInfo" where
  "SetPrevFreeBytes bytes i = i\<lparr>prev_free := of_nat (bytes div kAlignment)\<rparr>"

type_synonym infos = "nat \<Rightarrow> AllocationInfo"

text \<open>The next info of slot \<open>s\<close>, and the previous free one.\<close>

definition GetNextInfo :: "infos \<Rightarrow> nat \<Rightarrow> nat" where
  "GetNextInfo tab s = s + AlignSize (tab s)"

definition GetPrevFreeInfo :: "infos \<Rightarrow> nat \<Rightarrow> nat" where
  "GetPrevFreeInfo tab s = s - GetPrevFree (tab s)"

section \<open>The space\<close>

record FreeListSpace =
  space_begin :: addr
  space_end :: addr
  allocation_info :: addr
  infos :: infos
  free_end :: nat
  free_blocks :: "nat list"
  num_bytes_allocated :: nat
  num_objects_allocated :: nat
  total_bytes_allocated :: nat
  total_objects_allocated :: nat

text \<open>An info together with its address in memory: a record of the side table is 8 bytes.\<close>

definition info_at :: "FreeListSpace \<Rightarrow> infos \<Rightarrow> nat \<Rightarrow> AllocationInfo \<times> addr" where
  "info_at sp tab s = (tab s, allocation_info sp + s * 8)"

fun SortByPrevFree :: "AllocationInfo \<times> addr \<Rightarrow> AllocationInfo \<times> addr \<Rightarrow> bool" where
  "SortByPrevFree (a, pa) (b, pb) =
     (if GetPrevFree a < GetPrevFree b then True
      else if GetPrevFree a > GetPrevFree b then False
      else if AlignSize a < AlignSize b then True
      else if AlignSize a > AlignSize b then False
      else pa < pb)"

text \<open>\<^verbatim>\<open>std::set\<close> with that comparator: \<open>lower_bound\<close> is the first element not before the key,
  \<open>insert\<close> puts a new element there.\<close>

definition fb_lower_bound :: "FreeListSpace \<Rightarrow> AllocationInfo \<times> addr \<Rightarrow> nat option" where
  "fb_lower_bound sp k = List.find (\<lambda>y. \<not> SortByPrevFree (info_at sp (infos sp) y) k) (free_blocks sp)"

definition fb_insert :: "nat \<Rightarrow> FreeListSpace \<Rightarrow> FreeListSpace" where
  "fb_insert x sp =
     (let before = \<lambda>y. SortByPrevFree (info_at sp (infos sp) y) (info_at sp (infos sp) x);
          rest = dropWhile before (free_blocks sp)
      in case rest of
           [] \<Rightarrow> sp\<lparr>free_blocks := free_blocks sp @ [x]\<rparr>
         | y # _ \<Rightarrow>
             if \<not> SortByPrevFree (info_at sp (infos sp) x) (info_at sp (infos sp) y) then sp
             else sp\<lparr>free_blocks := takeWhile before (free_blocks sp) @ x # rest\<rparr>)"

definition fb_erase :: "nat \<Rightarrow> FreeListSpace \<Rightarrow> FreeListSpace" where
  "fb_erase x sp = sp\<lparr>free_blocks := remove1 x (free_blocks sp)\<rparr>"

definition upd_info :: "nat \<Rightarrow> (AllocationInfo \<Rightarrow> AllocationInfo) \<Rightarrow> FreeListSpace \<Rightarrow> FreeListSpace" where
  "upd_info s f sp = sp\<lparr>infos := (infos sp)(s := f (infos sp s))\<rparr>"

definition Contains :: "FreeListSpace \<Rightarrow> addr \<Rightarrow> bool" where
  "Contains sp obj \<longleftrightarrow> space_begin sp \<le> obj \<and> obj < space_end sp"

definition GetSlotIndexForAddress :: "FreeListSpace \<Rightarrow> addr \<Rightarrow> nat" where
  "GetSlotIndexForAddress sp address = (address - space_begin sp) div kAlignment"

definition GetAddressForAllocationInfo :: "FreeListSpace \<Rightarrow> nat \<Rightarrow> addr" where
  "GetAddressForAllocationInfo sp slot = space_begin sp + slot * kAlignment"

text \<open>\<^verbatim>\<open>Create\<close> and the constructor: the two mappings are arguments (a zero-filled side table);
  None is a failed CHECK.\<close>

definition FreeListSpace_Create :: "addr option \<Rightarrow> addr option \<Rightarrow> nat \<Rightarrow> FreeListSpace option" where
  "FreeListSpace_Create mem_map info_map size' =
     (if size' mod kAlignment \<noteq> 0 then None
      else case (mem_map, info_map) of
        (Some begin', Some table) \<Rightarrow>
          Some \<lparr>space_begin = begin', space_end = begin' + size', allocation_info = table,
                infos = (\<lambda>_. new_AllocationInfo), free_end = size', free_blocks = [],
                num_bytes_allocated = 0, num_objects_allocated = 0,
                total_bytes_allocated = 0, total_objects_allocated = 0\<rparr>
      | _ \<Rightarrow> None)"

definition RemoveFreePrev :: "nat \<Rightarrow> FreeListSpace \<Rightarrow> FreeListSpace option" where
  "RemoveFreePrev info sp =
     (if GetPrevFree (infos sp info) = 0 then None
      else case fb_lower_bound sp (info_at sp (infos sp) info) of
        None \<Rightarrow> None
      | Some it \<Rightarrow> if it \<noteq> info then None else Some (fb_erase it sp))"

text \<open>\<^verbatim>\<open>Free\<close> in three parts: coalesce with the previous free chunk (giving the info and size of the
  new chunk), then with the next chunk or the free end, then the counters.\<close>

definition Free_coalesce_prev :: "nat \<Rightarrow> nat \<Rightarrow> FreeListSpace \<Rightarrow> (nat \<times> nat \<times> FreeListSpace) option" where
  "Free_coalesce_prev info allocation_size sp =
     (let prev_free_bytes = GetPrevFreeBytes (infos sp info) in
      if prev_free_bytes \<noteq> 0 then do {
        sp \<leftarrow> RemoveFreePrev info sp;
        Some (GetPrevFreeInfo (infos sp) info, allocation_size + prev_free_bytes, sp)
      } else Some (info, allocation_size, sp))"

definition Free_coalesce_next :: "nat \<Rightarrow> nat \<Rightarrow> nat \<Rightarrow> FreeListSpace \<Rightarrow> FreeListSpace option" where
  "Free_coalesce_next info next_info new_free_size sp = do {
     let free_end_start = space_end sp - free_end sp;
     let next_addr = GetAddressForAllocationInfo sp next_info;
     if next_addr \<ge> free_end_start then
       (if next_addr \<noteq> free_end_start then None
        else Some (sp\<lparr>free_end := free_end sp + new_free_size\<rparr>))
     else do {
       (new_free_info, new_free_size, sp) \<leftarrow>
         (if IsFree (infos sp next_info) then do {
            let next_next_info = GetNextInfo (infos sp) next_info;
            let new_free_size = new_free_size + GetPrevFreeBytes (infos sp next_next_info);
            sp \<leftarrow> RemoveFreePrev next_next_info sp;
            Some (next_next_info, new_free_size, sp)
          } else Some (next_info, new_free_size, sp));
       let sp = upd_info new_free_info (SetPrevFreeBytes new_free_size) sp;
       let sp = fb_insert new_free_info sp;
       Some (upd_info info (SetByteSize new_free_size True) sp)
     }
   }"

definition FreeListSpace_Free :: "addr \<Rightarrow> FreeListSpace \<Rightarrow> mem \<Rightarrow> (nat \<times> FreeListSpace \<times> mem) option" where
  "FreeListSpace_Free obj sp m = do {
     let info = GetSlotIndexForAddress sp obj;
     let allocation_size = ByteSize (infos sp info);
     let sp = upd_info info (SetByteSize allocation_size True) sp;
     let next_info = GetNextInfo (infos sp) info;
     (info, new_free_size, sp) \<leftarrow> Free_coalesce_prev info allocation_size sp;
     sp \<leftarrow> Free_coalesce_next info next_info new_free_size sp;
     Some (allocation_size,
           sp\<lparr>num_objects_allocated := num_objects_allocated sp - 1,
              num_bytes_allocated := num_bytes_allocated sp - allocation_size\<rparr>,
           zero_bytes m obj allocation_size)
   }"

definition FreeListSpace_AllocationSize :: "addr \<Rightarrow> FreeListSpace \<Rightarrow> nat" where
  "FreeListSpace_AllocationSize obj sp = ByteSize (infos sp (GetSlotIndexForAddress sp obj))"

definition RoundUp :: "nat \<Rightarrow> nat \<Rightarrow> nat" where
  "RoundUp x n = (x + n - 1) div n * n"

text \<open>\<^verbatim>\<open>Alloc\<close> in parts: fitting the object in the free block before \<open>info\<close>, stealing from the free end,
  and the counters and the info of the new block.\<close>

definition Alloc_fit :: "nat \<Rightarrow> nat \<Rightarrow> FreeListSpace \<Rightarrow> nat \<times> FreeListSpace" where
  "Alloc_fit info allocation_size sp =
     (let sp = fb_erase info sp;
          new_info = GetPrevFreeInfo (infos sp) info;
          sp = upd_info info (SetPrevFreeBytes (GetPrevFreeBytes (infos sp info) - allocation_size)) sp;
          sp = (if GetPrevFreeBytes (infos sp info) > 0 then
                  let new_free = info - GetPrevFree (infos sp info);
                      sp = upd_info new_free (SetPrevFreeBytes 0) sp;
                      sp = upd_info new_free (SetByteSize (GetPrevFreeBytes (infos sp info)) True) sp
                  in fb_insert info sp
                else sp)
      in (new_info, sp))"

definition Alloc_end :: "nat \<Rightarrow> FreeListSpace \<Rightarrow> (nat \<times> FreeListSpace) option" where
  "Alloc_end allocation_size sp =
     (if free_end sp \<ge> allocation_size then
        let new_info = GetSlotIndexForAddress sp (space_end sp - free_end sp)
        in Some (new_info, sp\<lparr>free_end := free_end sp - allocation_size\<rparr>)
      else None)"

definition Alloc_finish :: "nat \<Rightarrow> nat \<Rightarrow> FreeListSpace \<Rightarrow> addr \<times> nat \<times> FreeListSpace" where
  "Alloc_finish new_info allocation_size sp =
     (let sp = sp\<lparr>num_objects_allocated := num_objects_allocated sp + 1,
                  total_objects_allocated := total_objects_allocated sp + 1,
                  num_bytes_allocated := num_bytes_allocated sp + allocation_size,
                  total_bytes_allocated := total_bytes_allocated sp + allocation_size\<rparr>;
          obj = GetAddressForAllocationInfo sp new_info;
          sp = upd_info new_info (SetPrevFreeBytes 0) sp;
          sp = upd_info new_info (SetByteSize allocation_size False) sp
      in (obj, allocation_size, sp))"

text \<open>\<open>temp\<close> is the stack address of the local info used as the search key. The result is the object
  address and the allocation size, or the null pointer.\<close>

definition FreeListSpace_Alloc :: "addr \<Rightarrow> nat \<Rightarrow> FreeListSpace \<Rightarrow> addr \<times> nat \<times> FreeListSpace" where
  "FreeListSpace_Alloc temp num_bytes sp =
     (let allocation_size = RoundUp num_bytes kAlignment;
          temp_info = SetByteSize 0 False (SetPrevFreeBytes allocation_size new_AllocationInfo)
      in case fb_lower_bound sp (temp_info, temp) of
           Some info \<Rightarrow>
             let (new_info, sp) = Alloc_fit info allocation_size sp
             in Alloc_finish new_info allocation_size sp
         | None \<Rightarrow>
             (case Alloc_end allocation_size sp of
                Some (new_info, sp) \<Rightarrow> Alloc_finish new_info allocation_size sp
              | None \<Rightarrow> (0, 0, sp)))"

text \<open>\<^verbatim>\<open>Walk\<close> from slot \<open>cur\<close>, with the list of callback arguments (begin and end of each allocated
  block) as its result. A zero-sized info would make the loop run forever: None.\<close>

partial_function (option) Walk_from :: "FreeListSpace \<Rightarrow> nat \<Rightarrow> nat \<Rightarrow> (nat \<times> (addr \<times> addr) list) option" where
  "Walk_from sp cur end_info =
     (if cur < end_info then do {
        (last_info, calls) \<leftarrow> Walk_from sp (GetNextInfo (infos sp) cur) end_info;
        Some (last_info,
              if \<not> IsFree (infos sp cur) then
                (let byte_start = GetAddressForAllocationInfo sp cur
                 in (byte_start, byte_start + ByteSize (infos sp cur)) # calls)
              else calls)
      } else Some (cur, []))"

definition FreeListSpace_Walk :: "FreeListSpace \<Rightarrow> (addr \<times> addr) list option" where
  "FreeListSpace_Walk sp = do {
     let end_info = GetSlotIndexForAddress sp (space_end sp - free_end sp);
     (cur, calls) \<leftarrow> Walk_from sp 0 end_info;
     if cur = end_info then Some calls else None
   }"

definition IsZygoteLargeObject :: "addr \<Rightarrow> FreeListSpace \<Rightarrow> bool" where
  "IsZygoteLargeObject obj sp = IsZygoteObject (infos sp (GetSlotIndexForAddress sp obj))"

partial_function (option) SetZygote_from :: "FreeListSpace \<Rightarrow> nat \<Rightarrow> nat \<Rightarrow> FreeListSpace option" where
  "SetZygote_from sp cur end_info =
     (if cur < end_info then
        let sp = (if \<not> IsFree (infos sp cur) then upd_info cur SetZygoteObject sp else sp)
        in SetZygote_from sp (GetNextInfo (infos sp) cur) end_info
      else Some sp)"

definition SetAllLargeObjectsAsZygoteObjects :: "FreeListSpace \<Rightarrow> FreeListSpace option" where
  "SetAllLargeObjectsAsZygoteObjects sp =
     SetZygote_from sp 0 (GetSlotIndexForAddress sp (space_end sp - free_end sp))"

section \<open>The abstraction: a sequence of blocks\<close>

text \<open>A block is free or allocated and has a size in slots.\<close>

type_synonym block = "bool \<times> nat"

definition total_size :: "block list \<Rightarrow> nat" where
  "total_size bs = sum_list (map snd bs)"

text \<open>\<open>reps tab s p bs\<close>: from slot \<open>s\<close> on the side table describes the blocks \<open>bs\<close>, the free block
  before \<open>s\<close> having size \<open>p\<close> (0 for none). Free blocks never touch.\<close>

fun reps :: "infos \<Rightarrow> nat \<Rightarrow> nat \<Rightarrow> block list \<Rightarrow> bool" where
  "reps tab s p [] = True"
| "reps tab s p ((f, n) # bs) =
     (0 < n \<and> AlignSize (tab s) = n \<and> IsFree (tab s) = f \<and> GetPrevFree (tab s) = p \<and> (f \<longrightarrow> p = 0) \<and>
      reps tab (s + n) (if f then n else 0) bs)"

fun prev_after :: "nat \<Rightarrow> block list \<Rightarrow> nat" where
  "prev_after p [] = p"
| "prev_after p ((f, n) # bs) = prev_after (if f then n else 0) bs"

text \<open>The allocated slots preceded by a free block: what \<open>free_blocks_\<close> holds.\<close>

fun after_free :: "nat \<Rightarrow> nat \<Rightarrow> block list \<Rightarrow> nat set" where
  "after_free s p [] = {}"
| "after_free s p ((f, n) # bs) =
     (if 0 < p \<and> \<not> f then {s} else {}) \<union> after_free (s + n) (if f then n else 0) bs"

text \<open>The allocated blocks, as slot and size.\<close>

fun allocated :: "nat \<Rightarrow> block list \<Rightarrow> (nat \<times> nat) list" where
  "allocated s [] = []"
| "allocated s ((f, n) # bs) = (if f then [] else [(s, n)]) @ allocated (s + n) bs"

text \<open>The free blocks before the free end, as slot and size.\<close>

fun vacant :: "nat \<Rightarrow> block list \<Rightarrow> (nat \<times> nat) list" where
  "vacant s [] = []"
| "vacant s ((f, n) # bs) = (if f then [(s, n)] else []) @ vacant (s + n) bs"

definition fb_less :: "FreeListSpace \<Rightarrow> infos \<Rightarrow> nat \<Rightarrow> nat \<Rightarrow> bool" where
  "fb_less sp tab x y = SortByPrevFree (info_at sp tab x) (info_at sp tab y)"

definition space_rep :: "FreeListSpace \<Rightarrow> block list \<Rightarrow> bool" where
  "space_rep sp bs \<longleftrightarrow>
     space_end sp = space_begin sp + total_size bs * kAlignment + free_end sp \<and>
     free_end sp mod kAlignment = 0 \<and> total_size bs * kAlignment + free_end sp < 2 ^ 30 * kAlignment \<and>
     0 < space_begin sp \<and>
     reps (infos sp) 0 0 bs \<and> prev_after 0 bs = 0 \<and>
     sorted_wrt (fb_less sp (infos sp)) (free_blocks sp) \<and>
     set (free_blocks sp) = after_free 0 0 bs \<and>
     num_objects_allocated sp = length (allocated 0 bs) \<and>
     num_bytes_allocated sp = sum_list (map snd (allocated 0 bs)) * kAlignment"

definition space_inv :: "FreeListSpace \<Rightarrow> bool" where
  "space_inv sp \<longleftrightarrow> (\<exists>bs. space_rep sp bs)"

section \<open>Fields of an info\<close>

lemma kAlignment_pos [simp]: "0 < kAlignment" "kAlignment \<noteq> 0"
  by (simp_all add: kAlignment_def kPageSize_def)

lemma and_flags_mask: "w AND kFlagsMask = take_bit 30 w"
proof -
  have "kFlagsMask = mask 30"
    unfolding kFlagsMask_def kFlagFree_def kFlagZygote_def by (simp add: mask_eq_exp_minus_1)
  then show ?thesis by (simp add: take_bit_eq_mask)
qed

lemma bit_kFlagFree: "bit kFlagFree k \<longleftrightarrow> k = 31"
  using bit_exp_iff [of 31 k, where 'a = "32 word"] by (auto simp: kFlagFree_def)

lemma bit_kFlagZygote: "bit kFlagZygote k \<longleftrightarrow> k = 30"
  using bit_exp_iff [of 30 k, where 'a = "32 word"] by (auto simp: kFlagZygote_def)

lemma flag_free_iff: "w AND kFlagFree \<noteq> 0 \<longleftrightarrow> bit w 31"
proof
  assume "w AND kFlagFree \<noteq> 0"
  then obtain k where "bit (w AND kFlagFree) k" by (blast dest: word_nonzero_bit)
  then show "bit w 31" by (auto simp: bit_and_iff bit_kFlagFree)
next
  assume "bit w 31"
  then have "bit (w AND kFlagFree) 31" by (simp add: bit_and_iff bit_kFlagFree)
  then show "w AND kFlagFree \<noteq> 0" by auto
qed

lemma small_of_nat:
  assumes "n < 2 ^ 30"
  shows "\<not> bit (of_nat n :: 32 word) 31" "unat (take_bit 30 (of_nat n :: 32 word)) = n"
proof -
  show "\<not> bit (of_nat n :: 32 word) 31"
    using assms by (simp add: bit_simps) (simp add: bit_iff_odd)
  show "unat (take_bit 30 (of_nat n :: 32 word)) = n"
    using assms by (simp add: unsigned_take_bit_eq unsigned_of_nat take_bit_nat_eq_self)
qed

lemma AlignSize_SetByteSize [simp]: "n < 2 ^ 30 \<Longrightarrow> AlignSize (SetByteSize (n * kAlignment) f i) = n"
proof -
  have "take_bit 30 kFlagFree = 0" by (simp add: kFlagFree_def)
  then show "n < 2 ^ 30 \<Longrightarrow> ?thesis"
    using small_of_nat by (simp add: AlignSize_def SetByteSize_def and_flags_mask take_bit_or)
qed

lemma IsFree_SetByteSize [simp]: "n < 2 ^ 30 \<Longrightarrow> IsFree (SetByteSize (n * kAlignment) f i) = f"
  using small_of_nat [of n] by (simp add: IsFree_def SetByteSize_def flag_free_iff bit_or_iff bit_kFlagFree)

lemma GetPrevFree_SetPrevFree [simp]: "n < 2 ^ 30 \<Longrightarrow> GetPrevFree (SetPrevFreeBytes (n * kAlignment) i) = n"
  by (simp add: GetPrevFree_def SetPrevFreeBytes_def unat_of_nat)

lemma info_fields_apart [simp]:
  "GetPrevFree (SetByteSize b f i) = GetPrevFree i"
  "AlignSize (SetPrevFreeBytes b i) = AlignSize i"
  "IsFree (SetPrevFreeBytes b i) = IsFree i"
  "GetPrevFree (SetPrevFreeBytes 0 i) = 0"
  "AlignSize (SetZygoteObject i) = AlignSize i"
  "IsFree (SetZygoteObject i) = IsFree i"
  "GetPrevFree (SetZygoteObject i) = GetPrevFree i"
  by (simp_all add: GetPrevFree_def SetByteSize_def AlignSize_def SetPrevFreeBytes_def IsFree_def
      SetZygoteObject_def and_flags_mask flag_free_iff take_bit_or bit_or_iff bit_kFlagZygote)
     (simp_all add: kFlagZygote_def)

section \<open>The ordered set of free blocks\<close>

lemma SortByPrevFree_iff:
  "SortByPrevFree a b \<longleftrightarrow>
     GetPrevFree (fst a) < GetPrevFree (fst b) \<or>
     GetPrevFree (fst a) = GetPrevFree (fst b) \<and>
       (AlignSize (fst a) < AlignSize (fst b) \<or> AlignSize (fst a) = AlignSize (fst b) \<and> snd a < snd b)"
  by (cases a; cases b) auto

declare SortByPrevFree.simps [simp del]

lemma SortByPrevFree_irrefl: "\<not> SortByPrevFree a a"
  by (simp add: SortByPrevFree_iff)

lemma SortByPrevFree_trans: "SortByPrevFree a b \<Longrightarrow> SortByPrevFree b c \<Longrightarrow> SortByPrevFree a c"
  unfolding SortByPrevFree_iff by linarith

lemma SortByPrevFree_total: "snd a \<noteq> snd b \<Longrightarrow> SortByPrevFree a b \<or> SortByPrevFree b a"
  unfolding SortByPrevFree_iff by linarith

lemma fb_less_order:
  "\<not> fb_less sp tab x x"
  "fb_less sp tab x y \<Longrightarrow> fb_less sp tab y z \<Longrightarrow> fb_less sp tab x z"
  "x \<noteq> y \<Longrightarrow> fb_less sp tab x y \<or> fb_less sp tab y x"
proof -
  show "\<not> fb_less sp tab x x" by (simp add: fb_less_def SortByPrevFree_irrefl)
  show "fb_less sp tab x y \<Longrightarrow> fb_less sp tab y z \<Longrightarrow> fb_less sp tab x z"
    unfolding fb_less_def by (rule SortByPrevFree_trans)
  show "x \<noteq> y \<Longrightarrow> fb_less sp tab x y \<or> fb_less sp tab y x"
    unfolding fb_less_def by (rule SortByPrevFree_total) (simp add: info_at_def)
qed

text \<open>A sorted list under any strict order: searching, inserting and erasing.\<close>

lemma sorted_find:
  "sorted_wrt L xs \<Longrightarrow> x \<in> set xs \<Longrightarrow> (\<And>y. \<not> L y y) \<Longrightarrow> List.find (\<lambda>y. \<not> L y x) xs = Some x"
  by (induction xs) auto

lemma sorted_remove1: "sorted_wrt L xs \<Longrightarrow> sorted_wrt L (remove1 x xs)"
  by (induction xs) (auto dest: notin_set_remove1 in_set_remove1 [THEN iffD1] set_remove1_subset [THEN subsetD])

lemma sorted_distinct: "sorted_wrt L xs \<Longrightarrow> (\<And>y. \<not> L y y) \<Longrightarrow> distinct xs"
  by (induction xs) auto

lemma sorted_insert:
  assumes "sorted_wrt L xs" "x \<notin> set xs"
    and trans: "\<And>a b c. L a b \<Longrightarrow> L b c \<Longrightarrow> L a c" and total: "\<And>a b. a \<noteq> b \<Longrightarrow> L a b \<or> L b a"
  shows "sorted_wrt L (takeWhile (\<lambda>y. L y x) xs @ x # dropWhile (\<lambda>y. L y x) xs)"
  using assms(1,2)
proof (induction xs)
  case (Cons y ys)
  show ?case
  proof (cases "L y x")
    case True
    have "z \<in> set (takeWhile (\<lambda>y. L y x) ys) \<or> z \<in> set (dropWhile (\<lambda>y. L y x) ys) \<Longrightarrow> L y z" for z
      using Cons.prems by (auto dest: set_takeWhileD set_dropWhileD)
    then show ?thesis using True Cons by auto
  next
    case False
    then have "L x y" using total [of x y] Cons.prems by auto
    then show ?thesis using False Cons.prems by (auto intro: trans)
  qed
qed simp

lemma sorted_wrt_cong_less:
  "sorted_wrt L xs \<Longrightarrow> (\<And>x y. x \<in> set xs \<Longrightarrow> y \<in> set xs \<Longrightarrow> L' x y = L x y) \<Longrightarrow> sorted_wrt L' xs"
  by (induction xs) auto

lemma sorted_upd:
  "sorted_wrt (fb_less sp tab) xs \<Longrightarrow> s \<notin> set xs \<Longrightarrow> sorted_wrt (fb_less sp (tab(s := i))) xs"
  by (erule sorted_wrt_cong_less) (auto simp: fb_less_def info_at_def)

lemma sorted_upd_key:
  "sorted_wrt (fb_less sp tab) xs \<Longrightarrow> GetPrevFree i = GetPrevFree (tab s) \<Longrightarrow> AlignSize i = AlignSize (tab s) \<Longrightarrow>
     sorted_wrt (fb_less sp (tab(s := i))) xs"
  by (erule sorted_wrt_cong_less) (simp add: fb_less_def info_at_def SortByPrevFree_iff)

lemma RemoveFreePrev_eq:
  assumes "sorted_wrt (fb_less sp (infos sp)) (free_blocks sp)" "info \<in> set (free_blocks sp)"
    and "0 < GetPrevFree (infos sp info)"
  shows "RemoveFreePrev info sp = Some (fb_erase info sp)"
  using assms sorted_find [of "fb_less sp (infos sp)" "free_blocks sp" info] fb_less_order(1)
  by (simp add: RemoveFreePrev_def fb_lower_bound_def fb_less_def)

text \<open>The list after inserting \<open>x\<close>.\<close>

definition fb_inserted :: "FreeListSpace \<Rightarrow> nat \<Rightarrow> nat list" where
  "fb_inserted sp x =
     takeWhile (\<lambda>y. fb_less sp (infos sp) y x) (free_blocks sp) @
     x # dropWhile (\<lambda>y. fb_less sp (infos sp) y x) (free_blocks sp)"

lemma fb_insert_eq:
  assumes "x \<notin> set (free_blocks sp)"
  shows "fb_insert x sp = sp\<lparr>free_blocks := fb_inserted sp x\<rparr>"
proof (cases "dropWhile (\<lambda>y. fb_less sp (infos sp) y x) (free_blocks sp)")
  case Nil
  then have "\<forall>y \<in> set (free_blocks sp). fb_less sp (infos sp) y x" by (simp add: dropWhile_eq_Nil_conv)
  then have "takeWhile (\<lambda>y. fb_less sp (infos sp) y x) (free_blocks sp) = free_blocks sp"
    by (simp add: takeWhile_eq_all_conv)
  then show ?thesis
    using Nil by (simp add: fb_insert_def fb_inserted_def fb_less_def [symmetric] Let_def
        del: dropWhile_eq_Nil_conv takeWhile_eq_all_conv)
next
  case (Cons y ys)
  then have "\<not> fb_less sp (infos sp) y x" by (simp add: dropWhile_eq_Cons_conv)
  moreover have "y \<in> set (free_blocks sp)"
    by (rule set_dropWhileD [of y "\<lambda>y. fb_less sp (infos sp) y x"]) (simp add: Cons)
  ultimately have "fb_less sp (infos sp) x y" using fb_less_order(3) [of x y] assms by auto
  then show ?thesis
    using Cons by (simp add: fb_insert_def fb_inserted_def fb_less_def [symmetric] Let_def)
qed

lemma set_fb_inserted: "set (fb_inserted sp x) = insert x (set (free_blocks sp))"
proof -
  let ?P = "\<lambda>y. fb_less sp (infos sp) y x"
  have "set (free_blocks sp) = set (takeWhile ?P (free_blocks sp) @ dropWhile ?P (free_blocks sp))"
    by (simp only: takeWhile_dropWhile_id)
  then show ?thesis by (simp only: fb_inserted_def set_append list.set Un_insert_right)
qed

lemma sorted_fb_inserted:
  "sorted_wrt (fb_less sp (infos sp)) (free_blocks sp) \<Longrightarrow> x \<notin> set (free_blocks sp) \<Longrightarrow>
     sorted_wrt (fb_less sp (infos sp)) (fb_inserted sp x)"
  unfolding fb_inserted_def
  using sorted_insert [where L = "fb_less sp (infos sp)"] fb_less_order(2,3) by metis

section \<open>Block sequences\<close>

lemma total_simps [simp]:
  "total_size [] = 0" "total_size ((f, n) # bs) = n + total_size bs" "total_size (xs @ ys) = total_size xs + total_size ys"
  by (simp_all add: total_size_def)

lemma prev_after_append [simp]: "prev_after p (xs @ ys) = prev_after (prev_after p xs) ys"
  by (induction p xs rule: prev_after.induct) auto

lemma reps_append:
  "reps tab s p (xs @ ys) \<longleftrightarrow> reps tab s p xs \<and> reps tab (s + total_size xs) (prev_after p xs) ys"
  by (induction tab s p xs rule: reps.induct) (auto simp: add.assoc)

lemma after_free_append:
  "after_free s p (xs @ ys) = after_free s p xs \<union> after_free (s + total_size xs) (prev_after p xs) ys"
  by (induction s p xs rule: after_free.induct) (auto simp: add.assoc)

lemma allocated_append [simp]:
  "allocated s (xs @ ys) = allocated s xs @ allocated (s + total_size xs) ys"
  by (induction s xs rule: allocated.induct) (auto simp: add.assoc)

lemma reps_frame:
  "reps tab s p bs \<Longrightarrow> (\<And>x. s \<le> x \<Longrightarrow> x < s + total_size bs \<Longrightarrow> tab' x = tab x) \<Longrightarrow> reps tab' s p bs"
  by (induction tab s p bs rule: reps.induct) auto

lemma after_free_range: "x \<in> after_free s p bs \<Longrightarrow> reps tab s p bs \<Longrightarrow> s \<le> x \<and> x < s + total_size bs"
  by (induction s p bs rule: after_free.induct) (fastforce split: if_splits)+

lemma allocated_range:
  "(x, n) \<in> set (allocated s bs) \<Longrightarrow> s \<le> x \<and> x + n \<le> s + total_size bs"
  by (induction s bs rule: allocated.induct) (fastforce split: if_splits)+

lemma prev_after_pos: "0 < prev_after 0 xs \<Longrightarrow> \<exists>xs0. xs = xs0 @ [(True, prev_after 0 xs)]"
proof (induction xs rule: rev_induct)
  case (snoc b xs)
  then show ?case by (cases b) (auto split: if_splits)
qed simp

lemma after_free_split:
  "x \<in> after_free s p bs \<Longrightarrow>
     \<exists>xs n ys. bs = xs @ (False, n) # ys \<and> x = s + total_size xs \<and> 0 < prev_after p xs"
proof (induction s p bs rule: after_free.induct)
  case (2 s p f n bs)
  show ?case
  proof (cases "x \<in> after_free (s + n) (if f then n else 0) bs")
    case True
    then obtain xs m ys where "bs = xs @ (False, m) # ys" "x = s + n + total_size xs"
        "0 < prev_after (if f then n else 0) xs"
      using 2 by blast
    then have "(f, n) # bs = ((f, n) # xs) @ (False, m) # ys \<and> x = s + total_size ((f, n) # xs) \<and>
        0 < prev_after p ((f, n) # xs)"
      by simp
    then show ?thesis by blast
  next
    case False
    then have "x = s" "0 < p" "\<not> f" using 2(2) by (auto split: if_splits)
    then have "(f, n) # bs = [] @ (False, n) # bs \<and> x = s + total_size [] \<and> 0 < prev_after p []" by simp
    then show ?thesis by blast
  qed
qed simp

lemma allocated_split:
  "(x, n) \<in> set (allocated s bs) \<Longrightarrow> \<exists>xs ys. bs = xs @ (False, n) # ys \<and> x = s + total_size xs"
proof (induction s bs rule: allocated.induct)
  case (2 s f k bs)
  show ?case
  proof (cases "(x, n) \<in> set (allocated (s + k) bs)")
    case True
    then obtain xs ys where "bs = xs @ (False, n) # ys" "x = s + k + total_size xs" using 2 by blast
    then have "(f, k) # bs = ((f, k) # xs) @ (False, n) # ys \<and> x = s + total_size ((f, k) # xs)" by simp
    then show ?thesis by blast
  next
    case False
    then have "(f, k) # bs = [] @ (False, n) # bs \<and> x = s + total_size []" using 2(2) by (auto split: if_splits)
    then show ?thesis by blast
  qed
qed simp

text \<open>Two allocated blocks do not overlap.\<close>

lemma allocated_disjoint:
  "(x, n) \<in> set (allocated s bs) \<Longrightarrow> (y, k) \<in> set (allocated s bs) \<Longrightarrow> (x, n) \<noteq> (y, k) \<Longrightarrow>
     x + n \<le> y \<or> y + k \<le> x"
proof (induction s bs rule: allocated.induct)
  case (2 s f m bs)
  then show ?case using allocated_range [of _ _ "s + m" bs]
    by (auto split: if_splits)
qed simp

text \<open>A free block before an allocated one, taken apart.\<close>

lemma after_free_block:
  assumes "x \<in> after_free 0 0 bs" "reps tab 0 0 bs"
  obtains xs p n ys where "bs = xs @ (True, p) # (False, n) # ys" "x = total_size xs + p" "0 < p" "prev_after 0 xs = 0"
    "GetPrevFree (tab x) = p" "AlignSize (tab x) = n" "0 < n" "\<not> IsFree (tab x)"
proof -
  obtain xs1 n ys where 1: "bs = xs1 @ (False, n) # ys" "x = total_size xs1" "0 < prev_after 0 xs1"
    using after_free_split [OF assms(1)] by auto
  obtain xs p where 2: "xs1 = xs @ [(True, p)]" using prev_after_pos [OF 1(3)] by blast
  then show thesis
    using that [of xs p n ys] 1 assms(2) by (auto simp: reps_append)
qed

lemma vacant_append [simp]:
  "vacant s (xs @ ys) = vacant s xs @ vacant (s + total_size xs) ys"
  by (induction s xs rule: vacant.induct) (simp_all add: add.assoc)

lemma vacant_after_free:
  "reps tab s p bs \<Longrightarrow> prev_after p bs = 0 \<Longrightarrow> (y, n) \<in> set (vacant s bs) \<Longrightarrow>
     y + n \<in> after_free s p bs \<and> GetPrevFree (tab (y + n)) = n"
proof (induction s p bs rule: after_free.induct)
  case (2 s p f m bs)
  show ?case
  proof (cases "f \<and> (y, n) = (s, m)")
    case True
    then obtain k bs' where "bs = (False, k) # bs'" using 2(2,3) by (cases bs) (auto split: prod.splits if_splits)
    then show ?thesis using True 2(2) by simp
  next
    case False
    then have "(y, n) \<in> set (vacant (s + m) bs)" using 2(4) by (auto split: if_splits)
    then show ?thesis using 2(1-3) by auto
  qed
qed simp

lemma fb_less_cong: "allocation_info sp' = allocation_info sp \<Longrightarrow> fb_less sp' = fb_less sp"
  by (simp add: fun_eq_iff fb_less_def info_at_def)

lemma sorted_agree:
  "sorted_wrt (fb_less sp tab) xs \<Longrightarrow> allocation_info sp' = allocation_info sp \<Longrightarrow>
     (\<And>y. y \<in> set xs \<Longrightarrow> tab' y = tab y) \<Longrightarrow> sorted_wrt (fb_less sp' tab') xs"
  by (erule sorted_wrt_cong_less) (simp add: fb_less_def info_at_def)

lemma set_remove1_fb:
  "sorted_wrt (fb_less sp tab) xs \<Longrightarrow> set (remove1 x xs) = set xs - {x}"
  by (rule set_remove1_eq) (rule sorted_distinct, assumption, rule fb_less_order(1))

lemma space_rep_bound:
  assumes "space_rep sp bs"
  shows "total_size bs < 2 ^ 30"
    "(space_end sp - free_end sp - space_begin sp) div kAlignment = total_size bs"
    "space_end sp - free_end sp = space_begin sp + total_size bs * kAlignment"
    "free_end sp mod kAlignment = 0" "total_size bs + free_end sp div kAlignment < 2 ^ 30"
proof -
  have e: "space_end sp = space_begin sp + total_size bs * kAlignment + free_end sp" "free_end sp mod kAlignment = 0"
    "total_size bs * kAlignment + free_end sp < 2 ^ 30 * kAlignment"
    using assms unfolding space_rep_def by blast+
  then show "space_end sp - free_end sp = space_begin sp + total_size bs * kAlignment" by simp
  then show "(space_end sp - free_end sp - space_begin sp) div kAlignment = total_size bs" by simp
  have "total_size bs * kAlignment < 2 ^ 30 * kAlignment" using e(3) by linarith
  then show "total_size bs < 2 ^ 30" by simp
  show "free_end sp mod kAlignment = 0" by (rule e(2))
  have "free_end sp = free_end sp div kAlignment * kAlignment" using e(2) div_mod_decomp [of "free_end sp" kAlignment] by simp
  then have "(total_size bs + free_end sp div kAlignment) * kAlignment < 2 ^ 30 * kAlignment"
    using e(3) by (simp add: add_mult_distrib)
  then show "total_size bs + free_end sp div kAlignment < 2 ^ 30" by simp
qed

section \<open>Alloc\<close>

text \<open>Cutting an allocated block of \<open>a\<close> slots from the front of a free block of \<open>p\<close>.\<close>

definition cut_block :: "block list \<Rightarrow> nat \<Rightarrow> nat \<Rightarrow> nat \<Rightarrow> block list \<Rightarrow> block list" where
  "cut_block xs a p n ys = xs @ (False, a) # (if a < p then [(True, p - a)] else []) @ (False, n) # ys"

definition cut_tab :: "infos \<Rightarrow> nat \<Rightarrow> nat \<Rightarrow> nat \<Rightarrow> infos" where
  "cut_tab tab x a p =
     (let tab1 = tab(x + p := SetPrevFreeBytes ((p - a) * kAlignment) (tab (x + p)))
      in if a < p then tab1(x + a := SetByteSize ((p - a) * kAlignment) True (SetPrevFreeBytes 0 (tab1 (x + a))))
         else tab1)"

lemma reps_cut:
  assumes r: "reps tab 0 0 (xs @ (True, p) # (False, n) # ys)" and a: "0 < a" "a \<le> p" "p < 2 ^ 30"
    and t: "tab' = (cut_tab tab (total_size xs) a p)
              (total_size xs := SetByteSize (a * kAlignment) False (SetPrevFreeBytes 0 i))"
  shows "reps tab' 0 0 (cut_block xs a p n ys)"
proof -
  let ?x = "total_size xs"
  have xs: "reps tab 0 0 xs" "prev_after 0 xs = 0" and n: "0 < n" and ys: "reps tab (?x + p + n) 0 ys"
    and i: "AlignSize (tab (?x + p)) = n" "\<not> IsFree (tab (?x + p))"
    using r by (auto simp: reps_append)
  have "reps tab' 0 0 xs" by (rule reps_frame [OF xs(1)]) (use a in \<open>auto simp: t cut_tab_def Let_def\<close>)
  moreover have "reps tab' (?x + p + n) 0 ys"
    by (rule reps_frame [OF ys]) (use a n in \<open>auto simp: t cut_tab_def Let_def\<close>)
  ultimately show ?thesis
    using a i n xs by (auto simp: cut_block_def reps_append t cut_tab_def Let_def add.assoc)
qed

lemma after_free_cut:
  "0 < a \<Longrightarrow> a \<le> p \<Longrightarrow> prev_after 0 xs = 0 \<Longrightarrow>
     after_free 0 0 (cut_block xs a p n ys) =
       after_free 0 0 xs \<union> (if a < p then {total_size xs + p} else {}) \<union> after_free (total_size xs + p + n) 0 ys"
  by (auto simp: cut_block_def after_free_append)

lemma Alloc_fit_eq:
  assumes a: "0 < a" "a \<le> p" "p < 2 ^ 30" and p: "GetPrevFree (infos sp (x + p)) = p"
    and d: "x + p \<notin> set (remove1 (x + p) (free_blocks sp))"
  defines "sp1 \<equiv> sp\<lparr>free_blocks := remove1 (x + p) (free_blocks sp), infos := cut_tab (infos sp) x a p\<rparr>"
  shows "Alloc_fit (x + p) (a * kAlignment) sp =
     (x, if a < p then sp1\<lparr>free_blocks := fb_inserted sp1 (x + p)\<rparr> else sp1)"
proof -
  have [simp]: "p * kAlignment - a * kAlignment = (p - a) * kAlignment" by (simp add: diff_mult_distrib)
  have [simp]: "p - a < 2 ^ 30" using a by simp
  have [simp]: "x + p - (p - a) = x + a" using a by simp
  have [simp]: "x + a \<noteq> x + p" if "a < p" using that by simp
  show ?thesis
    using a p d
    by (simp add: Alloc_fit_def Let_def upd_info_def fb_erase_def GetPrevFreeInfo_def GetPrevFreeBytes_def
        cut_tab_def sp1_def fb_insert_eq fun_upd_twist)
qed

lemma cut_sizes:
  assumes "a \<le> p"
  shows "total_size (cut_block xs a p n ys) = total_size (xs @ (True, p) # (False, n) # ys)"
    "length (allocated 0 (cut_block xs a p n ys)) = Suc (length (allocated 0 (xs @ (True, p) # (False, n) # ys)))"
    "sum_list (map snd (allocated 0 (cut_block xs a p n ys))) =
       sum_list (map snd (allocated 0 (xs @ (True, p) # (False, n) # ys))) + a"
    "prev_after 0 (cut_block xs a p n ys) = prev_after 0 (xs @ (True, p) # (False, n) # ys)"
  using assms by (simp_all add: cut_block_def add.assoc)

text \<open>The last part of \<^verbatim>\<open>Alloc\<close> gives a space again once the table and the free list are right.\<close>

lemma space_rep_finish:
  fixes a x tab1
  defines "tab \<equiv> tab1(x := SetByteSize (a * kAlignment) False (SetPrevFreeBytes 0 (tab1 x)))"
  assumes rep: "space_rep sp bs"
    and sp': "infos sp' = tab1" "free_blocks sp' = fb" "space_begin sp' = space_begin sp"
      "space_end sp' = space_end sp" "allocation_info sp' = allocation_info sp"
      "num_objects_allocated sp' = num_objects_allocated sp" "num_bytes_allocated sp' = num_bytes_allocated sp"
    and tot: "total_size bs' * kAlignment + free_end sp' = total_size bs * kAlignment + free_end sp"
      "free_end sp' mod kAlignment = 0"
    and al: "length (allocated 0 bs') = Suc (length (allocated 0 bs))"
      "sum_list (map snd (allocated 0 bs')) = sum_list (map snd (allocated 0 bs)) + a"
    and rt: "reps tab 0 0 bs'" "prev_after 0 bs' = 0"
    and s: "sorted_wrt (fb_less sp tab) fb" "set fb = after_free 0 0 bs'"
  shows "space_rep (snd (snd (Alloc_finish x (a * kAlignment) sp'))) bs'"
proof -
  define q where "q = snd (snd (Alloc_finish x (a * kAlignment) sp'))"
  have q: "infos q = tab" "free_blocks q = fb" "free_end q = free_end sp'" "space_begin q = space_begin sp"
    "space_end q = space_end sp" "allocation_info q = allocation_info sp"
    "num_objects_allocated q = Suc (num_objects_allocated sp)"
    "num_bytes_allocated q = num_bytes_allocated sp + a * kAlignment"
    by (simp_all add: q_def Alloc_finish_def Let_def upd_info_def sp' tab_def)
  have "fb_less q = fb_less sp" using q(6) by (rule fb_less_cong)
  then show ?thesis
    using rep rt s tot al unfolding q_def [symmetric] space_rep_def
    by (simp add: q add_mult_distrib)
qed

lemma Alloc_fit_rep:
  assumes rep: "space_rep sp bs" and bs: "bs = xs @ (True, p) # (False, n) # ys" and a: "0 < a" "a \<le> p"
    and res: "Alloc_fit (total_size xs + p) (a * kAlignment) sp = (x, sp')"
  shows "x = total_size xs" "space_rep (snd (snd (Alloc_finish x (a * kAlignment) sp'))) (cut_block xs a p n ys)"
proof -
  let ?x = "total_size xs" and ?i = "total_size xs + p"
  let ?fb = "remove1 ?i (free_blocks sp)" and ?tab = "cut_tab (infos sp) (total_size xs) a p"
  define sp1 where "sp1 = sp\<lparr>free_blocks := ?fb, infos := ?tab\<rparr>"
  define fb where "fb = (if a < p then fb_inserted sp1 ?i else ?fb)"
  define tab where "tab = ?tab(?x := SetByteSize (a * kAlignment) False (SetPrevFreeBytes 0 (?tab ?x)))"
  have r: "reps (infos sp) 0 0 (xs @ (True, p) # (False, n) # ys)" and srt: "sorted_wrt (fb_less sp (infos sp)) (free_blocks sp)"
    and fbs: "set (free_blocks sp) = after_free 0 0 bs"
    using rep bs by (simp_all add: space_rep_def)
  then have pf: "GetPrevFree (infos sp ?i) = p" "prev_after 0 xs = 0" "0 < n" and rxs: "reps (infos sp) 0 0 xs" "reps (infos sp) (?i + n) 0 ys"
    by (auto simp: reps_append add.assoc)
  have p30: "p < 2 ^ 30" using space_rep_bound(1) [OF rep] by (simp add: bs)
  have sfb: "set ?fb = after_free 0 0 xs \<union> after_free (?i + n) 0 ys"
    using after_free_range [OF _ rxs(1), of ?i] after_free_range [OF _ rxs(2), of ?i] pf a
    by (auto simp: set_remove1_fb [OF srt] fbs bs after_free_append add.assoc)
  have away: "y \<in> set ?fb \<Longrightarrow> y < ?x \<or> ?i + n \<le> y" for y
    using after_free_range [OF _ rxs(1)] after_free_range [OF _ rxs(2)] by (auto simp: sfb)
  have ni: "?i \<notin> set ?fb" using away [of ?i] pf(3) by auto
  have "sp1\<lparr>free_blocks := ?fb\<rparr> = sp1" by (simp add: sp1_def)
  then have eq: "x = ?x" "sp' = sp1\<lparr>free_blocks := fb\<rparr>"
    using res Alloc_fit_eq [OF a p30 pf(1) ni, folded sp1_def] by (auto simp: fb_def)
  show "x = ?x" by (rule eq)
  have s1: "sorted_wrt (fb_less sp1 (infos sp1)) ?fb"
    by (rule sorted_agree [OF sorted_remove1 [OF srt]]) (use a away pf in \<open>fastforce simp: sp1_def cut_tab_def Let_def\<close>)+
  have s2: "sorted_wrt (fb_less sp1 (infos sp1)) fb"
    using sorted_fb_inserted [of sp1 ?i] s1 away [of ?i] pf(3) by (auto simp: fb_def sp1_def)
  have sf: "set fb = after_free 0 0 (cut_block xs a p n ys)"
    using a pf by (auto simp: fb_def set_fb_inserted after_free_cut sfb sp1_def)
  have "?x \<notin> set ?fb" using away [of ?x] pf a by auto
  then have "?x \<notin> set fb" using a by (auto simp: fb_def set_fb_inserted sp1_def)
  then have s3: "sorted_wrt (fb_less sp tab) fb"
    by (intro sorted_agree [OF s2]) (auto simp: sp1_def tab_def)
  have rt: "reps tab 0 0 (cut_block xs a p n ys)" using reps_cut [OF r a p30] by (simp add: tab_def)
  show "space_rep (snd (snd (Alloc_finish x (a * kAlignment) sp'))) (cut_block xs a p n ys)"
    using rt s3 sf cut_sizes [OF a(2), of xs n ys] rep space_rep_bound(4) [OF rep]
    by (intro space_rep_finish [OF rep, where fb = fb]) (simp_all add: eq sp1_def tab_def bs space_rep_def)
qed

lemma Alloc_end_rep:
  assumes rep: "space_rep sp bs" and a: "0 < a"
    and res: "Alloc_end (a * kAlignment) sp = Some (x, sp')"
  shows "x = total_size bs" "space_rep (snd (snd (Alloc_finish x (a * kAlignment) sp'))) (bs @ [(False, a)])"
proof -
  let ?x = "total_size bs"
  have le: "a * kAlignment \<le> free_end sp" and x: "x = ?x" and sp': "sp' = sp\<lparr>free_end := free_end sp - a * kAlignment\<rparr>"
    using res space_rep_bound(2) [OF rep] by (auto simp: Alloc_end_def GetSlotIndexForAddress_def split: if_splits)
  show "x = ?x" by (rule x)
  have r: "reps (infos sp) 0 0 bs" "prev_after 0 bs = 0" "sorted_wrt (fb_less sp (infos sp)) (free_blocks sp)"
    "set (free_blocks sp) = after_free 0 0 bs" "free_end sp mod kAlignment = 0"
    using rep unfolding space_rep_def by blast+
  have "a * kAlignment < 2 ^ 30 * kAlignment" using rep le unfolding space_rep_def by linarith
  then have a30: "a < 2 ^ 30" by simp
  let ?tab = "(infos sp)(?x := SetByteSize (a * kAlignment) False (SetPrevFreeBytes 0 (infos sp ?x)))"
  have "reps ?tab 0 0 bs" by (rule reps_frame [OF r(1)]) auto
  then have rt: "reps ?tab 0 0 (bs @ [(False, a)])" using a a30 r(2) by (simp add: reps_append)
  have "?x \<notin> set (free_blocks sp)" using after_free_range [OF _ r(1)] r(4) by fastforce
  then have st: "sorted_wrt (fb_less sp ?tab) (free_blocks sp)" by (intro sorted_upd r)
  have "(free_end sp - a * kAlignment) mod kAlignment = 0" using r(5) by (metis mod_mult_self3 le le_add_diff_inverse add.commute)
  then show "space_rep (snd (snd (Alloc_finish x (a * kAlignment) sp'))) (bs @ [(False, a)])"
    unfolding x using rt st r(2,4) le
    by (intro space_rep_finish [OF rep, where fb = "free_blocks sp"])
       (simp_all add: sp' after_free_append add_mult_distrib)
qed

lemma AlignSize_temp: "AlignSize (SetByteSize 0 False i) = 0"
  using AlignSize_SetByteSize [of 0 False i] by simp

lemma fb_lower_bound_fit:
  fixes a :: nat and temp :: addr
  assumes rep: "space_rep sp bs" and a: "a < 2 ^ 30"
  defines "key \<equiv> (SetByteSize 0 False (SetPrevFreeBytes (a * kAlignment) new_AllocationInfo), temp)"
  shows "fb_lower_bound sp key = List.find (\<lambda>y. a \<le> GetPrevFree (infos sp y)) (free_blocks sp)"
proof -
  have r: "reps (infos sp) 0 0 bs" "set (free_blocks sp) = after_free 0 0 bs"
    using rep unfolding space_rep_def by blast+
  have "SortByPrevFree (info_at sp (infos sp) y) key \<longleftrightarrow> \<not> a \<le> GetPrevFree (infos sp y)"
    if y: "y \<in> set (free_blocks sp)" for y
  proof -
    have "y \<in> after_free 0 0 bs" using y r(2) by simp
    then have "0 < AlignSize (infos sp y)" by (rule after_free_block [OF _ r(1)]) simp
    then show ?thesis using a by (auto simp: SortByPrevFree_iff info_at_def key_def AlignSize_temp)
  qed
  then show ?thesis unfolding fb_lower_bound_def by (intro find_cong) auto
qed

lemma find_first_min:
  assumes "sorted_wrt (fb_less sp tab) xs" "List.find (\<lambda>y. a \<le> GetPrevFree (tab y)) xs = Some i" "y \<in> set xs"
    and "a \<le> GetPrevFree (tab y)"
  shows "GetPrevFree (tab i) \<le> GetPrevFree (tab y)"
  using assms by (induction xs) (auto simp: fb_less_def info_at_def SortByPrevFree_iff split: if_splits)

section \<open>Walk\<close>

definition block_range :: "FreeListSpace \<Rightarrow> nat \<times> nat \<Rightarrow> addr \<times> addr" where
  "block_range sp b =
     (space_begin sp + fst b * kAlignment, space_begin sp + (fst b + snd b) * kAlignment)"

lemma Walk_from_reps:
  "reps (infos sp) s p bs \<Longrightarrow>
     Walk_from sp s (s + total_size bs) = Some (s + total_size bs, map (block_range sp) (allocated s bs))"
proof (induction s bs arbitrary: p rule: allocated.induct)
  case (1 s)
  then show ?case by (subst Walk_from.simps) simp
next
  case (2 s f n bs)
  from 2(2) have n: "0 < n" "AlignSize (infos sp s) = n" "IsFree (infos sp s) = f"
    and r: "reps (infos sp) (s + n) (if f then n else 0) bs" by auto
  show ?case
    using n 2(1) [OF r]
    by (subst Walk_from.simps) (simp add: GetNextInfo_def add.assoc block_range_def
        GetAddressForAllocationInfo_def ByteSize_def add_mult_distrib Let_def)
qed

lemma Walk_rep:
  assumes "space_rep sp bs"
  shows "FreeListSpace_Walk sp = Some (map (block_range sp) (allocated 0 bs))"
proof -
  have "reps (infos sp) 0 0 bs" using assms unfolding space_rep_def by blast
  then show ?thesis
    using Walk_from_reps [of sp 0 0 bs] space_rep_bound(2) [OF assms]
    by (simp add: FreeListSpace_Walk_def GetSlotIndexForAddress_def)
qed

text \<open>The live blocks of a space: what \<^verbatim>\<open>Walk\<close> reports.\<close>

definition live :: "FreeListSpace \<Rightarrow> (addr \<times> addr) set" where
  "live sp = (case FreeListSpace_Walk sp of Some calls \<Rightarrow> set calls | None \<Rightarrow> {})"

lemma live_rep: "space_rep sp bs \<Longrightarrow> live sp = block_range sp ` set (allocated 0 bs)"
  by (simp add: live_def Walk_rep)

lemma block_range_inj: "block_range sp b = block_range sp c \<longleftrightarrow> b = c"
  by (cases b; cases c) (auto simp: block_range_def)

text \<open>A run of slots clear of allocated blocks lies in one free block, because free blocks never
  touch, or reaches into the free region at the end.\<close>

lemma gap_in_free_block:
  "reps tab s p bs \<Longrightarrow> prev_after p bs = 0 \<Longrightarrow> 0 < a \<Longrightarrow> s \<le> x \<Longrightarrow> x < s + total_size bs \<Longrightarrow>
   \<forall>(y, n) \<in> set (allocated s bs). x + a \<le> y \<or> y + n \<le> x \<Longrightarrow>
     \<exists>z \<in> after_free s p bs. a \<le> GetPrevFree (tab z)"
proof (induction s p bs rule: after_free.induct)
  case (2 s p f n bs)
  show ?case
  proof (cases "s + n \<le> x")
    case True
    then have "\<exists>z \<in> after_free (s + n) (if f then n else 0) bs. a \<le> GetPrevFree (tab z)"
      using 2 by (intro "2.IH") auto
    then show ?thesis by auto
  next
    case False
    then have f: f and "0 < n" using 2 by (auto split: if_splits)
    then obtain m bs' where bs: "bs = (False, m) # bs'" using 2(2,3) by (cases bs) (auto split: prod.splits)
    have "x + a \<le> s + n \<or> s + n + m \<le> x" using 2(7) f bs by auto
    then have "a \<le> n" using False 2(5) by auto
    then show ?thesis using 2(2) f bs \<open>0 < n\<close> by auto
  qed
qed simp

section \<open>Alloc and Free on the block sequence\<close>

lemma RoundUp_div: "RoundUp nb kAlignment = (nb + kAlignment - 1) div kAlignment * kAlignment"
  by (simp add: RoundUp_def)

lemma RoundUp_bounds:
  assumes "0 < n"
  shows "nb \<le> RoundUp nb n" "RoundUp nb n < nb + n" "0 < nb \<Longrightarrow> 0 < (nb + n - 1) div n"
proof -
  have "(nb + n - 1) div n * n + (nb + n - 1) mod n = nb + n - 1" by simp
  moreover have "(nb + n - 1) mod n < n" using assms by simp
  ultimately show "nb \<le> RoundUp nb n" "RoundUp nb n < nb + n"
    using assms unfolding RoundUp_def by linarith+
  show "0 < (nb + n - 1) div n" if "0 < nb" using that assms by (simp add: div_greater_zero_iff)
qed

lemma Alloc_finish_fst:
  "fst (Alloc_finish x A sp) = space_begin sp + x * kAlignment" "fst (snd (Alloc_finish x A sp)) = A"
  "space_begin (snd (snd (Alloc_finish x A sp))) = space_begin sp"
  "space_end (snd (snd (Alloc_finish x A sp))) = space_end sp"
  by (simp_all add: Alloc_finish_def Let_def GetAddressForAllocationInfo_def upd_info_def)

lemma Alloc_fit_bounds:
  "space_begin (snd (Alloc_fit i A sp)) = space_begin sp" "space_end (snd (Alloc_fit i A sp)) = space_end sp"
  by (simp_all add: Alloc_fit_def Let_def upd_info_def fb_erase_def fb_insert_def split: list.split)

text \<open>Where the new block is and what happens to the free end.\<close>

lemma Alloc_fit_place:
  "fst (Alloc_finish (fst (Alloc_fit i A sp)) A (snd (Alloc_fit i A sp))) =
     space_begin sp + (i - GetPrevFree (infos sp i)) * kAlignment"
  "free_end (snd (snd (Alloc_finish x A sp))) = free_end sp"
  "free_end (snd (Alloc_fit i A sp)) = free_end sp"
  by (simp_all add: Alloc_finish_fst Alloc_fit_bounds)
     (simp_all add: Alloc_fit_def Alloc_finish_def Let_def GetPrevFreeInfo_def upd_info_def fb_erase_def fb_insert_def
       split: list.split)

lemma Alloc_end_place:
  assumes "space_rep sp bs"
  shows "case Alloc_end A sp of None \<Rightarrow> free_end sp < A
         | Some (x, sp1) \<Rightarrow> A \<le> free_end sp \<and>
             fst (Alloc_finish x A sp1) = space_end sp - free_end sp \<and>
             free_end (snd (snd (Alloc_finish x A sp1))) = free_end sp - A"
  using space_rep_bound(2,3) [OF assms]
  by (auto simp: Alloc_end_def Let_def Alloc_finish_fst Alloc_fit_place GetSlotIndexForAddress_def)

lemma Alloc_rep:
  assumes rep: "space_rep sp bs" and a: "0 < a" "a < 2 ^ 30" and A: "RoundUp nb kAlignment = a * kAlignment"
    and res: "FreeListSpace_Alloc temp nb sp = (obj, sz, sp')"
  obtains (fail) "obj = 0" "sz = 0" "sp' = sp" "free_end sp < a * kAlignment"
      "\<forall>z \<in> after_free 0 0 bs. GetPrevFree (infos sp z) < a"
    | (ok) bs' x where "space_rep sp' bs'" "obj = space_begin sp + x * kAlignment" "sz = a * kAlignment"
      "set (allocated 0 bs') = insert (x, a) (set (allocated 0 bs))"
      "\<forall>(y, k) \<in> set (allocated 0 bs). y + k \<le> x \<or> x + a \<le> y"
      "space_begin sp' = space_begin sp" "space_end sp' = space_end sp"
proof -
  have r: "reps (infos sp) 0 0 bs" "set (free_blocks sp) = after_free 0 0 bs"
    using rep unfolding space_rep_def by blast+
  note res = res [unfolded FreeListSpace_Alloc_def Let_def A fb_lower_bound_fit [OF rep a(2)]]
  show thesis
  proof (cases "List.find (\<lambda>y. a \<le> GetPrevFree (infos sp y)) (free_blocks sp)")
    case None
    show thesis
    proof (cases "Alloc_end (a * kAlignment) sp")
      case n2: None
      then show thesis using fail res None r(2)
        by (auto simp: find_None_iff Alloc_end_def Let_def not_le split: if_splits)
    next
      case (Some b)
      obtain x sp1 where b: "Alloc_end (a * kAlignment) sp = Some (x, sp1)" using Some by (cases b) auto
      have sp1: "space_begin sp1 = space_begin sp" "space_end sp1 = space_end sp"
        using b by (auto simp: Alloc_end_def Let_def split: if_splits)
      have fin: "Alloc_finish x (a * kAlignment) sp1 = (obj, sz, sp')" using res None b by simp
      show thesis
        using ok [of "bs @ [(False, a)]" x] Alloc_end_rep [OF rep a(1) b, unfolded fin]
          Alloc_finish_fst [of x "a * kAlignment" sp1, unfolded fin] allocated_range [of _ _ 0 bs]
        by (auto simp: sp1)
    qed
  next
    case (Some i)
    then have i: "i \<in> after_free 0 0 bs" "a \<le> GetPrevFree (infos sp i)" using r(2) by (auto simp: find_Some_iff)
    from i(1) obtain xs p n ys where bs: "bs = xs @ (True, p) # (False, n) # ys" and ip: "i = total_size xs + p"
        "GetPrevFree (infos sp i) = p" by (rule after_free_block [OF _ r(1)]) metis
    obtain x sp1 where fit: "Alloc_fit i (a * kAlignment) sp = (x, sp1)" by fastforce
    have fin: "Alloc_finish x (a * kAlignment) sp1 = (obj, sz, sp')" using res Some fit by simp
    note rep' = Alloc_fit_rep [OF rep bs a(1) i(2) [unfolded ip(2)] fit [unfolded ip(1)]]
    have ap: "a \<le> p" using i(2) ip(2) by simp
    note f = rep' [unfolded fin] Alloc_finish_fst [of x "a * kAlignment" sp1, unfolded fin]
      Alloc_fit_bounds [of i "a * kAlignment" sp, unfolded fit]
    show thesis
    proof (rule ok [of "cut_block xs a p n ys" x])
      show "set (allocated 0 (cut_block xs a p n ys)) = insert (x, a) (set (allocated 0 bs))"
        using ap f(1) by (auto simp: bs cut_block_def)
      show "\<forall>(y, k) \<in> set (allocated 0 bs). y + k \<le> x \<or> x + a \<le> y"
        using allocated_range [of _ _ 0 xs] allocated_range [of _ _ "total_size xs + p + n" ys] ap f(1)
        by (fastforce simp: bs)
    qed (use f in simp_all)
  qed
qed

text \<open>A free block of \<open>p\<close> slots, or none.\<close>

definition gap :: "nat \<Rightarrow> block list" where
  "gap p = (if p = 0 then [] else [(True, p)])"

lemma gap_simps [simp]:
  "total_size (gap p) = p" "prev_after 0 (gap p) = p" "allocated s (gap p) = []" "after_free s 0 (gap p) = {}"
  by (simp_all add: gap_def)

lemma split_prev_gap:
  assumes "reps tab 0 0 (ws @ bs)"
  obtains xs where "ws = xs @ gap (prev_after 0 ws)" "prev_after 0 xs = 0"
proof (cases "prev_after 0 ws = 0")
  case True
  then show thesis using that [of ws] by (simp add: gap_def)
next
  case False
  then obtain xs p where ws: "ws = xs @ [(True, p)]" using prev_after_pos [of ws] by auto
  then have "prev_after 0 xs = 0" using assms by (auto simp: reps_append)
  then show thesis using that [of xs] ws False by (simp add: gap_def)
qed

lemma split_next_gap:
  assumes "reps tab s 0 ys" "prev_after 0 ys = 0" "ys \<noteq> []"
  obtains q r zs where "ys = gap q @ (False, r) # zs"
proof -
  obtain f q ys' where ys: "ys = (f, q) # ys'" using assms(3) by (cases ys) auto
  show thesis
  proof (cases f)
    case True
    then obtain r zs where "ys' = (False, r) # zs" using assms ys by (cases ys') (auto split: if_splits)
    then show thesis using that [of q r zs] assms True ys by (auto simp: gap_def)
  next
    case False
    then show thesis using that [of 0 q ys'] ys by (simp add: gap_def)
  qed
qed

definition merge_tab :: "infos \<Rightarrow> nat \<Rightarrow> nat \<Rightarrow> nat \<Rightarrow> nat \<Rightarrow> infos" where
  "merge_tab tab x n p q =
     (let tab1 = tab(x := SetByteSize (n * kAlignment) True (tab x));
          tab2 = tab1(x + n + q := SetPrevFreeBytes ((n + p + q) * kAlignment) (tab1 (x + n + q)))
      in tab2(x - p := SetByteSize ((n + p + q) * kAlignment) True (tab2 (x - p))))"

lemma reps_merge:
  assumes r: "reps tab 0 0 (xs @ gap p @ (False, n) # gap q @ (False, r) # zs)" and x: "x = total_size xs + p"
    and small: "n + p + q < 2 ^ 30" and xs: "prev_after 0 xs = 0"
  shows "reps (merge_tab tab x n p q) 0 0 (xs @ (True, n + p + q) # (False, r) # zs)"
proof -
  let ?tab = "merge_tab tab x n p q"
  have n: "0 < n" "0 < r" and rxs: "reps tab 0 0 xs" and rzs: "reps tab (x + n + q + r) 0 zs"
    and t: "AlignSize (tab (x + n + q)) = r" "\<not> IsFree (tab (x + n + q))" and pf: "GetPrevFree (tab (total_size xs)) = 0"
    using r xs by (auto simp: reps_append x add.assoc gap_def split: if_splits)
  have "reps ?tab 0 0 xs" by (rule reps_frame [OF rxs]) (auto simp: merge_tab_def Let_def x)
  moreover have "reps ?tab (x + n + q + r) 0 zs"
    by (rule reps_frame [OF rzs]) (use n in \<open>auto simp: merge_tab_def Let_def x\<close>)
  moreover have "AlignSize (?tab (total_size xs)) = n + p + q" "IsFree (?tab (total_size xs))"
      "GetPrevFree (?tab (total_size xs)) = 0"
    using small pf n by (simp_all add: merge_tab_def Let_def x)
  moreover have "AlignSize (?tab (x + n + q)) = r" "\<not> IsFree (?tab (x + n + q))"
      "GetPrevFree (?tab (x + n + q)) = n + p + q"
    using small t n by (simp_all add: merge_tab_def Let_def x)
  moreover define k where "k = n + p + q"
  moreover have o: "total_size xs + k = x + n + q" "0 < k" using n by (simp_all add: x k_def)
  ultimately show ?thesis unfolding k_def [symmetric] using n xs by (simp add: reps_append o)
qed

lemma Free_coalesce_prev_eq:
  assumes "sorted_wrt (fb_less sp (infos sp)) (free_blocks sp)" "GetPrevFree (infos sp x) = p"
    and "x \<in> set (free_blocks sp) \<longleftrightarrow> 0 < p"
  shows "Free_coalesce_prev x (n * kAlignment) sp =
     Some (x - p, (n + p) * kAlignment, sp\<lparr>free_blocks := remove1 x (free_blocks sp)\<rparr>)"
proof (cases "p = 0")
  case True
  then have "remove1 x (free_blocks sp) = free_blocks sp" using assms by (simp add: remove1_idem)
  then show ?thesis using assms True by (simp add: Free_coalesce_prev_def GetPrevFreeBytes_def)
next
  case False
  then show ?thesis
    using assms RemoveFreePrev_eq [of sp x]
    by (simp add: Free_coalesce_prev_def GetPrevFreeBytes_def fb_erase_def GetPrevFreeInfo_def add_mult_distrib Let_def)
qed

lemma Free_coalesce_next_end:
  assumes "GetAddressForAllocationInfo sp t = space_end sp - free_end sp"
  shows "Free_coalesce_next i t k sp = Some (sp\<lparr>free_end := free_end sp + k\<rparr>)"
  using assms by (simp add: Free_coalesce_next_def)

lemma Free_coalesce_next_eq:
  fixes k :: nat
  assumes srt: "sorted_wrt (fb_less sp (infos sp)) (free_blocks sp)"
    and lt: "GetAddressForAllocationInfo sp y < space_end sp - free_end sp"
    and nxt: "0 < q \<Longrightarrow> IsFree (infos sp y) \<and> AlignSize (infos sp y) = q" "q = 0 \<Longrightarrow> \<not> IsFree (infos sp y)"
    and t: "GetPrevFree (infos sp (y + q)) = q" "y + q \<in> set (free_blocks sp) \<longleftrightarrow> 0 < q"
  defines "sp1 \<equiv> sp\<lparr>free_blocks := remove1 (y + q) (free_blocks sp),
                    infos := (infos sp)(y + q := SetPrevFreeBytes ((k + q) * kAlignment) (infos sp (y + q)))\<rparr>"
  shows "Free_coalesce_next i y (k * kAlignment) sp =
    Some (upd_info i (SetByteSize ((k + q) * kAlignment) True) (sp1\<lparr>free_blocks := fb_inserted sp1 (y + q)\<rparr>))"
proof -
  have notin: "y + q \<notin> set (remove1 (y + q) (free_blocks sp))"
    using set_remove1_fb [OF srt] by simp
  then have ins: "fb_insert (y + q) sp1 = sp1\<lparr>free_blocks := fb_inserted sp1 (y + q)\<rparr>"
    by (intro fb_insert_eq) (simp add: sp1_def)
  show ?thesis
  proof (cases "q = 0")
    case True
    then have "remove1 y (free_blocks sp) = free_blocks sp" using t by (simp add: remove1_idem)
    then have "sp1 = upd_info y (SetPrevFreeBytes (k * kAlignment)) sp"
      by (simp add: sp1_def upd_info_def True)
    then show ?thesis using ins lt nxt True by (simp add: Free_coalesce_next_def Let_def)
  next
    case False
    then have "RemoveFreePrev (y + q) sp = Some (sp\<lparr>free_blocks := remove1 (y + q) (free_blocks sp)\<rparr>)"
      using RemoveFreePrev_eq [OF srt] t by (simp add: fb_erase_def)
    moreover have "sp1 = upd_info (y + q) (SetPrevFreeBytes ((k + q) * kAlignment))
        (sp\<lparr>free_blocks := remove1 (y + q) (free_blocks sp)\<rparr>)"
      by (simp add: sp1_def upd_info_def)
    ultimately show ?thesis
      using ins lt nxt(1) t False
      by (simp add: Free_coalesce_next_def Let_def GetNextInfo_def GetPrevFreeBytes_def add_mult_distrib)
  qed
qed

text \<open>The parts of \<^verbatim>\<open>Free\<close> that do not depend on what follows the block.\<close>

lemma Free_start:
  assumes rep: "space_rep sp bs" and bs: "bs = xs @ gap p @ (False, n) # ys" and x: "x = total_size xs + p"
    and xs: "prev_after 0 xs = 0"
  defines "tab1 \<equiv> (infos sp)(x := SetByteSize (n * kAlignment) True (infos sp x))"
  defines "sp1 \<equiv> sp\<lparr>infos := tab1, free_blocks := remove1 x (free_blocks sp)\<rparr>"
  shows "FreeListSpace_Free (space_begin sp + x * kAlignment) sp m = do {
           sp2 \<leftarrow> Free_coalesce_next (x - p) (x + n) ((n + p) * kAlignment) sp1;
           Some (n * kAlignment,
             sp2\<lparr>num_objects_allocated := num_objects_allocated sp2 - 1,
                num_bytes_allocated := num_bytes_allocated sp2 - n * kAlignment\<rparr>,
             zero_bytes m (space_begin sp + x * kAlignment) (n * kAlignment))}"
    "sorted_wrt (fb_less sp1 tab1) (free_blocks sp1)"
    "set (free_blocks sp1) = after_free 0 0 xs \<union> after_free (x + n) 0 ys"
proof -
  have r: "reps (infos sp) 0 0 bs" and srt: "sorted_wrt (fb_less sp (infos sp)) (free_blocks sp)"
    and fbs: "set (free_blocks sp) = after_free 0 0 bs"
    using rep unfolding space_rep_def by blast+
  have n30: "n < 2 ^ 30" using space_rep_bound(1) [OF rep] by (simp add: bs)
  have f: "AlignSize (infos sp x) = n" "GetPrevFree (infos sp x) = p" "0 < n"
      and rxs: "reps (infos sp) 0 0 xs" "reps (infos sp) (x + n) 0 ys"
    using r by (auto simp: bs reps_append x xs gap_def add.assoc split: if_splits)
  have af: "set (free_blocks sp) = after_free 0 0 xs \<union> (if 0 < p then {x} else {}) \<union> after_free (x + n) 0 ys"
    using xs by (simp add: fbs bs after_free_append x add.assoc)
  have nx: "x \<notin> after_free 0 0 xs" "x \<notin> after_free (x + n) 0 ys"
    using after_free_range [OF _ rxs(1), of x] after_free_range [OF _ rxs(2), of x] f x by auto
  have s0: "sorted_wrt (fb_less (sp\<lparr>infos := tab1\<rparr>) tab1) (free_blocks sp)"
    using sorted_upd_key [OF srt, of "SetByteSize (n * kAlignment) True (infos sp x)" x] f n30
    by (simp add: tab1_def fb_less_cong [of "sp\<lparr>infos := z\<rparr>" sp for z])
  have slot: "GetSlotIndexForAddress sp (space_begin sp + x * kAlignment) = x" by (simp add: GetSlotIndexForAddress_def)
  have prev: "Free_coalesce_prev x (n * kAlignment) (sp\<lparr>infos := tab1\<rparr>) = Some (x - p, (n + p) * kAlignment, sp1)"
    using Free_coalesce_prev_eq [of "sp\<lparr>infos := tab1\<rparr>" x p n] s0 f af nx by (simp add: tab1_def sp1_def)
  show "FreeListSpace_Free (space_begin sp + x * kAlignment) sp m = do {
           sp2 \<leftarrow> Free_coalesce_next (x - p) (x + n) ((n + p) * kAlignment) sp1;
           Some (n * kAlignment,
             sp2\<lparr>num_objects_allocated := num_objects_allocated sp2 - 1,
                num_bytes_allocated := num_bytes_allocated sp2 - n * kAlignment\<rparr>,
             zero_bytes m (space_begin sp + x * kAlignment) (n * kAlignment))}"
    using prev f n30
    by (simp add: FreeListSpace_Free_def Let_def slot ByteSize_def upd_info_def tab1_def GetNextInfo_def)
  show "sorted_wrt (fb_less sp1 tab1) (free_blocks sp1)"
    using sorted_remove1 [OF s0, of x] by (simp add: sp1_def fb_less_cong [of "sp\<lparr>infos := z, free_blocks := y\<rparr>" "sp\<lparr>infos := z\<rparr>" for z y])
  show "set (free_blocks sp1) = after_free 0 0 xs \<union> after_free (x + n) 0 ys"
    using nx by (auto simp: sp1_def set_remove1_fb [OF srt] af)
qed

text \<open>Freeing gives a space again once the table and the free list are right.\<close>

lemma space_rep_release:
  assumes rep: "space_rep sp bs"
    and q: "space_begin q = space_begin sp" "space_end q = space_end sp" "allocation_info q = allocation_info sp"
      "num_objects_allocated q = num_objects_allocated sp - 1"
      "num_bytes_allocated q = num_bytes_allocated sp - n * kAlignment"
    and tot: "total_size bs' * kAlignment + free_end q = total_size bs * kAlignment + free_end sp"
      "free_end q mod kAlignment = 0"
    and al: "length (allocated 0 bs) = Suc (length (allocated 0 bs'))"
      "sum_list (map snd (allocated 0 bs)) = sum_list (map snd (allocated 0 bs')) + n"
    and rt: "reps (infos q) 0 0 bs'" "prev_after 0 bs' = 0"
    and s: "sorted_wrt (fb_less sp (infos q)) (free_blocks q)" "set (free_blocks q) = after_free 0 0 bs'"
  shows "space_rep q bs'"
proof -
  have "fb_less q = fb_less sp" using q(3) by (rule fb_less_cong)
  then show ?thesis
    using rep rt s tot al q unfolding space_rep_def by (simp add: add_mult_distrib)
qed

lemma Free_rep_end:
  assumes rep: "space_rep sp bs" and bs: "bs = xs @ gap p @ [(False, n)]" and x: "x = total_size xs + p"
    and xs: "prev_after 0 xs = 0"
  shows "\<exists>sp'. FreeListSpace_Free (space_begin sp + x * kAlignment) sp m =
           Some (n * kAlignment, sp', zero_bytes m (space_begin sp + x * kAlignment) (n * kAlignment)) \<and>
         space_rep sp' xs \<and> space_begin sp' = space_begin sp \<and> space_end sp' = space_end sp"
proof -
  note start = Free_start [OF rep bs x xs]
  let ?tab1 = "(infos sp)(x := SetByteSize (n * kAlignment) True (infos sp x))"
  let ?sp1 = "sp\<lparr>infos := ?tab1, free_blocks := remove1 x (free_blocks sp)\<rparr>"
  have "space_begin sp + (x + n) * kAlignment = space_end sp - free_end sp"
    using space_rep_bound(3) [OF rep] by (simp add: bs x add.assoc)
  then have nxt: "Free_coalesce_next (x - p) (x + n) ((n + p) * kAlignment) ?sp1 =
      Some (?sp1\<lparr>free_end := free_end sp + (n + p) * kAlignment\<rparr>)"
    using Free_coalesce_next_end [of ?sp1 "x + n"] by (simp add: GetAddressForAllocationInfo_def)
  have "reps (infos sp) 0 0 xs" using rep by (auto simp: space_rep_def bs reps_append)
  then have rt: "reps ?tab1 0 0 xs" by (rule reps_frame) (simp add: x)
  let ?q = "?sp1\<lparr>free_end := free_end sp + (n + p) * kAlignment,
       num_objects_allocated := num_objects_allocated sp - 1, num_bytes_allocated := num_bytes_allocated sp - n * kAlignment\<rparr>"
  have "sorted_wrt (fb_less sp ?tab1) (remove1 x (free_blocks sp))"
    using start(2) by (simp add: fb_less_cong [of ?sp1 sp])
  moreover have "(free_end sp + (n + p) * kAlignment) mod kAlignment = 0"
    using space_rep_bound(4) [OF rep] by simp
  ultimately have "space_rep ?q xs"
    using start(3) rt xs
    by (intro space_rep_release [OF rep, where n = n]) (simp_all add: bs add_mult_distrib)
  then show ?thesis by (intro exI [of _ ?q]) (simp add: start(1) nxt)
qed

lemma Free_rep_mid:
  assumes rep: "space_rep sp bs" and bs: "bs = xs @ gap p @ (False, n) # gap q @ (False, r) # zs"
    and x: "x = total_size xs + p" and xs: "prev_after 0 xs = 0"
  shows "\<exists>sp'. FreeListSpace_Free (space_begin sp + x * kAlignment) sp m =
           Some (n * kAlignment, sp', zero_bytes m (space_begin sp + x * kAlignment) (n * kAlignment)) \<and>
         space_rep sp' (xs @ (True, n + p + q) # (False, r) # zs) \<and>
         space_begin sp' = space_begin sp \<and> space_end sp' = space_end sp"
proof -
  note start = Free_start [OF rep bs x xs]
  let ?t = "x + n + q"
  let ?tab1 = "(infos sp)(x := SetByteSize (n * kAlignment) True (infos sp x))"
  let ?sp1 = "sp\<lparr>infos := ?tab1, free_blocks := remove1 x (free_blocks sp)\<rparr>"
  define sp2 where "sp2 = ?sp1\<lparr>free_blocks := remove1 ?t (free_blocks ?sp1),
      infos := ?tab1(?t := SetPrevFreeBytes ((n + p + q) * kAlignment) (?tab1 ?t))\<rparr>"
  let ?bs' = "xs @ (True, n + p + q) # (False, r) # zs"
  have r: "reps (infos sp) 0 0 bs" using rep by (simp add: space_rep_def)
  then have f: "0 < n" "0 < r" "GetPrevFree (infos sp ?t) = q" "0 < q \<Longrightarrow> IsFree (infos sp (x + n)) \<and> AlignSize (infos sp (x + n)) = q"
      "q = 0 \<Longrightarrow> \<not> IsFree (infos sp (x + n))"
      and rxs: "reps (infos sp) 0 0 xs" "reps (infos sp) (?t + r) 0 zs"
    by (auto simp: bs reps_append x xs gap_def add.assoc split: if_splits)
  have af: "set (free_blocks ?sp1) = after_free 0 0 xs \<union> (if 0 < q then {?t} else {}) \<union> after_free (?t + r) 0 zs"
    using start(3) by (simp add: after_free_append add.assoc)
  have nt: "?t \<notin> after_free 0 0 xs" "?t \<notin> after_free (?t + r) 0 zs" "x - p \<notin> after_free 0 0 xs" "x - p \<notin> after_free (?t + r) 0 zs"
    using after_free_range [OF _ rxs(1), of ?t] after_free_range [OF _ rxs(2), of ?t]
      after_free_range [OF _ rxs(1), of "x - p"] after_free_range [OF _ rxs(2), of "x - p"] f(1,2) x by auto
  have "space_begin sp + (x + n) * kAlignment < space_end sp - free_end sp"
    using space_rep_bound(3) [OF rep] f(2) by (simp add: bs x add.assoc)
  then have nxt: "Free_coalesce_next (x - p) (x + n) ((n + p) * kAlignment) ?sp1 =
      Some (upd_info (x - p) (SetByteSize ((n + p + q) * kAlignment) True) (sp2\<lparr>free_blocks := fb_inserted sp2 ?t\<rparr>))"
    unfolding sp2_def using f start(2) af nt
    by (subst Free_coalesce_next_eq [where q = q]) (simp_all add: GetAddressForAllocationInfo_def)
  let ?q = "(upd_info (x - p) (SetByteSize ((n + p + q) * kAlignment) True) (sp2\<lparr>free_blocks := fb_inserted sp2 ?t\<rparr>))
     \<lparr>num_objects_allocated := num_objects_allocated sp - 1, num_bytes_allocated := num_bytes_allocated sp - n * kAlignment\<rparr>"
  have tab: "infos ?q = merge_tab (infos sp) x n p q"
    by (simp add: upd_info_def sp2_def merge_tab_def Let_def)
  have "n + p + q < 2 ^ 30" using space_rep_bound(1) [OF rep] by (simp add: bs)
  then have rt: "reps (infos ?q) 0 0 ?bs'" unfolding tab using r bs x xs by (intro reps_merge) simp_all
  have fb2: "set (free_blocks sp2) = after_free 0 0 xs \<union> after_free (?t + r) 0 zs"
    using nt af set_remove1_fb [OF start(2), of ?t] by (auto simp: sp2_def)
  have "sorted_wrt (fb_less sp2 (infos sp2)) (remove1 ?t (free_blocks ?sp1))"
    by (rule sorted_agree [OF sorted_remove1 [OF start(2), of ?t]])
       (use set_remove1_fb [OF start(2), of ?t] in \<open>auto simp: sp2_def\<close>)
  then have "sorted_wrt (fb_less sp2 (infos sp2)) (free_blocks sp2)" by (simp add: sp2_def)
  then have "sorted_wrt (fb_less sp2 (infos sp2)) (fb_inserted sp2 ?t)"
    by (rule sorted_fb_inserted) (use fb2 nt in simp)
  moreover have "x - p \<notin> set (fb_inserted sp2 ?t)" using nt f(1) x by (simp add: set_fb_inserted fb2)
  ultimately have st: "sorted_wrt (fb_less sp (infos ?q)) (fb_inserted sp2 ?t)"
    by (elim sorted_agree) (auto simp: upd_info_def, simp add: sp2_def)
  have sf: "set (fb_inserted sp2 ?t) = after_free 0 0 ?bs'"
    using xs by (simp add: set_fb_inserted fb2 after_free_append x f ac_simps)
  have "space_rep ?q ?bs'"
    using rt st sf rep
    by (intro space_rep_release [OF rep, where n = n])
       (simp_all add: bs add_mult_distrib upd_info_def sp2_def space_rep_def ac_simps)
  then show ?thesis by (intro exI [of _ ?q]) (simp add: start(1) nxt upd_info_def sp2_def)
qed

lemma Free_rep:
  assumes rep: "space_rep sp bs" and x: "(x, n) \<in> set (allocated 0 bs)"
  shows "\<exists>sp' bs'. FreeListSpace_Free (space_begin sp + x * kAlignment) sp m =
           Some (n * kAlignment, sp', zero_bytes m (space_begin sp + x * kAlignment) (n * kAlignment)) \<and>
         space_rep sp' bs' \<and> set (allocated 0 bs') = set (allocated 0 bs) - {(x, n)} \<and>
         space_begin sp' = space_begin sp \<and> space_end sp' = space_end sp"
proof -
  have r: "reps (infos sp) 0 0 bs" "prev_after 0 bs = 0" using rep by (simp_all add: space_rep_def)
  obtain ws ys where bs1: "bs = ws @ (False, n) # ys" and xw: "x = total_size ws" using allocated_split [OF x] by auto
  have "reps (infos sp) 0 0 (ws @ (False, n) # ys)" using r bs1 by simp
  then obtain xs p where xs: "ws = xs @ gap p" "prev_after 0 xs = 0" by (rule split_prev_gap) blast
  have xp: "x = total_size xs + p" by (simp add: xw xs)
  have n: "0 < n" and rxs: "reps (infos sp) (x + n) 0 ys" using r bs1 xw by (auto simp: reps_append)
  have del: "set (allocated 0 xs) \<union> set (allocated (x + n) ys) = set (allocated 0 bs) - {(x, n)}"
    using allocated_range [of x n 0 xs] allocated_range [of x n "x + n" ys] n by (auto simp: bs1 xs xp)
  show ?thesis
  proof (cases "ys = []")
    case True
    then have "bs = xs @ gap p @ [(False, n)]" using bs1 xs(1) by simp
    from Free_rep_end [OF rep this xp xs(2), of m] show ?thesis using del True by auto
  next
    case False
    then obtain q r zs where ys: "ys = gap q @ (False, r) # zs"
      using split_next_gap [OF rxs] r(2) bs1 by auto
    then have "bs = xs @ gap p @ (False, n) # gap q @ (False, r) # zs" using bs1 xs(1) by simp
    from Free_rep_mid [OF rep this xp xs(2), of m]
    obtain sp' where "FreeListSpace_Free (space_begin sp + x * kAlignment) sp m =
           Some (n * kAlignment, sp', zero_bytes m (space_begin sp + x * kAlignment) (n * kAlignment))"
         "space_rep sp' (xs @ (True, n + p + q) # (False, r) # zs)"
         "space_begin sp' = space_begin sp" "space_end sp' = space_end sp"
      by blast
    moreover have "set (allocated 0 (xs @ (True, n + p + q) # (False, r) # zs)) = set (allocated 0 bs) - {(x, n)}"
      unfolding del [symmetric] by (simp add: ys xp ac_simps)
    ultimately show ?thesis by blast
  qed
qed

section \<open>The interface of an allocation space\<close>

text \<open>
  What the clients of a space rely on: an invariant, the set of live blocks (start and end), and
  allocation and release in terms of it. The null pointer is 0.
\<close>

locale object_space =
  fixes inv :: "'s \<Rightarrow> bool"
    and blocks :: "'s \<Rightarrow> (addr \<times> addr) set"
    and alloc :: "nat \<Rightarrow> 's \<Rightarrow> addr \<times> 's"
    and release :: "addr \<Rightarrow> 's \<Rightarrow> 's option"
    and limit :: nat
  assumes block_wf: "inv s \<Longrightarrow> (a, e) \<in> blocks s \<Longrightarrow> 0 < a \<and> a < e"
    and blocks_disjoint: "inv s \<Longrightarrow> (a, e) \<in> blocks s \<Longrightarrow> (b, f) \<in> blocks s \<Longrightarrow> (a, e) \<noteq> (b, f) \<Longrightarrow> e \<le> b \<or> f \<le> a"
    and alloc_ok: "inv s \<Longrightarrow> 0 < n \<Longrightarrow> n \<le> limit \<Longrightarrow> alloc n s = (a, s') \<Longrightarrow> a \<noteq> 0 \<Longrightarrow>
      inv s' \<and> (\<exists>e. a + n \<le> e \<and> (a, e) \<notin> blocks s \<and> blocks s' = insert (a, e) (blocks s))"
    and alloc_null: "inv s \<Longrightarrow> 0 < n \<Longrightarrow> n \<le> limit \<Longrightarrow> alloc n s = (0, s') \<Longrightarrow> s' = s"
    and release_ok: "inv s \<Longrightarrow> (a, e) \<in> blocks s \<Longrightarrow>
      \<exists>s'. release a s = Some s' \<and> inv s' \<and> blocks s' = blocks s - {(a, e)}"
begin

lemma alloc_inv: "inv s \<Longrightarrow> 0 < n \<Longrightarrow> n \<le> limit \<Longrightarrow> alloc n s = (a, s') \<Longrightarrow> inv s'"
  using alloc_ok [of s n a s'] alloc_null [of s n s'] by (cases "a = 0") simp_all

text \<open>A new object overlaps no live block.\<close>

lemma alloc_apart:
  assumes "inv s" "0 < n" "n \<le> limit" "alloc n s = (a, s')" "a \<noteq> 0" "(b, f) \<in> blocks s"
  shows "a + n \<le> b \<or> f \<le> a"
proof -
  obtain e where e: "a + n \<le> e" "(a, e) \<notin> blocks s" "blocks s' = insert (a, e) (blocks s)" and "inv s'"
    using alloc_ok [OF assms(1-5)] by blast
  then have "e \<le> b \<or> f \<le> a" using blocks_disjoint [of s' a e b f] assms(6) by auto
  then show ?thesis using e by auto
qed

text \<open>Releasing what was just allocated gives the old set of blocks back.\<close>

lemma alloc_release:
  assumes "inv s" "0 < n" "n \<le> limit" "alloc n s = (a, s')" "a \<noteq> 0"
  shows "\<exists>s''. release a s' = Some s'' \<and> inv s'' \<and> blocks s'' = blocks s"
proof -
  obtain e where e: "(a, e) \<notin> blocks s" "blocks s' = insert (a, e) (blocks s)" and "inv s'"
    using alloc_ok [OF assms] by blast
  then show ?thesis using release_ok [of s' a e] by auto
qed

text \<open>A sequence of allocations: the objects that were obtained are pairwise apart.\<close>

lemma allocs_apart:
  assumes "inv s" "0 < n" "n \<le> limit" "0 < k" "k \<le> limit" "alloc n s = (a, s')" "a \<noteq> 0" "alloc k s' = (b, s'')" "b \<noteq> 0"
  shows "a + n \<le> b \<or> b + k \<le> a"
proof -
  obtain e where e: "a + n \<le> e" "blocks s' = insert (a, e) (blocks s)" and i: "inv s'"
    using alloc_ok [OF assms(1-3,6,7)] by blast
  then have "b + k \<le> a \<or> e \<le> b" using alloc_apart [OF i assms(4,5,8,9), of a e] by auto
  then show ?thesis using e by auto
qed

end

definition space_alloc :: "addr \<Rightarrow> nat \<Rightarrow> FreeListSpace \<Rightarrow> addr \<times> FreeListSpace" where
  "space_alloc temp n sp = (let (obj, _, sp') = FreeListSpace_Alloc temp n sp in (obj, sp'))"

definition space_release :: "mem \<Rightarrow> addr \<Rightarrow> FreeListSpace \<Rightarrow> FreeListSpace option" where
  "space_release m obj sp = map_option (\<lambda>(_, sp', _). sp') (FreeListSpace_Free obj sp m)"

definition space_limit :: nat where
  "space_limit = (2 ^ 30 - 1) * kAlignment"

lemma alloc_slots:
  assumes "0 < nb" "nb \<le> space_limit"
  obtains a where "0 < a" "a < 2 ^ 30" "RoundUp nb kAlignment = a * kAlignment"
proof -
  have "RoundUp nb kAlignment < nb + kAlignment" by (rule RoundUp_bounds(2)) simp
  also have "\<dots> \<le> 2 ^ 30 * kAlignment" using assms(2) by (simp add: space_limit_def)
  finally have "(nb + kAlignment - 1) div kAlignment < 2 ^ 30" by (simp add: RoundUp_div)
  then show thesis
    using that [of "(nb + kAlignment - 1) div kAlignment"] RoundUp_bounds(3) [of kAlignment nb] assms(1)
    by (simp add: RoundUp_div)
qed

lemma block_range_less:
  "fst (block_range sp b) = space_begin sp + fst b * kAlignment"
  "snd (block_range sp b) = space_begin sp + (fst b + snd b) * kAlignment"
  by (simp_all add: block_range_def)

lemma block_range_cong: "space_begin sp' = space_begin sp \<Longrightarrow> block_range sp' = block_range sp"
  by (simp add: fun_eq_iff block_range_def)

lemma space_alloc_cases:
  assumes inv: "space_inv sp" and nb: "0 < nb" "nb \<le> space_limit"
    and res: "FreeListSpace_Alloc temp nb sp = (obj, sz, sp')"
  obtains (fail) bs a where "space_rep sp bs" "0 < a" "RoundUp nb kAlignment = a * kAlignment"
      "obj = 0" "sz = 0" "sp' = sp" "free_end sp < a * kAlignment"
      "\<forall>z \<in> after_free 0 0 bs. GetPrevFree (infos sp z) < a"
    | (ok) "obj \<noteq> 0" "space_inv sp'" "sz = RoundUp nb kAlignment" "live sp' = insert (obj, obj + sz) (live sp)"
      "\<forall>(b, f) \<in> live sp. f \<le> obj \<or> obj + sz \<le> b" "(obj - space_begin sp) mod kAlignment = 0"
      "space_begin sp \<le> obj" "obj + sz \<le> space_end sp"
proof -
  obtain bs where rep: "space_rep sp bs" using inv by (auto simp: space_inv_def)
  have pos: "0 < space_begin sp" using rep by (simp add: space_rep_def)
  obtain a where a: "0 < a" "a < 2 ^ 30" "RoundUp nb kAlignment = a * kAlignment" by (rule alloc_slots [OF nb])
  show thesis
  proof (cases rule: Alloc_rep [OF rep a res])
    case 1
    then show thesis using that(1) [OF rep a(1,3)] by blast
  next
    case (2 bs' x)
    note ok = 2
    have l: "live sp' = insert (block_range sp (x, a)) (live sp)"
      using ok(4) live_rep [OF rep] live_rep [OF ok(1)] block_range_cong [OF ok(6)] by simp
    have ob: "block_range sp (x, a) = (obj, obj + sz)"
      by (simp add: block_range_def ok(2,3) add_mult_distrib)
    have "f \<le> obj \<or> obj + sz \<le> b" if "(b, f) \<in> live sp" for b f
    proof -
      obtain y k where y: "(y, k) \<in> set (allocated 0 bs)" "(b, f) = block_range sp (y, k)"
        using \<open>(b, f) \<in> live sp\<close> live_rep [OF rep] by auto
      then have "y + k \<le> x \<or> x + a \<le> y" using ok(5) by auto
      then have "(y + k) * kAlignment \<le> x * kAlignment \<or> (x + a) * kAlignment \<le> y * kAlignment"
        using mult_le_mono1 by blast
      then show ?thesis using y(2) by (auto simp: block_range_def ok(2,3) add_mult_distrib)
    qed
    moreover have "obj + sz \<le> space_end sp"
    proof -
      have "(x, a) \<in> set (allocated 0 bs')" using ok(4) by simp
      then have "x + a \<le> total_size bs'" using allocated_range [of x a 0 bs'] by simp
      then have "(x + a) * kAlignment \<le> total_size bs' * kAlignment" by (rule mult_le_mono1)
      then show ?thesis using ok(1,2,3,6,7) by (simp add: space_rep_def add_mult_distrib)
    qed
    ultimately show thesis
      using that(2) ok pos l ob a(3) by (auto simp: space_inv_def)
  qed
qed

lemma live_disjoint:
  assumes "space_inv sp" "(a, e) \<in> live sp" "(b, f) \<in> live sp" "(a, e) \<noteq> (b, f)"
  shows "e \<le> b \<or> f \<le> a"
proof -
  obtain bs where rep: "space_rep sp bs" using assms(1) by (auto simp: space_inv_def)
  obtain x n y k where xy: "(x, n) \<in> set (allocated 0 bs)" "(a, e) = block_range sp (x, n)"
      "(y, k) \<in> set (allocated 0 bs)" "(b, f) = block_range sp (y, k)"
    using assms(2,3) live_rep [OF rep] by auto
  then have "x + n \<le> y \<or> y + k \<le> x" using allocated_disjoint [OF xy(1,3)] assms(4) by auto
  then have "(x + n) * kAlignment \<le> y * kAlignment \<or> (y + k) * kAlignment \<le> x * kAlignment"
    using mult_le_mono1 by blast
  then show ?thesis using xy by (auto simp: block_range_def)
qed

lemma live_wf:
  assumes "space_inv sp" "(a, e) \<in> live sp"
  shows "0 < a \<and> a < e"
proof -
  obtain bs where rep: "space_rep sp bs" using assms(1) by (auto simp: space_inv_def)
  obtain x n where x: "(x, n) \<in> set (allocated 0 bs)" "(a, e) = block_range sp (x, n)"
    using assms(2) live_rep [OF rep] by auto
  obtain ws ys where "bs = ws @ (False, n) # ys" using allocated_split [OF x(1)] by auto
  then have "0 < n" "0 < space_begin sp" using rep by (auto simp: space_rep_def reps_append)
  then show ?thesis using x(2) by (simp add: block_range_def add_mult_distrib)
qed

lemma space_free_ok:
  assumes "space_inv sp" "(obj, e) \<in> live sp"
  shows "\<exists>sp'. FreeListSpace_Free obj sp m = Some (e - obj, sp', zero_bytes m obj (e - obj)) \<and>
           space_inv sp' \<and> live sp' = live sp - {(obj, e)}"
proof -
  obtain bs where rep: "space_rep sp bs" using assms(1) by (auto simp: space_inv_def)
  obtain x n where x: "(x, n) \<in> set (allocated 0 bs)" "(obj, e) = block_range sp (x, n)"
    using assms(2) live_rep [OF rep] by auto
  have o: "obj = space_begin sp + x * kAlignment" "e - obj = n * kAlignment"
    using x(2) by (simp_all add: block_range_def add_mult_distrib)
  obtain sp' bs' where sp': "FreeListSpace_Free obj sp m = Some (e - obj, sp', zero_bytes m obj (e - obj))"
      "space_rep sp' bs'" "set (allocated 0 bs') = set (allocated 0 bs) - {(x, n)}" "space_begin sp' = space_begin sp"
    using Free_rep [OF rep x(1), of m, folded o(1), folded o(2)] by blast
  have "live sp' = live sp - {(obj, e)}"
    unfolding live_rep [OF sp'(2)] live_rep [OF rep] sp'(3) x(2) block_range_cong [OF sp'(4)]
    by (auto simp: block_range_inj)
  then show ?thesis using sp' by (auto simp: space_inv_def)
qed

interpretation fl: object_space space_inv live "space_alloc temp" "space_release m" space_limit
proof
  fix sp n a sp' assume a: "space_inv sp" "0 < n" "n \<le> space_limit" "space_alloc temp n sp = (a, sp')" "a \<noteq> 0"
  obtain sz where res: "FreeListSpace_Alloc temp n sp = (a, sz, sp')"
    using a(4) by (auto simp: space_alloc_def split: prod.splits)
  show "space_inv sp' \<and> (\<exists>e. a + n \<le> e \<and> (a, e) \<notin> live sp \<and> live sp' = insert (a, e) (live sp))"
  proof (cases rule: space_alloc_cases [OF a(1-3) res])
    case 2
    note ok = 2
    have "n \<le> sz" using RoundUp_bounds(1) ok(3) by simp
    moreover have "(a, a + sz) \<notin> live sp" using ok(5) a(2) \<open>n \<le> sz\<close> by fastforce
    ultimately show ?thesis using ok by (intro conjI exI [of _ "a + sz"]) auto
  qed (use a(5) in simp)
next
  fix sp n sp' assume a: "space_inv sp" "0 < n" "n \<le> space_limit" "space_alloc temp n sp = (0, sp')"
  obtain sz where res: "FreeListSpace_Alloc temp n sp = (0, sz, sp')"
    using a(4) by (auto simp: space_alloc_def split: prod.splits)
  show "sp' = sp" by (rule space_alloc_cases [OF a(1-3) res]) simp_all
next
  fix sp a e assume "space_inv sp" "(a, e) \<in> live sp"
  from space_free_ok [OF this, of m]
  show "\<exists>s'. space_release m a sp = Some s' \<and> space_inv s' \<and> live s' = live sp - {(a, e)}"
    by (auto simp: space_release_def)
qed (rule live_wf live_disjoint; assumption)+

section \<open>Properties of the space\<close>

lemma Create_inv:
  assumes "FreeListSpace_Create (Some b) (Some t) n = Some sp" "0 < b" "n < 2 ^ 30 * kAlignment"
  shows "space_inv sp \<and> live sp = {} \<and> space_begin sp = b \<and> space_end sp = b + n"
proof -
  have "space_rep sp []"
    using assms by (auto simp: FreeListSpace_Create_def space_rep_def split: if_splits)
  then show ?thesis
    using assms live_rep [of sp "[]"]
    by (auto simp: space_inv_def FreeListSpace_Create_def split: if_splits)
qed

text \<open>A space of three pages at address 65536, empty.\<close>

definition demo_space :: FreeListSpace where
  "demo_space = \<lparr>space_begin = 65536, space_end = 65536 + 3 * kAlignment, allocation_info = 1024,
     infos = (\<lambda>_. new_AllocationInfo), free_end = 3 * kAlignment, free_blocks = [],
     num_bytes_allocated = 0, num_objects_allocated = 0, total_bytes_allocated = 0, total_objects_allocated = 0\<rparr>"

lemma demo_space: "space_inv demo_space" "live demo_space = {}"
proof -
  have "FreeListSpace_Create (Some 65536) (Some 1024) (3 * kAlignment) = Some demo_space"
    by (simp add: FreeListSpace_Create_def demo_space_def)
  from Create_inv [OF this] show "space_inv demo_space" "live demo_space = {}" by (simp_all add: demo_space_def)
qed

lemma demo_limit: "100 \<le> space_limit" "RoundUp 100 kAlignment = kAlignment"
  by (simp_all add: space_limit_def RoundUp_def kAlignment_def kPageSize_def)

lemma demo_alloc: "fst (FreeListSpace_Alloc 0 100 demo_space) = 65536"
  by (simp add: FreeListSpace_Alloc_def demo_space_def demo_limit fb_lower_bound_def Alloc_end_def
      Alloc_finish_def GetSlotIndexForAddress_def GetAddressForAllocationInfo_def Let_def)

text \<open>C17. \<^verbatim>\<open>Alloc\<close> on a well-formed space either returns the null pointer and changes nothing, or returns a
  page-aligned block inside the space, at least as big as asked and by less than a page bigger, that
  overlaps no live block; that block joins the live blocks, and the space stays well-formed (blocks
  tile the space, free blocks are coalesced, the ordered set holds exactly the blocks after a gap,
  the counters are right).\<close>

theorem Alloc_correct:
  assumes "space_inv sp" "0 < nb" "nb \<le> space_limit" "FreeListSpace_Alloc temp nb sp = (obj, sz, sp')"
  shows "if obj = 0 then sp' = sp
         else space_inv sp' \<and> nb \<le> sz \<and> sz < nb + kAlignment \<and>
              live sp' = insert (obj, obj + sz) (live sp) \<and>
              (\<forall>(b, f) \<in> live sp. f \<le> obj \<or> obj + sz \<le> b) \<and>
              space_begin sp \<le> obj \<and> obj + sz \<le> space_end sp \<and> (obj - space_begin sp) mod kAlignment = 0"
proof (cases rule: space_alloc_cases [OF assms])
  case 2
  then show ?thesis using RoundUp_bounds [of kAlignment nb] by simp
qed simp

theorem Alloc_correct_witness:
  "case FreeListSpace_Alloc 0 100 demo_space of (obj, sz, sp') \<Rightarrow> live sp' = {(65536, 65536 + sz)}"
proof -
  obtain obj sz sp' where r: "FreeListSpace_Alloc 0 100 demo_space = (obj, sz, sp')" by (metis prod_cases3)
  then have "obj = 65536" using demo_alloc by simp
  then show ?thesis
    using Alloc_correct [OF demo_space(1) _ demo_limit(1) r] r demo_space(2) by simp
qed

text \<open>C19. \<^verbatim>\<open>Alloc\<close> fails only when there is no room: if some page-aligned stretch of the rounded size lies
  inside the space and clear of every live block, the result is not the null pointer. Coalescing
  never leaves free memory that a later request cannot use.\<close>

theorem Alloc_finds_room:
  assumes inv: "space_inv sp" and nb: "0 < nb" "nb \<le> space_limit"
    and g: "g = space_begin sp + k * kAlignment" "g + RoundUp nb kAlignment \<le> space_end sp"
    and clear: "\<forall>(b, f) \<in> live sp. f \<le> g \<or> g + RoundUp nb kAlignment \<le> b"
  shows "fst (FreeListSpace_Alloc temp nb sp) \<noteq> 0"
proof
  assume z: "fst (FreeListSpace_Alloc temp nb sp) = 0"
  obtain sz sp' where res: "FreeListSpace_Alloc temp nb sp = (0, sz, sp')"
    using z by (cases "FreeListSpace_Alloc temp nb sp") auto
  show False
  proof (cases rule: space_alloc_cases [OF inv nb res])
    case (1 bs a)
    have r: "reps (infos sp) 0 0 bs" "prev_after 0 bs = 0" using 1(1) by (simp_all add: space_rep_def)
    show False
    proof (cases "k < total_size bs")
      case True
      have "k + a \<le> y \<or> y + n \<le> k" if y: "(y, n) \<in> set (allocated 0 bs)" for y n
      proof -
        have "block_range sp (y, n) \<in> live sp" using y live_rep [OF 1(1)] by auto
        then have "(y + n) * kAlignment \<le> k * kAlignment \<or> (k + a) * kAlignment \<le> y * kAlignment"
          using clear 1(3) g(1) by (auto simp: block_range_def add_mult_distrib)
        then show ?thesis by auto
      qed
      then have "\<exists>z \<in> after_free 0 0 bs. a \<le> GetPrevFree (infos sp z)"
        using gap_in_free_block [OF r 1(2), of k] True by auto
      then show False using 1(8) by auto
    next
      case False
      then have "total_size bs * kAlignment \<le> k * kAlignment" by simp
      moreover have "space_end sp = space_begin sp + total_size bs * kAlignment + free_end sp"
        using 1(1) by (simp add: space_rep_def)
      ultimately show False using 1(3,7) g by linarith
    qed
  qed simp
qed

theorem Alloc_finds_room_witness: "fst (FreeListSpace_Alloc 0 100 demo_space) \<noteq> 0"
  by (rule Alloc_finds_room [where k = 2, OF demo_space(1) _ demo_limit(1) refl])
     (simp_all add: demo_limit demo_space(2), simp add: demo_space_def)

text \<open>C18. \<^verbatim>\<open>Free\<close> of a live block fails none of its CHECKs, returns the block's size, zeroes the block's
  memory, removes exactly that block from the live blocks and leaves the space well-formed, whatever
  its neighbours are (free before, free after, both, none, or the free end).\<close>

theorem Free_correct:
  assumes "space_inv sp" "(obj, e) \<in> live sp"
  shows "\<exists>sp'. FreeListSpace_Free obj sp m = Some (e - obj, sp', zero_bytes m obj (e - obj)) \<and>
           space_inv sp' \<and> live sp' = live sp - {(obj, e)}"
  using space_free_ok [OF assms] .

lemma demo_alloc_live:
  obtains sp sz where "FreeListSpace_Alloc 0 100 demo_space = (65536, sz, sp)" "space_inv sp" "live sp = {(65536, 65536 + sz)}"
proof -
  obtain obj sz sp where r: "FreeListSpace_Alloc 0 100 demo_space = (obj, sz, sp)" by (metis prod_cases3)
  have "obj = 65536" using r demo_alloc by simp
  show thesis
  proof (cases rule: space_alloc_cases [OF demo_space(1) _ demo_limit(1) r])
    case 3
    then show thesis using that r \<open>obj = 65536\<close> demo_space(2) by simp
  qed (use \<open>obj = 65536\<close> in simp_all)
qed

theorem Free_correct_witness:
  "\<exists>sp sz sp' m'. FreeListSpace_Alloc 0 100 demo_space = (65536, sz, sp) \<and>
     FreeListSpace_Free 65536 sp (\<lambda>_. 7) = Some (sz, sp', m') \<and> live sp' = {}"
proof -
  obtain sp sz where r: "FreeListSpace_Alloc 0 100 demo_space = (65536, sz, sp)" "space_inv sp"
      "live sp = {(65536, 65536 + sz)}" by (rule demo_alloc_live)
  from Free_correct [OF r(2), of 65536 "65536 + sz" "\<lambda>_. 7"] r show ?thesis by auto
qed

text \<open>C21. Allocating and then freeing the new block leaves the set of live blocks as it was.\<close>

theorem Alloc_Free_roundtrip:
  assumes "space_inv sp" "0 < nb" "nb \<le> space_limit" "FreeListSpace_Alloc temp nb sp = (obj, sz, sp')" "obj \<noteq> 0"
  shows "\<exists>n sp'' m'. FreeListSpace_Free obj sp' m = Some (n, sp'', m') \<and> space_inv sp'' \<and> live sp'' = live sp"
  using fl.alloc_release [OF assms(1-3), of temp obj sp' m] assms(4,5)
  by (auto simp: space_alloc_def space_release_def)

theorem Alloc_Free_roundtrip_witness:
  "\<exists>sz sp n sp' m'. FreeListSpace_Alloc 0 100 demo_space = (65536, sz, sp) \<and>
     FreeListSpace_Free 65536 sp (\<lambda>_. 7) = Some (n, sp', m') \<and> live sp' = {}"
proof -
  obtain sp sz where r: "FreeListSpace_Alloc 0 100 demo_space = (65536, sz, sp)" by (rule demo_alloc_live)
  from Alloc_Free_roundtrip [OF demo_space(1) _ demo_limit(1) r, of "\<lambda>_. 7"] r demo_space(2) show ?thesis by auto
qed

text \<open>C20. Best fit: when some free block is big enough, \<^verbatim>\<open>Alloc\<close> returns the start of a smallest one that is
  and leaves the free end alone; otherwise it takes the first pages of the free end when that is big
  enough; otherwise it returns the null pointer and changes nothing.\<close>

theorem Alloc_best_fit:
  assumes rep: "space_rep sp bs" and nb: "0 < nb" "nb \<le> space_limit"
    and res: "FreeListSpace_Alloc temp nb sp = (obj, sz, sp')"
  shows "if \<exists>(s, n) \<in> set (vacant 0 bs). RoundUp nb kAlignment \<le> n * kAlignment
         then (\<exists>(s, n) \<in> set (vacant 0 bs). RoundUp nb kAlignment \<le> n * kAlignment \<and>
                (\<forall>(s', n') \<in> set (vacant 0 bs). RoundUp nb kAlignment \<le> n' * kAlignment \<longrightarrow> n \<le> n') \<and>
                obj = space_begin sp + s * kAlignment \<and> free_end sp' = free_end sp)
         else if RoundUp nb kAlignment \<le> free_end sp
         then obj = space_end sp - free_end sp \<and> free_end sp' = free_end sp - RoundUp nb kAlignment
         else obj = 0 \<and> sp' = sp"
proof -
  obtain a where a: "0 < a" "a < 2 ^ 30" and A: "RoundUp nb kAlignment = a * kAlignment" by (rule alloc_slots [OF nb])
  let ?find = "List.find (\<lambda>y. a \<le> GetPrevFree (infos sp y)) (free_blocks sp)"
  have r: "reps (infos sp) 0 0 bs" "set (free_blocks sp) = after_free 0 0 bs" "prev_after 0 bs = 0"
      "sorted_wrt (fb_less sp (infos sp)) (free_blocks sp)"
    using rep unfolding space_rep_def by blast+
  have big: "a \<le> GetPrevFree (infos sp (s + n)) \<and> s + n \<in> set (free_blocks sp) \<and> GetPrevFree (infos sp (s + n)) = n"
    if "(s, n) \<in> set (vacant 0 bs)" "a \<le> n" for s n
    using vacant_after_free [OF r(1,3) that(1)] that(2) r(2) by simp
  note res = res [unfolded FreeListSpace_Alloc_def Let_def A fb_lower_bound_fit [OF rep a(2)]]
  show ?thesis
  proof (cases ?find)
    case None
    then have "\<not> (\<exists>(s, n) \<in> set (vacant 0 bs). RoundUp nb kAlignment \<le> n * kAlignment)"
      using big by (auto simp: A find_None_iff)
    then show ?thesis using None res Alloc_end_place [OF rep, of "a * kAlignment"]
      by (auto simp: A split: option.splits)
  next
    case (Some i)
    then have i: "i \<in> after_free 0 0 bs" "a \<le> GetPrevFree (infos sp i)" using r(2) by (auto simp: find_Some_iff)
    from i(1) obtain xs p n ys where bs: "bs = xs @ (True, p) # (False, n) # ys" and ip: "i = total_size xs + p"
        "GetPrevFree (infos sp i) = p" by (rule after_free_block [OF _ r(1)]) metis
    have v: "(total_size xs, p) \<in> set (vacant 0 bs)" by (simp add: bs)
    have least: "\<forall>(s', n') \<in> set (vacant 0 bs). a \<le> n' \<longrightarrow> p \<le> n'"
      using find_first_min [OF r(4) Some] big ip(2) by fastforce
    have "obj = space_begin sp + total_size xs * kAlignment \<and> free_end sp' = free_end sp"
      using res Some Alloc_fit_place(1,3) [of i "a * kAlignment" sp] ip
        Alloc_fit_place(2) [of "fst (Alloc_fit i (a * kAlignment) sp)" "a * kAlignment" "snd (Alloc_fit i (a * kAlignment) sp)"]
      by (auto split: prod.splits)
    then show ?thesis using v least i(2) ip(2) by (auto simp: A)
  qed
qed

text \<open>The same space with a free page, an allocated page and a free end.\<close>

definition demo_gap_space :: FreeListSpace where
  "demo_gap_space = demo_space\<lparr>
     infos := (\<lambda>_. new_AllocationInfo)(0 := \<lparr>prev_free = 0, alloc_size = 0x80000001\<rparr>, 1 := \<lparr>prev_free = 1, alloc_size = 1\<rparr>),
     free_end := kAlignment, free_blocks := [1], num_bytes_allocated := kAlignment, num_objects_allocated := 1\<rparr>"

theorem Alloc_best_fit_witness:
  "space_rep demo_gap_space [(True, 1), (False, 1)] \<and> fst (FreeListSpace_Alloc 0 100 demo_gap_space) = 65536"
proof -
  have rep: "space_rep demo_gap_space [(True, 1), (False, 1)]"
    by (simp add: space_rep_def demo_gap_space_def demo_space_def AlignSize_def IsFree_def GetPrevFree_def
        kFlagsMask_def kFlagFree_def kFlagZygote_def)
  obtain obj sz sp' where r: "FreeListSpace_Alloc 0 100 demo_gap_space = (obj, sz, sp')" by (metis prod_cases3)
  have "space_begin demo_gap_space = 65536" by (simp add: demo_gap_space_def demo_space_def)
  then show ?thesis using Alloc_best_fit [OF rep _ demo_limit(1) r] r rep by (simp add: demo_limit)
qed

end
