(* ===== verification/Object_Model.thy ===== *)
theory Object_Model
  imports Free_List_Space
begin

text \<open>
  Objects as seen by the swap code and the collectors (src/runtime/mirror/object-inl.h,
  array-inl.h, string-inl.h, class-inl.h, class.h and class\_linker.cc): class metadata, sizes,
  field access with the read, write and dirty bits, and the enumeration of reference fields.

  Class metadata is a table from class addresses to records; the fields of \<^verbatim>\<open>Class\<close> objects are not
  laid out in memory and their own read bits are not tracked, since classes are never swapped. The
  operations here are the bodies that run on a real object; the dispatch through a stub
  (\<^verbatim>\<open>SWAP_PREAMBLE\<close>) is in the theory of object access. Read barriers, heap poisoning, transactions,
  volatile orderings and heap verification are off, as in the default build.
\<close>

section \<open>Class metadata\<close>

record class_info =
  klass_of :: addr
  super_class :: addr
  component_type :: addr
  primitive_type :: nat
  primitive_size_shift :: nat
  class_flags :: "32 word"
  object_size :: nat
  class_size :: nat
  num_reference_instance_fields :: nat
  reference_instance_offsets :: "32 word"
  is_resolved :: bool
  num_reference_static_fields :: nat
  first_reference_static_offset :: nat

type_synonym classes = "addr \<Rightarrow> class_info"

definition kClassFlagNormal :: "32 word" where "kClassFlagNormal = 0x00000000"
definition kClassFlagNoReferenceFields :: "32 word" where "kClassFlagNoReferenceFields = 0x00000001"
definition kClassFlagString :: "32 word" where "kClassFlagString = 0x00000004"
definition kClassFlagObjectArray :: "32 word" where "kClassFlagObjectArray = 0x00000008"
definition kClassFlagClass :: "32 word" where "kClassFlagClass = 0x00000010"
definition kClassFlagClassLoader :: "32 word" where "kClassFlagClassLoader = 0x00000020"
definition kClassFlagDexCache :: "32 word" where "kClassFlagDexCache = 0x00000040"
definition kClassFlagSoftReference :: "32 word" where "kClassFlagSoftReference = 0x00000080"
definition kClassFlagWeakReference :: "32 word" where "kClassFlagWeakReference = 0x00000100"
definition kClassFlagFinalizerReference :: "32 word" where "kClassFlagFinalizerReference = 0x00000200"
definition kClassFlagPhantomReference :: "32 word" where "kClassFlagPhantomReference = 0x00000400"

definition kClassFlagReference :: "32 word" where
  "kClassFlagReference =
     kClassFlagSoftReference OR kClassFlagWeakReference OR kClassFlagFinalizerReference OR
     kClassFlagPhantomReference"

definition kClassWalkSuper :: "32 word" where "kClassWalkSuper = 0xC0000000"

definition IsPrimitive :: "classes \<Rightarrow> addr \<Rightarrow> bool" where
  "IsPrimitive ct k \<longleftrightarrow> primitive_type (ct k) \<noteq> 0"

definition IsArrayClass :: "classes \<Rightarrow> addr \<Rightarrow> bool" where
  "IsArrayClass ct k \<longleftrightarrow> component_type (ct k) \<noteq> 0"

definition IsStringClass :: "classes \<Rightarrow> addr \<Rightarrow> bool" where
  "IsStringClass ct k \<longleftrightarrow> class_flags (ct k) AND kClassFlagString \<noteq> 0"

definition IsClassLoaderClass :: "classes \<Rightarrow> addr \<Rightarrow> bool" where
  "IsClassLoaderClass ct k \<longleftrightarrow> class_flags (ct k) = kClassFlagClassLoader"

definition IsDexCacheClass :: "classes \<Rightarrow> addr \<Rightarrow> bool" where
  "IsDexCacheClass ct k \<longleftrightarrow> class_flags (ct k) AND kClassFlagDexCache \<noteq> 0"

definition IsTypeOfReferenceClass :: "classes \<Rightarrow> addr \<Rightarrow> bool" where
  "IsTypeOfReferenceClass ct k \<longleftrightarrow> class_flags (ct k) AND kClassFlagReference \<noteq> 0"

definition GetComponentSizeShift :: "classes \<Rightarrow> addr \<Rightarrow> nat" where
  "GetComponentSizeShift ct k = primitive_size_shift (ct (component_type (ct k)))"

text \<open>The offset of the first reference field a class declares; \<^verbatim>\<open>ClassOffset()\<close> is 0.\<close>

definition GetFirstReferenceInstanceFieldOffset :: "classes \<Rightarrow> addr \<Rightarrow> nat" where
  "GetFirstReferenceInstanceFieldOffset ct k =
     (let super = super_class (ct k)
      in if super \<noteq> 0 then RoundUp (object_size (ct super)) 4 else 0)"

text \<open>The bitmap of reference offsets the class linker computes for a class.\<close>

definition CreateReferenceInstanceOffsets :: "classes \<Rightarrow> addr \<Rightarrow> 32 word" where
  "CreateReferenceInstanceOffsets ct k =
     (let super = super_class (ct k) in
      if super = 0 then 0
      else
        let reference_offsets = reference_instance_offsets (ct super) in
        if reference_offsets = kClassWalkSuper then reference_offsets
        else
          let num_reference_fields = num_reference_instance_fields (ct k) in
          if num_reference_fields = 0 then reference_offsets
          else
            let start_offset = RoundUp (object_size (ct super)) 4;
                start_bit = (start_offset - kObjectHeaderSize) div 4
            in if start_bit + num_reference_fields > 32 then kClassWalkSuper
               else reference_offsets OR
                    (push_bit start_bit 0xffffffff AND
                     drop_bit (32 - (start_bit + num_reference_fields)) 0xffffffff))"

text \<open>A class and its super classes, up to the root; None for a cyclic chain.\<close>

partial_function (option) class_chain :: "classes \<Rightarrow> addr \<Rightarrow> addr list option" where
  "class_chain ct k =
     (if k = 0 then Some []
      else do {
        ks \<leftarrow> class_chain ct (super_class (ct k));
        Some (k # ks)
      })"

section \<open>Field access on a real object\<close>

text \<open>A read sets the read bit, unless the ignore-read flag is set.\<close>

definition mark_read :: "mem \<Rightarrow> addr \<Rightarrow> mem" where
  "mark_read m obj = (if \<not> GetIgnoreReadFlag m obj then SetReadBit m obj else m)"

definition raw_GetField :: "nat \<Rightarrow> mem \<Rightarrow> addr \<Rightarrow> nat \<Rightarrow> nat \<times> mem" where
  "raw_GetField size' m obj field_offset =
     (let m = mark_read m obj in (load m (obj + field_offset) size', m))"

definition raw_SetField :: "nat \<Rightarrow> mem \<Rightarrow> addr \<Rightarrow> nat \<Rightarrow> nat \<Rightarrow> mem" where
  "raw_SetField size' m obj field_offset new_value =
     SetDirtyBit (SetWriteBit (store m (obj + field_offset) size' new_value) obj) obj"

text \<open>A compressed reference is the low 32 bits of the address.\<close>

definition raw_GetFieldObject :: "mem \<Rightarrow> addr \<Rightarrow> nat \<Rightarrow> addr \<times> mem" where
  "raw_GetFieldObject m obj field_offset =
     (let m = mark_read m obj in (load m (obj + field_offset) 4, m))"

definition raw_SetFieldObjectWithoutWriteBarrier :: "mem \<Rightarrow> addr \<Rightarrow> nat \<Rightarrow> addr \<Rightarrow> mem" where
  "raw_SetFieldObjectWithoutWriteBarrier m obj field_offset new_value =
     SetDirtyBit (SetWriteBit (store m (obj + field_offset) 4 new_value) obj) obj"

text \<open>Compare-and-set of a field: neither the write bit nor the dirty bit is touched.\<close>

definition raw_CasField :: "nat \<Rightarrow> mem \<Rightarrow> addr \<Rightarrow> nat \<Rightarrow> nat \<Rightarrow> nat \<Rightarrow> bool \<times> mem" where
  "raw_CasField size' m obj field_offset old_value new_value =
     (if load m (obj + field_offset) size' = old_value mod 256 ^ size'
      then (True, store m (obj + field_offset) size' new_value)
      else (False, m))"

definition raw_GetClass :: "mem \<Rightarrow> addr \<Rightarrow> addr \<times> mem" where
  "raw_GetClass m obj = raw_GetFieldObject m obj 0"

section \<open>Sizes\<close>

definition kObjectAlignment :: nat where "kObjectAlignment = 8"

definition Array_DataOffset :: "nat \<Rightarrow> nat" where
  "Array_DataOffset component_size = RoundUp 20 component_size"

text \<open>An \<^verbatim>\<open>int32_t\<close> value converted to the 64-bit \<^verbatim>\<open>size_t\<close>; the lengths of arrays and strings and the shift of an
  array's length are of that type.\<close>

definition int_to_size :: "int \<Rightarrow> nat" where
  "int_to_size i = nat (signed_take_bit 31 i mod 2 ^ 64)"

definition Array_SizeOf :: "classes \<Rightarrow> mem \<Rightarrow> addr \<Rightarrow> nat \<times> mem" where
  "Array_SizeOf ct m obj =
     (let (k, m) = raw_GetClass m obj;
          component_size_shift = GetComponentSizeShift ct k;
          (component_count, m) = raw_GetField 4 m obj 16;
          header_size = Array_DataOffset (2 ^ component_size_shift);
          data_size = int_to_size (int component_count * 2 ^ component_size_shift)
      in ((header_size + data_size) mod 2 ^ 64, m))"

definition String_SizeOf :: "mem \<Rightarrow> addr \<Rightarrow> nat \<times> mem" where
  "String_SizeOf m obj =
     (let (len, m) = raw_GetField 4 m obj 16;
          size' = (24 + 2 * int_to_size (int len)) mod 2 ^ 64
      in (RoundUp size' kObjectAlignment, m))"

definition raw_SizeOf :: "classes \<Rightarrow> mem \<Rightarrow> addr \<Rightarrow> nat \<times> mem" where
  "raw_SizeOf ct m obj =
     (let (k, m) = raw_GetClass m obj in
      if IsArrayClass ct k then Array_SizeOf ct m obj
      else
        let java_lang_Class = klass_of (ct k);
            (k, m) = raw_GetClass m obj
        in if k = java_lang_Class then (class_size (ct obj), m)
           else
             let (k, m) = raw_GetClass m obj in
             if IsStringClass ct k then String_SizeOf m obj
             else
               let (k, m) = raw_GetClass m obj in (object_size (ct k), m))"

text \<open>Which objects the swap code may take out of the heap (src/runtime/marvin\_common.h). Each type
  test reads the object's class.\<close>

definition objectIsSwappableType :: "classes \<Rightarrow> mem \<Rightarrow> addr \<Rightarrow> bool \<times> mem" where
  "objectIsSwappableType ct m obj =
     (let (k, m) = raw_GetClass m obj;
          is_array = IsArrayClass ct k;
          is_object_array = (is_array \<and> \<not> IsPrimitive ct (component_type (ct k)));
          is_class = (k = klass_of (ct k))
      in (is_array \<and> \<not> is_object_array \<or>
          \<not> is_array \<and> \<not> is_class \<and> \<not> IsClassLoaderClass ct k \<and> \<not> IsDexCacheClass ct k \<and>
          \<not> IsStringClass ct k \<and> \<not> IsTypeOfReferenceClass ct k,
          m))"

section \<open>Visiting references\<close>

text \<open>A visitor gets the object and the offset of a reference field and may change its own state and
  memory; None is a failed CHECK.\<close>

type_synonym 's visitor = "addr \<Rightarrow> nat \<Rightarrow> 's \<times> mem \<Rightarrow> ('s \<times> mem) option"

fun visit_offsets :: "'s visitor \<Rightarrow> addr \<Rightarrow> nat list \<Rightarrow> 's \<times> mem \<Rightarrow> ('s \<times> mem) option" where
  "visit_offsets visitor obj [] st = Some st"
| "visit_offsets visitor obj (off # offs) st = do {
     st \<leftarrow> visitor obj off st;
     visit_offsets visitor obj offs st
   }"

text \<open>The fast path: bit \<open>i\<close> of the bitmap stands for the field at offset \<open>16 + 4 * i\<close>.\<close>

function fast_offsets :: "32 word \<Rightarrow> nat \<Rightarrow> nat list" where
  "fast_offsets ref_offsets field_offset =
     (if ref_offsets = 0 then []
      else (if ref_offsets AND 1 \<noteq> 0 then [field_offset] else []) @
           fast_offsets (drop_bit 1 ref_offsets) (field_offset + 4))"
  by pat_completeness auto
termination
proof (relation "measure (\<lambda>(w, _). unat w)", goal_cases)
  case (2 w off)
  then have "0 < unat w" by (simp add: unat_gt_0)
  then show ?case by (simp add: drop_bit_eq_div unat_div)
qed simp

declare fast_offsets.simps [simp del]

text \<open>The slow path: the reference fields of a class and of each of its super classes, except the
  class field itself.\<close>

definition class_offsets :: "classes \<Rightarrow> addr \<Rightarrow> nat list" where
  "class_offsets ct k =
     filter (\<lambda>field_offset. field_offset \<noteq> 0)
       (map (\<lambda>i. GetFirstReferenceInstanceFieldOffset ct k + i * 4) [0..<num_reference_instance_fields (ct k)])"

definition slow_offsets :: "classes \<Rightarrow> addr \<Rightarrow> nat list option" where
  "slow_offsets ct k = map_option (\<lambda>ks. concat (map (class_offsets ct) ks)) (class_chain ct k)"

definition static_offsets :: "classes \<Rightarrow> addr \<Rightarrow> nat list" where
  "static_offsets ct k =
     filter (\<lambda>field_offset. field_offset \<noteq> 0)
       (map (\<lambda>i. first_reference_static_offset (ct k) + i * 4) [0..<num_reference_static_fields (ct k)])"

definition raw_VisitFieldsReferences ::
  "classes \<Rightarrow> 's visitor \<Rightarrow> addr \<Rightarrow> 32 word \<Rightarrow> 's \<times> mem \<Rightarrow> ('s \<times> mem) option" where
  "raw_VisitFieldsReferences ct visitor obj ref_offsets st =
     (if ref_offsets \<noteq> kClassWalkSuper then
        visit_offsets visitor obj (fast_offsets ref_offsets kObjectHeaderSize) st
      else do {
        let (k, m) = raw_GetClass (snd st) obj;
        offs \<leftarrow> slow_offsets ct k;
        visit_offsets visitor obj offs (fst st, m)
      })"

definition raw_VisitInstanceFieldsReferences ::
  "classes \<Rightarrow> 's visitor \<Rightarrow> addr \<Rightarrow> addr \<Rightarrow> 's \<times> mem \<Rightarrow> ('s \<times> mem) option" where
  "raw_VisitInstanceFieldsReferences ct visitor obj k st =
     raw_VisitFieldsReferences ct visitor obj (reference_instance_offsets (ct k)) st"

definition Class_VisitReferences ::
  "classes \<Rightarrow> 's visitor \<Rightarrow> addr \<Rightarrow> addr \<Rightarrow> 's \<times> mem \<Rightarrow> ('s \<times> mem) option" where
  "Class_VisitReferences ct visitor obj k st = do {
     st \<leftarrow> raw_VisitInstanceFieldsReferences ct visitor obj k st;
     if is_resolved (ct obj) then visit_offsets visitor obj (static_offsets ct obj) st else Some st
   }"

definition ObjectArray_VisitReferences :: "'s visitor \<Rightarrow> addr \<Rightarrow> 's \<times> mem \<Rightarrow> ('s \<times> mem) option" where
  "ObjectArray_VisitReferences visitor obj st =
     (let (len, m) = raw_GetField 4 (snd st) obj 16
      in visit_offsets visitor obj (map (\<lambda>i. Array_DataOffset 4 + i * 4) [0..<len]) (fst st, m))"

text \<open>The visitors of the swap code ignore native roots, so the roots that classes, class loaders and
  dex caches hold outside the heap do not appear. \<open>ref_visitor\<close> is called for reference objects.\<close>

definition raw_VisitReferences ::
  "classes \<Rightarrow> 's visitor \<Rightarrow> (addr \<Rightarrow> 's \<times> mem \<Rightarrow> ('s \<times> mem) option) \<Rightarrow> addr \<Rightarrow> 's \<times> mem \<Rightarrow> ('s \<times> mem) option"
  where
  "raw_VisitReferences ct visitor ref_visitor obj st = do {
     let st = (fst st, SetIgnoreReadFlag (snd st) obj);
     st \<leftarrow> visitor obj 0 st;
     let (k, m) = raw_GetClass (snd st) obj;
     let st = (fst st, m);
     let flags = class_flags (ct k);
     st \<leftarrow>
       (if flags = kClassFlagNormal then raw_VisitInstanceFieldsReferences ct visitor obj k st
        else if flags AND kClassFlagNoReferenceFields = 0 then
          (if flags = kClassFlagClass then Class_VisitReferences ct visitor obj k st
           else if flags = kClassFlagObjectArray then ObjectArray_VisitReferences visitor obj st
           else if flags AND kClassFlagReference \<noteq> 0 then do {
             st \<leftarrow> raw_VisitInstanceFieldsReferences ct visitor obj k st;
             ref_visitor obj st
           }
           else raw_VisitInstanceFieldsReferences ct visitor obj k st)
        else Some st);
     Some (fst st, ClearIgnoreReadFlag (snd st) obj)
   }"

section \<open>The linked layout of classes\<close>

text \<open>What the class linker establishes of a class and its super classes: the root declares one
  reference, its class, and has the size of the header; a subclass puts its own references after
  the super class's fields and gets the bitmap computed from the super class's.\<close>

inductive linked :: "classes \<Rightarrow> addr \<Rightarrow> bool" for ct where
  linked_root: "k \<noteq> 0 \<Longrightarrow> super_class (ct k) = 0 \<Longrightarrow> num_reference_instance_fields (ct k) = 1 \<Longrightarrow>
     object_size (ct k) = kObjectHeaderSize \<Longrightarrow>
     reference_instance_offsets (ct k) = CreateReferenceInstanceOffsets ct k \<Longrightarrow> linked ct k"
| linked_sub: "k \<noteq> 0 \<Longrightarrow> super_class (ct k) \<noteq> 0 \<Longrightarrow> linked ct (super_class (ct k)) \<Longrightarrow>
     RoundUp (object_size (ct (super_class (ct k)))) 4 + num_reference_instance_fields (ct k) * 4 \<le> object_size (ct k) \<Longrightarrow>
     reference_instance_offsets (ct k) = CreateReferenceInstanceOffsets ct k \<Longrightarrow> linked ct k"

lemma fast_offsets_eq:
  "unat w < 2 ^ n \<Longrightarrow> fast_offsets w off = map (\<lambda>i. off + i * 4) (filter (bit w) [0..<n])"
proof (induction w off arbitrary: n rule: fast_offsets.induct)
  case (1 w off)
  show ?case
  proof (cases "w = 0")
    case True
    then show ?thesis by (simp add: fast_offsets.simps)
  next
    case False
    then obtain k where n: "n = Suc k" using 1(2) by (cases n) (auto simp: unat_eq_0)
    have "unat (drop_bit 1 w) < 2 ^ k"
      using 1(2) n by (simp add: drop_bit_eq_div unat_div)
    then have ih: "fast_offsets (drop_bit 1 w) (off + 4) =
        map (\<lambda>i. off + 4 + i * 4) (filter (bit (drop_bit 1 w)) [0..<k])"
      using 1(1) False by simp
    have odd: "w AND 1 \<noteq> 0 \<longleftrightarrow> bit w 0" by (simp add: and_one_eq bit_0 odd_iff_mod_2_eq_one)
    have upt: "[0..<Suc k] = 0 # map Suc [0..<k]" by (simp add: upt_conv_Cons map_Suc_upt del: upt_Suc)
    have shift: "bit (drop_bit 1 w) = (\<lambda>i. bit w (Suc i))" by (simp add: fun_eq_iff bit_drop_bit_eq)
    show ?thesis
      using False by (subst fast_offsets.simps) (simp add: odd ih [unfolded shift, simplified] n upt filter_map o_def algebra_simps del: upt_Suc)
  qed
qed

lemma fast_offsets_bits: "fast_offsets w off = map (\<lambda>i. off + i * 4) (filter (bit w) [0..<32])"
  by (rule fast_offsets_eq) (use unsigned_less [of w] in simp)

lemma RoundUp_4: "RoundUp n 4 mod 4 = 0" "n \<le> RoundUp n 4"
  using RoundUp_bounds(1) [of 4 n] by (simp_all add: RoundUp_def)

lemma ref_mask_bits:
  "s + n \<le> 32 \<Longrightarrow>
     bit (push_bit s 0xffffffff AND drop_bit (32 - (s + n)) 0xffffffff :: 32 word) i \<longleftrightarrow> s \<le> i \<and> i < s + n"
  by (auto simp: bit_simps)

lemma linked_size: "linked ct k \<Longrightarrow> kObjectHeaderSize \<le> object_size (ct k)"
proof (induction rule: linked.induct)
  case (linked_sub k)
  then show ?case using RoundUp_4(2) [of "object_size (ct (super_class (ct k)))"] by linarith
qed simp

lemma class_offsets_sub:
  assumes "super_class (ct k) \<noteq> 0" "kObjectHeaderSize \<le> object_size (ct (super_class (ct k)))"
  shows "class_offsets ct k =
    map (\<lambda>i. RoundUp (object_size (ct (super_class (ct k)))) 4 + i * 4) [0..<num_reference_instance_fields (ct k)]"
proof -
  have "0 < RoundUp (object_size (ct (super_class (ct k)))) 4"
    using assms(2) RoundUp_4(2) [of "object_size (ct (super_class (ct k)))"] by (simp add: kObjectHeaderSize_def)
  then show ?thesis
    using assms(1) by (simp add: class_offsets_def GetFirstReferenceInstanceFieldOffset_def filter_True)
qed

lemma linked_chain: "linked ct k \<Longrightarrow> \<exists>ks. class_chain ct k = Some ks"
proof (induction rule: linked.induct)
  case (linked_root k)
  then show ?case by (subst class_chain.simps) (simp, subst class_chain.simps, simp)
next
  case (linked_sub k)
  then show ?case by (subst class_chain.simps) auto
qed

lemma slow_offsets_sub:
  assumes "k \<noteq> 0"
  shows "slow_offsets ct k =
    (if super_class (ct k) = 0 then Some (class_offsets ct k)
     else map_option (\<lambda>offs. class_offsets ct k @ offs) (slow_offsets ct (super_class (ct k))))"
  using assms class_chain.simps [of ct 0]
  by (simp add: slow_offsets_def class_chain.simps [of ct k] option.map_comp o_def map_conv_bind_option)

text \<open>The slow path's offsets: distinct, aligned, behind the header and inside the object.\<close>

lemma slow_offsets_linked:
  "linked ct k \<Longrightarrow> \<exists>offs. slow_offsets ct k = Some offs \<and> distinct offs \<and>
     (\<forall>off \<in> set offs. kObjectHeaderSize \<le> off \<and> off + 4 \<le> object_size (ct k) \<and> off mod 4 = 0)"
proof (induction rule: linked.induct)
  case (linked_root k)
  then have "class_offsets ct k = []"
    by (simp add: class_offsets_def GetFirstReferenceInstanceFieldOffset_def)
  then show ?case using linked_root by (simp add: slow_offsets_sub [OF linked_root(1)])
next
  case (linked_sub k)
  let ?s = "super_class (ct k)" and ?first = "RoundUp (object_size (ct (super_class (ct k)))) 4"
  obtain offs where offs: "slow_offsets ct ?s = Some offs" "distinct offs"
      "\<forall>off \<in> set offs. kObjectHeaderSize \<le> off \<and> off + 4 \<le> object_size (ct ?s) \<and> off mod 4 = 0"
    using linked_sub.IH by blast
  have own: "class_offsets ct k = map (\<lambda>i. ?first + i * 4) [0..<num_reference_instance_fields (ct k)]"
    using linked_sub by (intro class_offsets_sub linked_size)
  have first: "object_size (ct ?s) \<le> ?first" "?first mod 4 = 0" by (simp_all add: RoundUp_4)
  have "distinct (class_offsets ct k)" unfolding own by (simp add: distinct_map inj_on_def)
  moreover have "set (class_offsets ct k) \<inter> set offs = {}" using offs(3) first unfolding own by fastforce
  moreover have "\<forall>off \<in> set (class_offsets ct k).
      kObjectHeaderSize \<le> off \<and> off + 4 \<le> object_size (ct k) \<and> off mod 4 = 0"
  proof
    fix off assume "off \<in> set (class_offsets ct k)"
    then obtain i where i: "i < num_reference_instance_fields (ct k)" "off = ?first + i * 4" unfolding own by auto
    then show "kObjectHeaderSize \<le> off \<and> off + 4 \<le> object_size (ct k) \<and> off mod 4 = 0"
      using first linked_sub linked_size [of ct ?s] by auto
  qed
  moreover have "\<forall>off \<in> set offs. kObjectHeaderSize \<le> off \<and> off + 4 \<le> object_size (ct k) \<and> off mod 4 = 0"
    using offs(3) first linked_sub by fastforce
  ultimately show ?case using linked_sub.hyps(2) offs by (auto simp: slow_offsets_sub [OF linked_sub.hyps(1)])
qed

lemma CreateReferenceInstanceOffsets_bits:
  assumes "super_class (ct k) \<noteq> 0" "CreateReferenceInstanceOffsets ct k \<noteq> kClassWalkSuper"
    and "kObjectHeaderSize \<le> object_size (ct (super_class (ct k)))"
  shows "reference_instance_offsets (ct (super_class (ct k))) \<noteq> kClassWalkSuper"
    and "bit (CreateReferenceInstanceOffsets ct k) i \<longleftrightarrow>
      bit (reference_instance_offsets (ct (super_class (ct k)))) i \<or>
      i < 32 \<and> kObjectHeaderSize + i * 4 \<in> set (class_offsets ct k)"
    and "off \<in> set (class_offsets ct k) \<Longrightarrow> off < kObjectHeaderSize + 32 * 4"
proof -
  let ?s = "super_class (ct k)" and ?n = "num_reference_instance_fields (ct k)"
  let ?first = "RoundUp (object_size (ct (super_class (ct k)))) 4"
  define b where "b = (?first - kObjectHeaderSize) div 4"
  show ne: "reference_instance_offsets (ct ?s) \<noteq> kClassWalkSuper"
    using assms(1,2) by (auto simp: CreateReferenceInstanceOffsets_def)
  have "kObjectHeaderSize \<le> ?first" "?first mod 4 = 0"
    using assms(3) RoundUp_4 [of "object_size (ct ?s)"] by auto
  then have first: "?first = kObjectHeaderSize + b * 4"
    by (simp add: b_def kObjectHeaderSize_def) presburger
  have own: "class_offsets ct k = map (\<lambda>i. kObjectHeaderSize + (b + i) * 4) [0..<?n]"
    using class_offsets_sub [OF assms(1,3)] by (simp add: first add_mult_distrib add.assoc)
  have mem: "kObjectHeaderSize + i * 4 \<in> set (class_offsets ct k) \<longleftrightarrow> b \<le> i \<and> i < b + ?n"
    unfolding own by (auto simp: image_iff intro: exI [of _ "i - b"] bexI [of _ "i - b"])
  have le: "?n \<noteq> 0 \<Longrightarrow> b + ?n \<le> 32"
    using assms(1,2) ne unfolding CreateReferenceInstanceOffsets_def b_def [symmetric]
    by (auto simp: Let_def b_def split: if_splits)
  show "off \<in> set (class_offsets ct k) \<Longrightarrow> off < kObjectHeaderSize + 32 * 4" using le unfolding own by fastforce
  show "bit (CreateReferenceInstanceOffsets ct k) i \<longleftrightarrow>
      bit (reference_instance_offsets (ct ?s)) i \<or> i < 32 \<and> kObjectHeaderSize + i * 4 \<in> set (class_offsets ct k)"
  proof (cases "?n = 0")
    case False
    then have "CreateReferenceInstanceOffsets ct k = reference_instance_offsets (ct ?s) OR
        (push_bit b 0xffffffff AND drop_bit (32 - (b + ?n)) 0xffffffff)"
      using assms(1) ne le by (simp add: CreateReferenceInstanceOffsets_def Let_def b_def)
    then show ?thesis
      using le [OF False] ref_mask_bits [of b ?n i] unfolding mem by (auto simp: bit_or_iff simp del: bit_and_iff)
  next
    case True
    then have "CreateReferenceInstanceOffsets ct k = reference_instance_offsets (ct ?s)"
      using assms(1) ne by (simp add: CreateReferenceInstanceOffsets_def)
    then show ?thesis using True mem by auto
  qed
qed

lemma set_fast_offsets: "set (fast_offsets w off) = {off + i * 4 |i. i < 32 \<and> bit w i}"
proof -
  have "set (fast_offsets w off) = (\<lambda>i. off + i * 4) ` {i \<in> {0..<32}. bit w i}"
    by (simp only: fast_offsets_bits set_map set_filter set_upt)
  then show ?thesis by (auto simp only: image_Collect atLeastLessThan_iff)
qed

lemma distinct_fast_offsets: "distinct (fast_offsets w off)"
proof -
  have inj: "inj_on (\<lambda>i. off + i * 4) A" for A :: "nat set" by (simp add: inj_on_def)
  show ?thesis by (simp only: fast_offsets_bits distinct_map distinct_filter distinct_upt inj simp_thms)
qed

lemma fast_eq_slow:
  "linked ct k \<Longrightarrow> reference_instance_offsets (ct k) \<noteq> kClassWalkSuper \<Longrightarrow> slow_offsets ct k = Some offs \<Longrightarrow>
     set (fast_offsets (reference_instance_offsets (ct k)) kObjectHeaderSize) = set offs"
proof (induction arbitrary: offs rule: linked.induct)
  case (linked_root k)
  then have "class_offsets ct k = []"
    by (simp add: class_offsets_def GetFirstReferenceInstanceFieldOffset_def)
  then show ?case
    using linked_root by (simp add: slow_offsets_sub [OF linked_root(1)] CreateReferenceInstanceOffsets_def set_fast_offsets)
next
  case (linked_sub k)
  let ?s = "super_class (ct k)"
  obtain offs1 where offs1: "slow_offsets ct ?s = Some offs1" "offs = class_offsets ct k @ offs1"
    using linked_sub.hyps(2) linked_sub.prems(2) by (auto simp: slow_offsets_sub [OF linked_sub.hyps(1)])
  have sz: "kObjectHeaderSize \<le> object_size (ct ?s)" using linked_sub.hyps(3) by (rule linked_size)
  have ne: "CreateReferenceInstanceOffsets ct k \<noteq> kClassWalkSuper" using linked_sub.hyps(5) linked_sub.prems(1) by simp
  note bits = CreateReferenceInstanceOffsets_bits [OF linked_sub.hyps(2) ne sz]
  have ih: "set (fast_offsets (reference_instance_offsets (ct ?s)) kObjectHeaderSize) = set offs1"
    using linked_sub.IH [OF bits(1) offs1(1)] .
  have "off \<in> set (class_offsets ct k) \<Longrightarrow> \<exists>i < 32. off = kObjectHeaderSize + i * 4" for off
  proof -
    assume off: "off \<in> set (class_offsets ct k)"
    obtain o2 where "slow_offsets ct k = Some o2" "\<forall>off \<in> set o2. kObjectHeaderSize \<le> off \<and> off mod 4 = 0"
      using slow_offsets_linked [OF linked.linked_sub [OF linked_sub.hyps]] by blast
    then have "kObjectHeaderSize \<le> off" "off mod 4 = 0" using off offs1(2) linked_sub.prems(2) by auto
    then have "off = kObjectHeaderSize + (off - kObjectHeaderSize) div 4 * 4" by (simp add: kObjectHeaderSize_def) presburger
    then show ?thesis using bits(3) [OF off] by (intro exI [of _ "(off - kObjectHeaderSize) div 4"]) linarith
  qed
  then have "set (fast_offsets (CreateReferenceInstanceOffsets ct k) kObjectHeaderSize) =
      set (fast_offsets (reference_instance_offsets (ct ?s)) kObjectHeaderSize) \<union> set (class_offsets ct k)"
    unfolding set_fast_offsets using bits(2) by blast
  then show ?case using ih offs1(2) linked_sub.hyps(5) by auto
qed

section \<open>Properties of the object model\<close>

text \<open>C25. Where a class's references fit the 32-bit bitmap, scanning the bitmap (the fast path of
  \<^verbatim>\<open>VisitFieldsReferences\<close>) yields exactly the reference fields found by walking up the class hierarchy
  (the slow path), each once: word-aligned fields behind the header and inside the object. The
  bitmap is the one the class linker builds from the super class's.\<close>

theorem fast_path_equals_slow_path:
  assumes "linked ct k" "reference_instance_offsets (ct k) \<noteq> kClassWalkSuper"
  shows "\<exists>offs. slow_offsets ct k = Some offs \<and> distinct offs \<and>
           distinct (fast_offsets (reference_instance_offsets (ct k)) kObjectHeaderSize) \<and>
           set (fast_offsets (reference_instance_offsets (ct k)) kObjectHeaderSize) = set offs \<and>
           (\<forall>off \<in> set offs. kObjectHeaderSize \<le> off \<and> off + 4 \<le> object_size (ct k) \<and> off mod 4 = 0)"
proof -
  obtain offs where offs: "slow_offsets ct k = Some offs" "distinct offs"
      "\<forall>off \<in> set offs. kObjectHeaderSize \<le> off \<and> off + 4 \<le> object_size (ct k) \<and> off mod 4 = 0"
    using slow_offsets_linked [OF assms(1)] by blast
  then show ?thesis using fast_eq_slow [OF assms offs(1)] distinct_fast_offsets by simp
qed

text \<open>A root class at 100 and a subclass at 200 with two references.\<close>

definition demo_class :: "addr \<Rightarrow> nat \<Rightarrow> 32 word \<Rightarrow> nat \<Rightarrow> class_info" where
  "demo_class super n bitmap size' =
     \<lparr>klass_of = 50, super_class = super, component_type = 0, primitive_type = 0, primitive_size_shift = 0,
      class_flags = kClassFlagNormal, object_size = size', class_size = 0, num_reference_instance_fields = n,
      reference_instance_offsets = bitmap, is_resolved = True, num_reference_static_fields = 0,
      first_reference_static_offset = 0\<rparr>"

definition demo_classes :: classes where
  "demo_classes k = (if k = 200 then demo_class 100 2 3 4096 else demo_class 0 1 0 16)"

lemma demo_linked: "linked demo_classes 200"
proof -
  have root: "linked demo_classes 100"
    by (rule linked_root) (simp_all add: demo_classes_def demo_class_def kObjectHeaderSize_def CreateReferenceInstanceOffsets_def)
  have "linked demo_classes (super_class (demo_classes 200))"
    using root by (simp add: demo_classes_def [of 200] demo_class_def)
  then show ?thesis
    by (intro linked_sub [of 200 demo_classes]) (simp_all add: demo_classes_def demo_class_def kObjectHeaderSize_def
        CreateReferenceInstanceOffsets_def RoundUp_def kClassWalkSuper_def)
qed

theorem fast_path_equals_slow_path_witness:
  "\<exists>offs. slow_offsets demo_classes 200 = Some offs \<and> set (fast_offsets 3 kObjectHeaderSize) = set offs"
proof -
  have "reference_instance_offsets (demo_classes 200) = 3" by (simp add: demo_classes_def demo_class_def)
  then show ?thesis
    using fast_path_equals_slow_path [OF demo_linked] by (auto simp: kClassWalkSuper_def)
qed

end
