(* ===== verification/Stub.thy ===== *)
theory Stub
  imports Object_Model
begin

text \<open>
  Stubs (src/runtime/marvin\_stub.h, marvin\_stub.cc and marvin\_stub-inl.h): what stands in the heap for an
  object that may be swapped out. A stub holds the address of its reclamation-table entry and a copy of
  the object's references, so that the collectors can trace through it.

  Layout: \<open>table_entry_\<close> 0 to 7, \<open>x_flags_\<close> 8 (the stub flag is bit 7, the bit an ordinary object has clear),
  \<open>padding_b_\<close> 9, \<open>num_refs_\<close> 10 and 11, \<open>forwarding_address_\<close> 12 to 15, then four bytes per reference.
\<close>

section \<open>Fields\<close>

definition sizeof_Stub :: nat where "sizeof_Stub = 16"

definition GetStubSize :: "nat \<Rightarrow> nat" where
  "GetStubSize numRefs = sizeof_Stub + numRefs * 4"

definition GetReferenceAddress :: "addr \<Rightarrow> nat \<Rightarrow> addr" where
  "GetReferenceAddress stub pos = stub + sizeof_Stub + pos * 4"

definition SetReference :: "mem \<Rightarrow> addr \<Rightarrow> nat \<Rightarrow> addr \<Rightarrow> mem" where
  "SetReference m stub pos ref = store m (GetReferenceAddress stub pos) 4 ref"

definition GetReference :: "mem \<Rightarrow> addr \<Rightarrow> nat \<Rightarrow> addr" where
  "GetReference m stub pos = load m (GetReferenceAddress stub pos) 4"

definition SetStubFlag :: "mem \<Rightarrow> addr \<Rightarrow> mem" where
  "SetStubFlag m stub = m(stub + 8 := SetBitsAtomic8 (m (stub + 8)) 7 1)"

definition ClearFlags :: "mem \<Rightarrow> addr \<Rightarrow> mem" where
  "ClearFlags m stub = m(stub + 8 := ClearBitsAtomic8 (m (stub + 8)) 0 8)"

definition GetNumRefs :: "mem \<Rightarrow> addr \<Rightarrow> nat" where
  "GetNumRefs m stub = load m (stub + 10) 2"

definition SetNumRefs :: "mem \<Rightarrow> addr \<Rightarrow> nat \<Rightarrow> mem" where
  "SetNumRefs m stub n = store m (stub + 10) 2 n"

definition GetForwardingAddress :: "mem \<Rightarrow> addr \<Rightarrow> nat" where
  "GetForwardingAddress m stub = load m (stub + 12) 4"

definition SetForwardingAddress :: "mem \<Rightarrow> addr \<Rightarrow> nat \<Rightarrow> mem" where
  "SetForwardingAddress m stub a = store m (stub + 12) 4 a"

definition GetTableEntry :: "mem \<Rightarrow> addr \<Rightarrow> addr" where
  "GetTableEntry m stub = load m stub 8"

definition SetTableEntry :: "mem \<Rightarrow> addr \<Rightarrow> addr \<Rightarrow> mem" where
  "SetTableEntry m stub entry = store m stub 8 entry"

definition Stub_GetObjectAddress :: "mem \<Rightarrow> addr \<Rightarrow> addr" where
  "Stub_GetObjectAddress m stub = GetObjectAddress m (GetTableEntry m stub)"

definition Stub_SetObjectAddress :: "mem \<Rightarrow> addr \<Rightarrow> addr \<Rightarrow> mem" where
  "Stub_SetObjectAddress m stub obj = SetObjectAddress m (GetTableEntry m stub) obj"

definition LockTableEntry :: "mem \<Rightarrow> addr \<Rightarrow> mem option" where
  "LockTableEntry m stub = LockFromAppThread m (GetTableEntry m stub)"

definition UnlockTableEntry :: "mem \<Rightarrow> addr \<Rightarrow> mem" where
  "UnlockTableEntry m stub = UnlockFromAppThread m (GetTableEntry m stub)"

definition Stub_GetSize :: "mem \<Rightarrow> addr \<Rightarrow> nat" where
  "Stub_GetSize m stub = GetStubSize (GetNumRefs m stub)"

section \<open>References\<close>

text \<open>The loop of \<^verbatim>\<open>CountReferences\<close> over the super classes, with a 32-bit count.\<close>

partial_function (option) count_super :: "classes \<Rightarrow> addr \<Rightarrow> nat \<Rightarrow> nat option" where
  "count_super ct superClass numPointers =
     (if superClass \<noteq> 0 then
        count_super ct (super_class (ct superClass))
          ((numPointers + num_reference_instance_fields (ct superClass)) mod 2 ^ 32)
      else Some numPointers)"

definition CountReferences :: "classes \<Rightarrow> mem \<Rightarrow> addr \<Rightarrow> (nat \<times> mem) option" where
  "CountReferences ct m object = do {
     let m = SetIgnoreReadFlag m object;
     let (klass, m) = raw_GetClass m object;
     let m = ClearIgnoreReadFlag m object;
     let numPointers = num_reference_instance_fields (ct klass);
     n \<leftarrow> count_super ct (super_class (ct klass)) numPointers;
     Some (n, m)
   }"

definition GetStubSize_of :: "classes \<Rightarrow> mem \<Rightarrow> addr \<Rightarrow> (nat \<times> mem) option" where
  "GetStubSize_of ct m object = do {
     (numRefs, m) \<leftarrow> CountReferences ct m object;
     Some (GetStubSize numRefs, m)
   }"

text \<open>The two visitors, with \<open>cur_ref_\<close> as their state.\<close>

definition StubPopulateVisitor :: "addr \<Rightarrow> nat visitor" where
  "StubPopulateVisitor stub obj offset st =
     (let (cur_ref, m) = st in
      if \<not> cur_ref < GetNumRefs m stub then None
      else
        let (ref, m) = raw_GetFieldObject m obj offset
        in Some (cur_ref + 1, SetReference m stub cur_ref ref))"

definition CopyRefsVisitor :: "addr \<Rightarrow> nat visitor" where
  "CopyRefsVisitor stub obj offset st =
     (let (cur_ref, m) = st;
          (ref, m) = raw_GetFieldObject m obj offset;
          m = (if ref \<noteq> GetReference m stub cur_ref
               then raw_SetFieldObjectWithoutWriteBarrier m obj offset (GetReference m stub cur_ref)
               else m)
      in Some (cur_ref + 1, m))"

fun clear_refs :: "mem \<Rightarrow> addr \<Rightarrow> nat \<Rightarrow> mem" where
  "clear_refs m stub 0 = m"
| "clear_refs m stub (Suc n) = SetReference (clear_refs m stub n) stub n 0"

text \<open>Both take a real object; a stub in its place (which never happens: a stub's object is the copy in
  the swapped-in space) stops the model.\<close>

definition PopulateFrom :: "classes \<Rightarrow> mem \<Rightarrow> addr \<Rightarrow> addr \<Rightarrow> mem option" where
  "PopulateFrom ct m stub object = do {
     let m = ClearFlags m stub;
     let m = SetStubFlag m stub;
     let m = Stub_SetObjectAddress m stub object;
     let m = SetForwardingAddress m stub 0;
     let m = m(stub + 9 := 0);
     if GetStubFlag m object then None else do {
       (n, m) \<leftarrow> CountReferences ct m object;
       let m = SetNumRefs m stub n;
       let m = clear_refs m stub (GetNumRefs m stub);
       (_, m) \<leftarrow> raw_VisitReferences ct (StubPopulateVisitor stub) (\<lambda>_ st. Some st) object (0, m);
       Some m
     }
   }"

definition CopyRefsInto :: "classes \<Rightarrow> mem \<Rightarrow> addr \<Rightarrow> addr \<Rightarrow> mem option" where
  "CopyRefsInto ct m stub object =
     (if GetStubFlag m object then None else do {
       (_, m) \<leftarrow> raw_VisitReferences ct (CopyRefsVisitor stub) (\<lambda>_ st. Some st) object (0, m);
       Some m
     })"

text \<open>The entry point of compiled code.\<close>

definition PopulateStub :: "classes \<Rightarrow> mem \<Rightarrow> addr \<Rightarrow> addr \<Rightarrow> mem option" where
  "PopulateStub ct m stub object = PopulateFrom ct m stub object"

section \<open>Which fields a visit reaches\<close>

text \<open>The reference fields, the class field apart, that \<^verbatim>\<open>VisitReferences\<close> visits in an ordinary object or
  in one without reference fields: the kinds the swap code replaces by stubs.\<close>

definition visited_offsets :: "classes \<Rightarrow> addr \<Rightarrow> nat list option" where
  "visited_offsets ct k =
     (if class_flags (ct k) = kClassFlagNormal then
        (if reference_instance_offsets (ct k) \<noteq> kClassWalkSuper
         then Some (fast_offsets (reference_instance_offsets (ct k)) kObjectHeaderSize)
         else slow_offsets ct k)
      else if class_flags (ct k) AND kClassFlagNoReferenceFields \<noteq> 0 then Some []
      else None)"

definition fields_ok :: "nat list \<Rightarrow> nat \<Rightarrow> bool" where
  "fields_ok offs sz \<longleftrightarrow>
     distinct offs \<and> (\<forall>off \<in> set offs. (off = 0 \<or> kObjectHeaderSize \<le> off) \<and> off mod 4 = 0 \<and> off + 4 \<le> sz)"

definition class_count :: "classes \<Rightarrow> addr \<Rightarrow> nat option" where
  "class_count ct k = count_super ct (super_class (ct k)) (num_reference_instance_fields (ct k))"

text \<open>A class whose objects of \<open>sz\<close> bytes hold the references at \<open>offs\<close> beside the class field, and
  whose reference count agrees with that.\<close>

definition traced :: "classes \<Rightarrow> addr \<Rightarrow> nat list \<Rightarrow> nat \<Rightarrow> bool" where
  "traced ct k offs sz \<longleftrightarrow>
     visited_offsets ct k = Some offs \<and> fields_ok (0 # offs) sz \<and> class_count ct k = Some (Suc (length offs))"

lemma count_super_chain:
  "class_chain ct k = Some ks \<Longrightarrow> acc < 2 ^ 32 \<Longrightarrow>
     count_super ct k acc = Some ((acc + sum_list (map (\<lambda>k. num_reference_instance_fields (ct k)) ks)) mod 2 ^ 32)"
proof (induction ks arbitrary: k acc)
  case Nil
  then have "k = 0" by (subst (asm) class_chain.simps) (auto simp: bind_eq_Some_conv split: if_splits)
  then show ?case using Nil by (subst count_super.simps) simp
next
  case (Cons k' ks)
  then have k: "k \<noteq> 0 \<and> k' = k \<and> class_chain ct (super_class (ct k)) = Some ks"
    by (subst (asm) class_chain.simps) (auto simp: bind_eq_Some_conv split: if_splits)
  show ?case
    by (subst count_super.simps)
       (simp add: k Cons.IH [OF k [THEN conjunct2, THEN conjunct2]] mod_add_left_eq add.assoc)
qed

lemma linked_total:
  "linked ct k \<Longrightarrow> slow_offsets ct k = Some offs \<Longrightarrow> class_chain ct k = Some ks \<Longrightarrow>
     sum_list (map (\<lambda>k. num_reference_instance_fields (ct k)) ks) = Suc (length offs)"
proof (induction arbitrary: offs ks rule: linked.induct)
  case (linked_root k)
  then have "class_offsets ct k = []"
    by (simp add: class_offsets_def GetFirstReferenceInstanceFieldOffset_def)
  with linked_root have "offs = []" by (simp add: slow_offsets_sub [OF linked_root(1)])
  moreover have "ks = [k]"
    using linked_root class_chain.simps [of ct 0] by (simp add: class_chain.simps [of ct k])
  ultimately show ?case using linked_root by simp
next
  case (linked_sub k)
  obtain offs1 where offs1: "slow_offsets ct (super_class (ct k)) = Some offs1" "offs = class_offsets ct k @ offs1"
    using linked_sub.hyps(2) linked_sub.prems(1) by (auto simp: slow_offsets_sub [OF linked_sub.hyps(1)])
  obtain ks1 where ks1: "class_chain ct (super_class (ct k)) = Some ks1" "ks = k # ks1"
    using linked_sub.hyps(1) linked_sub.prems(2) by (subst (asm) class_chain.simps) (auto simp: bind_eq_Some_conv)
  show ?case
    using linked_sub.IH [OF offs1(1) ks1(1)] class_offsets_sub [OF linked_sub.hyps(2) linked_size [OF linked_sub.hyps(3)]]
    by (simp add: offs1 ks1)
qed

lemma linked_class_count:
  assumes "linked ct k" "slow_offsets ct k = Some offs" "Suc (length offs) < 2 ^ 32"
  shows "class_count ct k = Some (Suc (length offs))"
proof -
  obtain ks where ks: "class_chain ct k = Some ks" using linked_chain [OF assms(1)] by blast
  have k0: "k \<noteq> 0" using assms(1) by (cases rule: linked.cases) auto
  then obtain ks1 where ks1: "class_chain ct (super_class (ct k)) = Some ks1" "ks = k # ks1"
    using ks by (subst (asm) class_chain.simps) (auto simp: bind_eq_Some_conv)
  have sum: "num_reference_instance_fields (ct k) + sum_list (map (\<lambda>k. num_reference_instance_fields (ct k)) ks1) = Suc (length offs)"
    using linked_total [OF assms(1,2) ks] by (simp add: ks1)
  then have "num_reference_instance_fields (ct k) < 2 ^ 32" using assms(3) by linarith
  then show ?thesis
    using sum assms(3) by (simp add: class_count_def count_super_chain [OF ks1(1)])
qed

text \<open>Every linked ordinary class is of that kind.\<close>

lemma linked_traced:
  assumes "linked ct k" "class_flags (ct k) = kClassFlagNormal"
    and "visited_offsets ct k = Some offs" "Suc (length offs) < 2 ^ 32"
  shows "traced ct k offs (object_size (ct k))"
proof -
  obtain sl where sl: "slow_offsets ct k = Some sl" "distinct sl"
      "\<forall>off \<in> set sl. kObjectHeaderSize \<le> off \<and> off + 4 \<le> object_size (ct k) \<and> off mod 4 = 0"
    using slow_offsets_linked [OF assms(1)] by blast
  have same: "set offs = set sl \<and> distinct offs"
  proof (cases "reference_instance_offsets (ct k) = kClassWalkSuper")
    case True
    then show ?thesis using assms(2,3) sl by (simp add: visited_offsets_def)
  next
    case False
    then show ?thesis
      using assms(2,3) fast_eq_slow [OF assms(1) False sl(1)] distinct_fast_offsets by (auto simp: visited_offsets_def)
  qed
  then have len: "length offs = length sl" using sl(2) by (metis distinct_card)
  have "0 \<notin> set offs" using same sl(3) by (auto simp: kObjectHeaderSize_def)
  moreover have "4 \<le> object_size (ct k)" using linked_size [OF assms(1)] by (simp add: kObjectHeaderSize_def)
  ultimately show ?thesis
    using same sl assms(3,4) linked_class_count [OF assms(1) sl(1)] by (auto simp: traced_def fields_ok_def len)
qed

lemma VisitReferences_offsets:
  assumes "visited_offsets ct k = Some offs"
    and "visitor obj 0 (s, SetIgnoreReadFlag m obj) = Some (s1, m1)"
    and "load m1 obj 4 = k" "GetIgnoreReadFlag m1 obj"
    and "visit_offsets visitor obj offs (s1, m1) = Some (s2, m2)"
  shows "raw_VisitReferences ct visitor rv obj (s, m) = Some (s2, ClearIgnoreReadFlag m2 obj)"
proof -
  have cls: "raw_GetClass m1 obj = (k, m1)"
    using assms(3,4) by (simp add: raw_GetClass_def raw_GetFieldObject_def mark_read_def)
  consider (normal) "class_flags (ct k) = kClassFlagNormal"
    | (none) "class_flags (ct k) \<noteq> kClassFlagNormal" "class_flags (ct k) AND kClassFlagNoReferenceFields \<noteq> 0" "offs = []"
    using assms(1) by (auto simp: visited_offsets_def split: if_splits)
  then show ?thesis
  proof cases
    case normal
    then have "raw_VisitInstanceFieldsReferences ct visitor obj k (s1, m1) = Some (s2, m2)"
      using assms(1,5) cls
      by (auto simp: visited_offsets_def raw_VisitInstanceFieldsReferences_def raw_VisitFieldsReferences_def)
    then show ?thesis using assms(2) cls normal by (simp add: raw_VisitReferences_def)
  next
    case none
    then show ?thesis using assms(2,5) cls by (simp add: raw_VisitReferences_def)
  qed
qed

section \<open>Filling a stub and copying it back\<close>

lemma mark_read_ignored: "GetIgnoreReadFlag m obj \<Longrightarrow> mark_read m obj = m"
  by (simp add: mark_read_def)

lemma GetStubFlag_local: "m (p + 8) = m' (p + 8) \<Longrightarrow> GetStubFlag m p = GetStubFlag m' p"
  by (simp add: GetStubFlag_def)

lemma SetReference_outside:
  "same_outside (stub + sizeof_Stub + c * 4) (stub + sizeof_Stub + Suc c * 4) m (SetReference m stub c v)"
  using same_outside_store [of "stub + sizeof_Stub + c * 4" 4 m v]
  by (simp add: SetReference_def GetReferenceAddress_def ac_simps)

lemma load_stub_field:
  "same_outside lo hi m m' \<Longrightarrow> stub + sizeof_Stub \<le> lo \<Longrightarrow> lo \<le> hi \<Longrightarrow> p + n \<le> sizeof_Stub \<Longrightarrow>
     load m' (stub + p) n = load m (stub + p) n"
  by (rule same_outside_load [of lo hi]) (auto simp: apart_def)

text \<open>Writing a list of references into consecutive slots.\<close>

fun put_refs :: "mem \<Rightarrow> addr \<Rightarrow> nat \<Rightarrow> addr list \<Rightarrow> mem" where
  "put_refs m stub c [] = m"
| "put_refs m stub c (v # vs) = put_refs (SetReference m stub c v) stub (Suc c) vs"

lemma put_refs_outside:
  "same_outside (stub + sizeof_Stub + c * 4) (stub + sizeof_Stub + (c + length vs) * 4) m (put_refs m stub c vs)"
proof (induction vs arbitrary: c m)
  case (Cons v vs)
  have "same_outside (stub + sizeof_Stub + c * 4) (stub + sizeof_Stub + (c + length (v # vs)) * 4) m (SetReference m stub c v)"
    by (rule same_outside_mono [OF SetReference_outside]) auto
  moreover have "same_outside (stub + sizeof_Stub + c * 4) (stub + sizeof_Stub + (c + length (v # vs)) * 4)
      (SetReference m stub c v) (put_refs (SetReference m stub c v) stub (Suc c) vs)"
    by (rule same_outside_mono [OF Cons.IH]) auto
  ultimately show ?case by (simp add: same_outside_trans)
qed simp

lemma GetReference_put_refs:
  "i < length vs \<Longrightarrow> GetReference (put_refs m stub c vs) stub (c + i) = vs ! i mod 256 ^ 4"
proof (induction vs arbitrary: c m i)
  case (Cons v vs)
  show ?case
  proof (cases i)
    case 0
    have "GetReference (put_refs (SetReference m stub c v) stub (Suc c) vs) stub c = GetReference (SetReference m stub c v) stub c"
      unfolding GetReference_def
      by (rule same_outside_load [OF put_refs_outside]) (auto simp: apart_def GetReferenceAddress_def)
    then show ?thesis by (simp add: 0 GetReference_def SetReference_def mem_simps)
  next
    case (Suc j)
    then show ?thesis using Cons.IH [of j "SetReference m stub c v" "Suc c"] Cons.prems by simp
  qed
qed simp

lemma clear_refs_outside:
  "same_outside (stub + sizeof_Stub) (stub + sizeof_Stub + n * 4) m (clear_refs m stub n)"
proof (induction n)
  case (Suc n)
  have "same_outside (stub + sizeof_Stub) (stub + sizeof_Stub + Suc n * 4) m (clear_refs m stub n)"
    by (rule same_outside_mono [OF Suc]) auto
  moreover have "same_outside (stub + sizeof_Stub) (stub + sizeof_Stub + Suc n * 4) (clear_refs m stub n) (clear_refs m stub (Suc n))"
    by (simp, rule same_outside_mono [OF SetReference_outside]) auto
  ultimately show ?case by (rule same_outside_trans)
qed simp

lemma visit_populate:
  assumes "GetIgnoreReadFlag m obj" "c + length offs \<le> GetNumRefs m stub"
    and "apart stub (GetStubSize (c + length offs)) obj sz" "kObjectHeaderSize \<le> sz" "\<forall>off \<in> set offs. off + 4 \<le> sz"
  shows "visit_offsets (StubPopulateVisitor stub) obj offs (c, m) =
           Some (c + length offs, put_refs m stub c (map (\<lambda>off. load m (obj + off) 4) offs))"
  using assms
proof (induction offs arbitrary: c m)
  case (Cons off offs)
  let ?v = "load m (obj + off) 4"
  let ?m = "SetReference m stub c ?v"
  have out: "same_outside (stub + sizeof_Stub + c * 4) (stub + sizeof_Stub + Suc c * 4) m ?m" by (rule SetReference_outside)
  have obj: "a + n \<le> sz \<Longrightarrow> load ?m (obj + a) n = load m (obj + a) n" for a n
    using Cons.prems(3) by (intro same_outside_load [OF out]) (auto simp: apart_def GetStubSize_def sizeof_Stub_def)
  have flag: "GetIgnoreReadFlag ?m obj"
    using Cons.prems(1,3,4) ignore_read.get_outside [OF out, of obj]
    by (auto simp: apart_def GetStubSize_def sizeof_Stub_def kObjectHeaderSize_def)
  have nref: "GetNumRefs ?m stub = GetNumRefs m stub"
    unfolding GetNumRefs_def by (rule load_stub_field [OF out]) (auto simp: sizeof_Stub_def)
  have step: "StubPopulateVisitor stub obj off (c, m) = Some (Suc c, ?m)"
    using Cons.prems(1,2) by (simp add: StubPopulateVisitor_def raw_GetFieldObject_def mark_read_ignored)
  have "visit_offsets (StubPopulateVisitor stub) obj offs (Suc c, ?m) =
      Some (Suc c + length offs, put_refs ?m stub (Suc c) (map (\<lambda>off. load ?m (obj + off) 4) offs))"
    using Cons.prems flag nref by (intro Cons.IH) auto
  moreover have "map (\<lambda>off. load ?m (obj + off) 4) offs = map (\<lambda>off. load m (obj + off) 4) offs"
    using Cons.prems(5) obj by simp
  ultimately show ?case by (simp add: step)
qed simp

lemma ClearBits8_SetBits8: "w \<le> 8 \<Longrightarrow> ClearBits8 (SetBits8 b k w) k w = ClearBits8 b k w"
  by (rule bit_eqI) (auto simp: bit_ClearBits8 bit_SetBits8)

lemma CountReferences_traced:
  assumes "class_count ct (load m obj 4) = Some n"
  shows "CountReferences ct m obj = Some (n, ClearIgnoreReadFlag m obj)"
proof -
  have "load (SetIgnoreReadFlag m obj) obj 4 = load m obj 4"
    by (simp add: SetIgnoreReadFlag_def load_byte_out)
  moreover have "ClearIgnoreReadFlag (SetIgnoreReadFlag m obj) obj = ClearIgnoreReadFlag m obj"
    by (simp add: ClearIgnoreReadFlag_def SetIgnoreReadFlag_def ClearBits8_SetBits8)
  ultimately show ?thesis
    using assms by (simp add: CountReferences_def raw_GetClass_def raw_GetFieldObject_def mark_read_ignored
        ignore_read.get_set class_count_def)
qed

text \<open>The header writes of \<^verbatim>\<open>PopulateFrom\<close>, before it looks at the object.\<close>

definition populate_header :: "mem \<Rightarrow> addr \<Rightarrow> addr \<Rightarrow> mem" where
  "populate_header m stub object =
     (SetForwardingAddress (Stub_SetObjectAddress (SetStubFlag (ClearFlags m stub) stub) stub object) stub 0)(stub + 9 := 0)"

lemma populate_header_facts:
  assumes "apart (GetTableEntry m stub) sizeof_TableEntry stub sizeof_Stub" "object < 2 ^ 32"
  shows "GetStubFlag (populate_header m stub object) stub"
    and "GetTableEntry (populate_header m stub object) stub = GetTableEntry m stub"
    and "Stub_GetObjectAddress (populate_header m stub object) stub = object"
    and "GetForwardingAddress (populate_header m stub object) stub = 0"
    and "x < stub \<or> stub + sizeof_Stub \<le> x \<Longrightarrow> x < GetTableEntry m stub \<or> GetTableEntry m stub + sizeof_TableEntry \<le> x \<Longrightarrow>
           populate_header m stub object x = m x"
proof -
  let ?e = "GetTableEntry m stub"
  let ?m = "populate_header m stub object"
  have e: "?e + 12 \<le> stub \<or> stub + 16 \<le> ?e" using assms(1) by (auto simp: apart_def sizeof_TableEntry_def sizeof_Stub_def)
  have e0: "GetTableEntry (SetStubFlag (ClearFlags m stub) stub) stub = ?e"
    by (simp add: SetStubFlag_def ClearFlags_def GetTableEntry_def load_byte_out)
  have flags: "SetStubFlag (ClearFlags m stub) stub = m(stub + 8 := SetBitsAtomic8 (ClearBitsAtomic8 (m (stub + 8)) 0 8) 7 1)"
    by (simp add: SetStubFlag_def ClearFlags_def)
  have m: "?m = (store (store (m(stub + 8 := SetBitsAtomic8 (ClearBitsAtomic8 (m (stub + 8)) 0 8) 7 1)) (?e + 4) 4 object)
      (stub + 12) 4 0)(stub + 9 := 0)"
    by (simp add: populate_header_def SetForwardingAddress_def Stub_SetObjectAddress_def SetObjectAddress_def e0 [unfolded flags, simplified] flags)
  show "GetStubFlag ?m stub"
  proof -
    have "?m (stub + 8) = SetBitsAtomic8 (ClearBitsAtomic8 (m (stub + 8)) 0 8) 7 1"
      using e unfolding m by (auto simp: store_byte_out)
    then show ?thesis by (simp add: GetStubFlag_def header_bit_simps)
  qed
  show te: "GetTableEntry ?m stub = ?e"
    using e unfolding m by (auto simp: GetTableEntry_def load_byte_out load_store_apart apart_def)
  show "Stub_GetObjectAddress ?m stub = object"
    unfolding Stub_GetObjectAddress_def te unfolding m
    using e assms(2) by (auto simp add: GetObjectAddress_def load_byte_out mem_simps apart_def)
  show "GetForwardingAddress ?m stub = 0"
    by (simp add: m GetForwardingAddress_def load_byte_out mem_simps)
  show "populate_header m stub object x = m x"
    if "x < stub \<or> stub + sizeof_Stub \<le> x" "x < ?e \<or> ?e + sizeof_TableEntry \<le> x"
    using that unfolding m by (auto simp: store_byte_out sizeof_Stub_def sizeof_TableEntry_def)
qed
lemma load_ignore_read:
  "off + 4 \<le> 11 \<or> 12 \<le> off \<Longrightarrow> load (SetIgnoreReadFlag m obj) (obj + off) 4 = load m (obj + off) 4"
  "off + 4 \<le> 11 \<or> 12 \<le> off \<Longrightarrow> load (ClearIgnoreReadFlag m obj) (obj + off) 4 = load m (obj + off) 4"
  by (auto simp: SetIgnoreReadFlag_def ClearIgnoreReadFlag_def load_byte_out)

lemma VisitReferences_populate:
  assumes tr: "traced ct (load m obj 4) offs sz" and sz: "kObjectHeaderSize \<le> sz"
    and n: "GetNumRefs m stub = Suc (length offs)" and ap: "apart stub (GetStubSize (Suc (length offs))) obj sz"
  shows "raw_VisitReferences ct (StubPopulateVisitor stub) rv obj (0, m) =
    Some (Suc (length offs),
          ClearIgnoreReadFlag (put_refs (SetIgnoreReadFlag m obj) stub 0 (map (\<lambda>off. load m (obj + off) 4) (0 # offs))) obj)"
proof -
  let ?m = "SetIgnoreReadFlag m obj" and ?n = "Suc (length offs)" and ?v = "load m obj 4"
  have flds: "\<forall>off \<in> set (0 # offs). (off = 0 \<or> 16 \<le> off) \<and> off + 4 \<le> sz"
    using tr by (simp add: traced_def fields_ok_def kObjectHeaderSize_def)
  then have vals: "map (\<lambda>off. load ?m (obj + off) 4) (0 # offs) = map (\<lambda>off. load m (obj + off) 4) (0 # offs)"
    by (intro map_cong refl load_ignore_read) auto
  have v: "load ?m obj 4 = ?v" using load_ignore_read(1) [of 0 m obj] by simp
  have nref: "GetNumRefs ?m stub = ?n"
    using n ap sz unfolding GetNumRefs_def SetIgnoreReadFlag_def
    by (subst load_byte_out) (auto simp: apart_def GetStubSize_def sizeof_Stub_def kObjectHeaderSize_def)
  have "visit_offsets (StubPopulateVisitor stub) obj (0 # offs) (0, ?m) =
      Some (?n, put_refs ?m stub 0 (map (\<lambda>off. load m (obj + off) 4) (0 # offs)))"
    using visit_populate [of ?m obj 0 "0 # offs" stub sz] nref ap sz flds unfolding vals
    by (simp add: ignore_read.get_set)
  moreover have step: "StubPopulateVisitor stub obj 0 (0, ?m) = Some (1, SetReference ?m stub 0 ?v)"
    by (simp add: StubPopulateVisitor_def raw_GetFieldObject_def mark_read_ignored ignore_read.get_set nref v)
  ultimately have rest: "visit_offsets (StubPopulateVisitor stub) obj offs (1, SetReference ?m stub 0 ?v) =
      Some (?n, put_refs ?m stub 0 (map (\<lambda>off. load m (obj + off) 4) (0 # offs)))"
    by simp
  have out: "same_outside (stub + sizeof_Stub) (stub + sizeof_Stub + 4) ?m (SetReference ?m stub 0 ?v)"
    using SetReference_outside [of stub 0] by simp
  show ?thesis
  proof (rule VisitReferences_offsets [OF _ step _ _ rest])
    show "visited_offsets ct ?v = Some offs" using tr by (simp add: traced_def)
    show "load (SetReference ?m stub 0 ?v) obj 4 = ?v"
      using same_outside_load [OF out, of obj 4] ap sz v
      by (auto simp: apart_def GetStubSize_def sizeof_Stub_def kObjectHeaderSize_def)
    show "GetIgnoreReadFlag (SetReference ?m stub 0 ?v) obj"
      using ignore_read.get_outside [OF out, of obj] ap sz
      by (auto simp: apart_def GetStubSize_def sizeof_Stub_def kObjectHeaderSize_def ignore_read.get_set)
  qed
qed
text \<open>The stub side of \<^verbatim>\<open>PopulateFrom\<close> before the visit: header, count and cleared slots.\<close>

definition populate_blank :: "mem \<Rightarrow> addr \<Rightarrow> addr \<Rightarrow> nat \<Rightarrow> mem" where
  "populate_blank m stub obj n =
     clear_refs (SetNumRefs (ClearIgnoreReadFlag (populate_header m stub obj) obj) stub n) stub n"

lemma populate_blank_outside:
  "same_outside (stub + 10) (stub + GetStubSize n) (ClearIgnoreReadFlag (populate_header m stub obj) obj) (populate_blank m stub obj n)"
proof -
  let ?m0 = "ClearIgnoreReadFlag (populate_header m stub obj) obj"
  let ?mm = "SetNumRefs ?m0 stub n"
  have "same_outside (stub + 10) (stub + 12) ?m0 ?mm"
    unfolding SetNumRefs_def by (rule same_outside_mono [OF same_outside_store]) auto
  then have "same_outside (stub + 10) (stub + GetStubSize n) ?m0 ?mm"
    by (rule same_outside_mono) (auto simp: GetStubSize_def sizeof_Stub_def)
  moreover have "same_outside (stub + 10) (stub + GetStubSize n) ?mm (populate_blank m stub obj n)"
    unfolding populate_blank_def
    by (rule same_outside_mono [OF clear_refs_outside]) (auto simp: GetStubSize_def sizeof_Stub_def)
  ultimately show ?thesis by (rule same_outside_trans)
qed

lemma populate_blank_field:
  assumes "p + n \<le> 10 \<or> 12 \<le> p \<and> p + n \<le> 16" "apart stub sizeof_Stub obj kObjectHeaderSize"
  shows "load (populate_blank m stub obj k) (stub + p) n = load (populate_header m stub obj) (stub + p) n"
proof -
  let ?m0 = "ClearIgnoreReadFlag (populate_header m stub obj) obj"
  have "load (populate_blank m stub obj k) (stub + p) n = load (SetNumRefs ?m0 stub k) (stub + p) n"
    unfolding populate_blank_def using assms(1) by (intro load_stub_field [OF clear_refs_outside]) (auto simp: sizeof_Stub_def)
  also have "\<dots> = load ?m0 (stub + p) n"
    unfolding SetNumRefs_def using assms(1) by (intro load_store_apart) (auto simp: apart_def)
  also have "\<dots> = load (populate_header m stub obj) (stub + p) n"
    unfolding ClearIgnoreReadFlag_def using assms
    by (intro load_byte_out) (auto simp: apart_def sizeof_Stub_def kObjectHeaderSize_def)
  finally show ?thesis .
qed

lemma populate_blank_count:
  assumes "n < 2 ^ 16"
  shows "GetNumRefs (populate_blank m stub obj n) stub = n"
proof -
  let ?mm = "SetNumRefs (ClearIgnoreReadFlag (populate_header m stub obj) obj) stub n"
  have "GetNumRefs (populate_blank m stub obj n) stub = GetNumRefs ?mm stub"
    unfolding populate_blank_def GetNumRefs_def by (rule load_stub_field [OF clear_refs_outside]) (auto simp: sizeof_Stub_def)
  then show ?thesis using assms by (simp add: GetNumRefs_def SetNumRefs_def mem_simps)
qed
lemma ClearBits8_idem: "w \<le> 8 \<Longrightarrow> ClearBits8 (ClearBits8 b k w) k w = ClearBits8 b k w"
  by (rule bit_eqI) (auto simp: bit_ClearBits8)

text \<open>The memory after the visit.\<close>

definition populate_done :: "mem \<Rightarrow> addr \<Rightarrow> addr \<Rightarrow> addr list \<Rightarrow> mem" where
  "populate_done m stub obj vs =
     ClearIgnoreReadFlag (put_refs (SetIgnoreReadFlag (populate_blank m stub obj (length vs)) obj) stub 0 vs) obj"

lemma populate_done_outside:
  assumes "x < stub \<or> stub + GetStubSize (length vs) \<le> x"
  shows "populate_done m stub obj vs x = ClearIgnoreReadFlag (populate_header m stub obj) obj x"
proof -
  let ?m1 = "populate_blank m stub obj (length vs)"
  have "put_refs (SetIgnoreReadFlag ?m1 obj) stub 0 vs x = SetIgnoreReadFlag ?m1 obj x"
    using assms put_refs_outside [of stub 0 vs "SetIgnoreReadFlag ?m1 obj"] by (auto simp: same_outside_def GetStubSize_def)
  moreover have "?m1 x = ClearIgnoreReadFlag (populate_header m stub obj) obj x"
    using assms populate_blank_outside [of stub "length vs" m obj] by (auto simp: same_outside_def)
  ultimately show ?thesis
    by (auto simp: populate_done_def ClearIgnoreReadFlag_def SetIgnoreReadFlag_def ClearBits8_SetBits8 ClearBits8_idem)
qed

lemma populate_done_field:
  assumes "p + n \<le> sizeof_Stub" "apart stub sizeof_Stub obj kObjectHeaderSize"
  shows "load (populate_done m stub obj vs) (stub + p) n = load (populate_blank m stub obj (length vs)) (stub + p) n"
proof -
  let ?m1 = "populate_blank m stub obj (length vs)"
  have far: "obj + 11 < stub + p \<or> stub + p + n \<le> obj + 11"
    using assms by (auto simp: apart_def kObjectHeaderSize_def)
  have "load (populate_done m stub obj vs) (stub + p) n = load (put_refs (SetIgnoreReadFlag ?m1 obj) stub 0 vs) (stub + p) n"
    unfolding populate_done_def ClearIgnoreReadFlag_def using far by (rule load_byte_out)
  also have "\<dots> = load (SetIgnoreReadFlag ?m1 obj) (stub + p) n"
    using assms(1) by (intro load_stub_field [OF put_refs_outside]) auto
  also have "\<dots> = load ?m1 (stub + p) n"
    unfolding SetIgnoreReadFlag_def using far by (rule load_byte_out)
  finally show ?thesis .
qed

lemma populate_done_ref:
  assumes "i < length vs" "vs ! i < 256 ^ 4" "apart stub (GetStubSize (length vs)) obj kObjectHeaderSize"
  shows "GetReference (populate_done m stub obj vs) stub i = vs ! i"
proof -
  let ?m2 = "put_refs (SetIgnoreReadFlag (populate_blank m stub obj (length vs)) obj) stub 0 vs"
  have "GetReference (populate_done m stub obj vs) stub i = GetReference ?m2 stub i"
    unfolding GetReference_def populate_done_def ClearIgnoreReadFlag_def using assms(1,3)
    by (intro load_byte_out) (auto simp: apart_def GetStubSize_def GetReferenceAddress_def kObjectHeaderSize_def)
  also have "\<dots> = vs ! i" using GetReference_put_refs [OF assms(1), of _ stub 0] assms(2) by simp
  finally show ?thesis .
qed

lemma populate_done_header:
  assumes "apart (GetTableEntry m stub) sizeof_TableEntry stub (GetStubSize (length vs))" "obj < 2 ^ 32"
    and "apart stub sizeof_Stub obj kObjectHeaderSize" "apart (GetTableEntry m stub) sizeof_TableEntry obj kObjectHeaderSize"
  shows "GetStubFlag (populate_done m stub obj vs) stub"
    and "GetTableEntry (populate_done m stub obj vs) stub = GetTableEntry m stub"
    and "Stub_GetObjectAddress (populate_done m stub obj vs) stub = obj"
    and "GetForwardingAddress (populate_done m stub obj vs) stub = 0"
proof -
  let ?m3 = "populate_done m stub obj vs" and ?m0 = "populate_header m stub obj" and ?e = "GetTableEntry m stub"
  have ap: "apart ?e sizeof_TableEntry stub sizeof_Stub" using assms(1) by (auto simp: apart_def GetStubSize_def)
  note hdr = populate_header_facts [OF ap assms(2)]
  have fld: "load ?m3 (stub + p) n = load ?m0 (stub + p) n" if "p + n \<le> 10 \<or> 12 \<le> p \<and> p + n \<le> 16" for p n
    using that populate_done_field [OF _ assms(3), of p n m vs] populate_blank_field [OF that assms(3)]
    by (auto simp: sizeof_Stub_def)
  have "?m3 (stub + 8) = ?m0 (stub + 8)" using fld [of 8 1] by (simp add: load_eval(1) [simplified] unsigned_word_eqI)
  then show "GetStubFlag ?m3 stub" using hdr(1) GetStubFlag_local [of ?m3 stub ?m0] by simp
  show te: "GetTableEntry ?m3 stub = ?e" using fld [of 0 8] hdr(2) by (simp add: GetTableEntry_def)
  show "GetForwardingAddress ?m3 stub = 0" using fld [of 12 4] hdr(4) by (simp add: GetForwardingAddress_def)
  have "read_bytes ?m3 (?e + 4) 4 = read_bytes ?m0 (?e + 4) 4"
  proof (rule read_bytes_cong)
    fix i :: nat assume i: "i < 4"
    have "?e + 4 + i \<noteq> obj + 11" using assms(4) i by (auto simp: apart_def sizeof_TableEntry_def kObjectHeaderSize_def)
    moreover have "?m3 (?e + 4 + i) = ClearIgnoreReadFlag ?m0 obj (?e + 4 + i)"
      using assms(1) i by (intro populate_done_outside) (auto simp: apart_def sizeof_TableEntry_def)
    ultimately show "?m3 (?e + 4 + i) = ?m0 (?e + 4 + i)" by (simp add: ignore_read.clear_frame)
  qed
  then show "Stub_GetObjectAddress ?m3 stub = obj"
    using hdr(2,3) te by (simp add: Stub_GetObjectAddress_def GetObjectAddress_def load_def)
qed

lemma populate_object_bytes:
  assumes "obj < 2 ^ 32" "apart stub (GetStubSize n) obj sz"
    and "apart (GetTableEntry m stub) sizeof_TableEntry obj sz"
    and "apart (GetTableEntry m stub) sizeof_TableEntry stub (GetStubSize n)"
  shows "obj \<le> x \<Longrightarrow> x < obj + sz \<Longrightarrow> populate_header m stub obj x = m x"
    and "obj \<le> x \<Longrightarrow> x < obj + sz \<Longrightarrow> x \<noteq> obj + 11 \<Longrightarrow> populate_blank m stub obj n x = m x"
proof -
  have ap: "apart (GetTableEntry m stub) sizeof_TableEntry stub sizeof_Stub"
    using assms(4) by (auto simp: apart_def GetStubSize_def)
  show m0: "populate_header m stub obj x = m x" if "obj \<le> x" "x < obj + sz" for x
    using that assms(2,3) by (intro populate_header_facts(5) [OF ap assms(1)]) (auto simp: apart_def GetStubSize_def)
  show "populate_blank m stub obj n x = m x" if "obj \<le> x" "x < obj + sz" "x \<noteq> obj + 11"
  proof -
    have "populate_blank m stub obj n x = ClearIgnoreReadFlag (populate_header m stub obj) obj x"
      using that assms(2) populate_blank_outside [of stub n m obj] by (auto simp: same_outside_def apart_def)
    then show ?thesis using that m0 [of x] by (simp add: ignore_read.clear_frame)
  qed
qed

section \<open>Properties of stubs\<close>

lemma PopulateFrom_fills:
  assumes tr: "traced ct (load m obj 4) offs sz" and sz: "kObjectHeaderSize \<le> sz" "obj < 2 ^ 32" "Suc (length offs) < 2 ^ 16"
    and nostub: "\<not> GetStubFlag m obj"
    and a1: "apart stub (GetStubSize (Suc (length offs))) obj sz"
    and a2: "apart (GetTableEntry m stub) sizeof_TableEntry obj sz"
    and a3: "apart (GetTableEntry m stub) sizeof_TableEntry stub (GetStubSize (Suc (length offs)))"
  shows "\<exists>m'. PopulateFrom ct m stub obj = Some m' \<and>
      GetStubFlag m' stub \<and> GetTableEntry m' stub = GetTableEntry m stub \<and>
      Stub_GetObjectAddress m' stub = obj \<and> GetForwardingAddress m' stub = 0 \<and>
      GetNumRefs m' stub = Suc (length offs) \<and>
      (\<forall>i < Suc (length offs). GetReference m' stub i = load m (obj + (0 # offs) ! i) 4) \<and>
      (\<forall>x. (x < stub \<or> stub + Stub_GetSize m' stub \<le> x) \<and>
           (x < GetTableEntry m stub \<or> GetTableEntry m stub + sizeof_TableEntry \<le> x) \<longrightarrow>
           m' x = ClearIgnoreReadFlag m obj x)"
proof -
  let ?n = "Suc (length offs)" and ?m0 = "populate_header m stub obj" and ?e = "GetTableEntry m stub"
  let ?vs = "map (\<lambda>off. load m (obj + off) 4) (0 # offs)"
  let ?m1 = "populate_blank m stub obj ?n" and ?m3 = "populate_done m stub obj ?vs"
  have ap: "apart ?e sizeof_TableEntry stub sizeof_Stub" "apart stub sizeof_Stub obj kObjectHeaderSize"
      "apart ?e sizeof_TableEntry obj kObjectHeaderSize" "apart stub (GetStubSize ?n) obj kObjectHeaderSize"
    using a1 a2 a3 sz(1) by (auto simp: apart_def GetStubSize_def)
  note bytes = populate_object_bytes [OF sz(2) a1 a2 a3]
  have loads: "off + 4 \<le> sz \<Longrightarrow> off = 0 \<or> 16 \<le> off \<Longrightarrow> load ?m1 (obj + off) 4 = load m (obj + off) 4" for off
    unfolding load_def by (intro arg_cong [where f = le_nat] read_bytes_cong bytes(2)) auto
  have flds: "\<forall>off \<in> set (0 # offs). (off = 0 \<or> 16 \<le> off) \<and> off + 4 \<le> sz"
    using tr by (simp add: traced_def fields_ok_def kObjectHeaderSize_def)
  have cls: "load ?m0 obj 4 = load m obj 4"
    unfolding load_def using sz(1) by (intro arg_cong [where f = le_nat] read_bytes_cong bytes(1)) (auto simp: kObjectHeaderSize_def)
  have "\<not> GetStubFlag ?m0 obj"
    using nostub bytes(1) [of "obj + 8"] sz(1) GetStubFlag_local [of ?m0 obj m] by (simp add: kObjectHeaderSize_def)
  moreover have "CountReferences ct ?m0 obj = Some (?n, ClearIgnoreReadFlag ?m0 obj)"
    using tr cls by (intro CountReferences_traced) (simp add: traced_def)
  moreover have "raw_VisitReferences ct (StubPopulateVisitor stub) (\<lambda>_ st. Some st) obj (0, ?m1) = Some (?n, ?m3)"
  proof -
    have vs: "map (\<lambda>off. load ?m1 (obj + off) 4) (0 # offs) = ?vs" using flds by (intro map_cong refl loads) auto
    have "traced ct (load ?m1 obj 4) offs sz" using loads [of 0] flds tr by simp
    from VisitReferences_populate [OF this sz(1) populate_blank_count [OF sz(3)] a1]
    show ?thesis unfolding vs by (simp add: populate_done_def)
  qed
  ultimately have "PopulateFrom ct m stub obj = Some ?m3"
    using sz(3) by (simp add: PopulateFrom_def populate_header_def Let_def populate_blank_def GetNumRefs_def SetNumRefs_def mem_simps)
  moreover have n: "GetNumRefs ?m3 stub = ?n"
    using populate_done_field [OF _ ap(2), of 10 2 m ?vs] populate_blank_count [OF sz(3), of m stub obj]
    by (simp add: GetNumRefs_def sizeof_Stub_def)
  moreover have "\<forall>i < ?n. GetReference ?m3 stub i = load m (obj + (0 # offs) ! i) 4"
    using populate_done_ref [of _ ?vs stub obj m] ap(4) load_bound [of m _ 4] by (auto simp del: list.map)
  moreover have "?m3 x = ClearIgnoreReadFlag m obj x"
    if "x < stub \<or> stub + GetStubSize ?n \<le> x" "x < ?e \<or> ?e + sizeof_TableEntry \<le> x" for x
  proof -
    have "?m0 x = m x" using that by (intro populate_header_facts(5) [OF ap(1) sz(2)]) (auto simp: GetStubSize_def)
    then show ?thesis using that populate_done_outside [of x stub ?vs m obj] by (auto simp: ClearIgnoreReadFlag_def)
  qed
  ultimately show ?thesis
    using populate_done_header [of m stub ?vs obj] a3 sz(2) ap by (simp add: Stub_GetSize_def)
qed


text \<open>An object of class 200 (two references) at 8192, a stub at 1000 and its entry at 2000.\<close>

definition demo_mem :: mem where
  "demo_mem = store (store (\<lambda>_. 0) 8192 4 200) 1000 8 2000"

lemma demo_offsets: "visited_offsets demo_classes 200 = Some [16, 20]"
  by (simp add: visited_offsets_def demo_classes_def demo_class_def kClassWalkSuper_def kObjectHeaderSize_def
      fast_offsets.simps)

lemma demo_traced: "traced demo_classes 200 [16, 20] 4096"
  using linked_traced [OF demo_linked _ demo_offsets]
  by (simp add: demo_classes_def [of 200] demo_class_def)

lemma demo_mem_loads:
  "load demo_mem 8192 4 = 200" "GetTableEntry demo_mem 1000 = 2000" "\<not> GetStubFlag demo_mem 8192"
  by (simp_all add: demo_mem_def GetTableEntry_def GetStubFlag_def mem_simps apart_def store_byte_out
      GetBitsAtomic8_def)


section \<open>Copying the references back\<close>

definition copied_only :: "addr \<Rightarrow> nat list \<Rightarrow> mem \<Rightarrow> mem \<Rightarrow> bool" where
  "copied_only obj offs m m' \<longleftrightarrow>
     (\<forall>x. m' x = m x \<or> x = obj + 10 \<or> x = obj + 11 \<or> (\<exists>off \<in> set offs. obj + off \<le> x \<and> x < obj + off + 4))"

lemma copied_only_load:
  assumes "copied_only obj offs m m'"
    and "\<And>x. a \<le> x \<Longrightarrow> x < a + n \<Longrightarrow> x \<noteq> obj + 10 \<and> x \<noteq> obj + 11 \<and> (\<forall>off \<in> set offs. x < obj + off \<or> obj + off + 4 \<le> x)"
  shows "load m' a n = load m a n"
proof -
  have "m' (a + i) = m (a + i)" if "i < n" for i
    using assms(1) assms(2) [of "a + i"] that unfolding copied_only_def by (metis add_less_cancel_left le_add1 not_le)
  then show ?thesis unfolding load_def by (intro arg_cong [where f = le_nat] read_bytes_cong)
qed

lemma copied_only_stub:
  assumes "copied_only obj offs m m'" "apart stub (GetStubSize n) obj sz" "kObjectHeaderSize \<le> sz"
    and "\<forall>off \<in> set offs. off + 4 \<le> sz" "i < n"
  shows "GetReference m' stub i = GetReference m stub i"
  unfolding GetReference_def
proof (rule copied_only_load [OF assms(1)], intro conjI ballI)
  fix x assume x: "GetReferenceAddress stub i \<le> x" "x < GetReferenceAddress stub i + 4"
  then have "x < obj \<or> obj + sz \<le> x"
    using assms(2,5) by (auto simp: apart_def GetStubSize_def GetReferenceAddress_def)
  then show "x \<noteq> obj + 10" "x \<noteq> obj + 11" using assms(3) by (auto simp: kObjectHeaderSize_def)
  fix off assume "off \<in> set offs"
  then show "x < obj + off \<or> obj + off + 4 \<le> x" using assms(4) \<open>x < obj \<or> obj + sz \<le> x\<close> by fastforce
qed

lemma copied_only_field:
  assumes "copied_only obj offs m m'" "fields_ok (off # offs) sz"
  shows "load m' (obj + off) 4 = load m (obj + off) 4"
proof (rule copied_only_load [OF assms(1)], intro conjI ballI)
  fix x assume x: "obj + off \<le> x" "x < obj + off + 4"
  have off: "off = 0 \<or> 16 \<le> off" "off mod 4 = 0" "off \<notin> set offs"
    using assms(2) by (auto simp: fields_ok_def kObjectHeaderSize_def)
  then show "x \<noteq> obj + 10" "x \<noteq> obj + 11" using x by auto
  fix off' assume "off' \<in> set offs"
  then have "off' mod 4 = 0" "off' \<noteq> off" using assms(2) off(3) by (auto simp: fields_ok_def)
  then have "off' + 4 \<le> off \<or> off + 4 \<le> off'" using off(2) by presburger
  then show "x < obj + off' \<or> obj + off' + 4 \<le> x" using x by auto
qed

lemma copied_only_trans:
  "copied_only obj as m m1 \<Longrightarrow> copied_only obj bs m1 m2 \<Longrightarrow> copied_only obj (as @ bs) m m2"
  unfolding copied_only_def by (metis UnCI set_append)

lemma copy_step:
  assumes "GetIgnoreReadFlag m obj" "off = 0 \<or> kObjectHeaderSize \<le> off"
  shows "\<exists>m1. CopyRefsVisitor stub obj off (c, m) = Some (Suc c, m1) \<and>
      load m1 (obj + off) 4 = GetReference m stub c \<and> copied_only obj [off] m m1 \<and> GetIgnoreReadFlag m1 obj \<and>
      (GetDirtyBit m1 obj \<longleftrightarrow> GetDirtyBit m obj \<or> load m (obj + off) 4 \<noteq> GetReference m stub c)"
proof (cases "load m (obj + off) 4 = GetReference m stub c")
  case True
  then show ?thesis
    using assms by (simp add: CopyRefsVisitor_def raw_GetFieldObject_def mark_read_ignored copied_only_def)
next
  case False
  let ?v = "GetReference m stub c"
  let ?m1 = "raw_SetFieldObjectWithoutWriteBarrier m obj off ?v"
  have v: "?v < 256 ^ 4" unfolding GetReference_def by (rule load_bound)
  have "CopyRefsVisitor stub obj off (c, m) = Some (Suc c, ?m1)"
    using False assms(1) by (simp add: CopyRefsVisitor_def raw_GetFieldObject_def mark_read_ignored)
  moreover have "load ?m1 (obj + off) 4 = ?v"
    using assms(2) v by (auto simp: raw_SetFieldObjectWithoutWriteBarrier_def SetDirtyBit_def SetWriteBit_def
        load_byte_out mem_simps kObjectHeaderSize_def)
  moreover have "copied_only obj [off] m ?m1"
    by (auto simp: copied_only_def raw_SetFieldObjectWithoutWriteBarrier_def SetDirtyBit_def SetWriteBit_def
        intro: store_byte_out)
  moreover have "GetIgnoreReadFlag ?m1 obj"
  proof -
    have "store m (obj + off) 4 ?v (obj + 11) = m (obj + 11)"
      using assms(2) by (auto simp: kObjectHeaderSize_def intro!: store_byte_out)
    then show ?thesis
      using assms(1) by (simp add: raw_SetFieldObjectWithoutWriteBarrier_def SetDirtyBit_def SetWriteBit_def
          GetIgnoreReadFlag_def header_bit_simps)
  qed
  moreover have "GetDirtyBit ?m1 obj"
    by (simp add: raw_SetFieldObjectWithoutWriteBarrier_def dirty_bit.get_set)
  ultimately show ?thesis using False by blast
qed
lemma visit_copy:
  assumes "GetIgnoreReadFlag m obj" "fields_ok offs sz" "kObjectHeaderSize \<le> sz"
    and "apart stub (GetStubSize (c + length offs)) obj sz"
  shows "\<exists>m'. visit_offsets (CopyRefsVisitor stub) obj offs (c, m) = Some (c + length offs, m') \<and>
      (\<forall>i < length offs. load m' (obj + offs ! i) 4 = GetReference m stub (c + i)) \<and>
      copied_only obj offs m m' \<and> GetIgnoreReadFlag m' obj \<and>
      (GetDirtyBit m' obj \<longleftrightarrow> GetDirtyBit m obj \<or>
        (\<exists>i < length offs. load m (obj + offs ! i) 4 \<noteq> GetReference m stub (c + i)))"
  using assms
proof (induction offs arbitrary: c m)
  case Nil
  then show ?case by (simp add: copied_only_def)
next
  case (Cons off offs)
  have off: "off = 0 \<or> kObjectHeaderSize \<le> off" and tail: "fields_ok offs sz"
    and le: "off + 4 \<le> sz" using Cons.prems(2) by (auto simp: fields_ok_def)
  obtain m1 where m1: "CopyRefsVisitor stub obj off (c, m) = Some (Suc c, m1)"
      "load m1 (obj + off) 4 = GetReference m stub c" "copied_only obj [off] m m1" "GetIgnoreReadFlag m1 obj"
      "GetDirtyBit m1 obj \<longleftrightarrow> GetDirtyBit m obj \<or> load m (obj + off) 4 \<noteq> GetReference m stub c"
    using copy_step [OF Cons.prems(1) off] by blast
  obtain m2 where m2: "visit_offsets (CopyRefsVisitor stub) obj offs (Suc c, m1) = Some (Suc c + length offs, m2)"
      "\<forall>i < length offs. load m2 (obj + offs ! i) 4 = GetReference m1 stub (Suc c + i)"
      "copied_only obj offs m1 m2" "GetIgnoreReadFlag m2 obj"
      "GetDirtyBit m2 obj \<longleftrightarrow> GetDirtyBit m1 obj \<or>
        (\<exists>i < length offs. load m1 (obj + offs ! i) 4 \<noteq> GetReference m1 stub (Suc c + i))"
    using Cons.IH [of m1 "Suc c"] m1(4) tail Cons.prems by auto
  have refs: "GetReference m1 stub i = GetReference m stub i" if "i < c + length (off # offs)" for i
    using copied_only_stub [OF m1(3) Cons.prems(4,3)] le that by simp
  have flds: "load m1 (obj + offs ! i) 4 = load m (obj + offs ! i) 4" if "i < length offs" for i
  proof -
    have "offs ! i \<in> set offs" using that by simp
    then have "fields_ok (offs ! i # [off]) sz"
      using Cons.prems(2) unfolding fields_ok_def distinct.simps by (metis list.set_intros empty_iff empty_set insert_iff list.simps(15))
    then show ?thesis by (rule copied_only_field [OF m1(3)])
  qed
  have "load m2 (obj + off) 4 = GetReference m stub c"
    using copied_only_field [OF m2(3) Cons.prems(2)] m1(2) by simp
  then have "\<forall>i < length (off # offs). load m2 (obj + (off # offs) ! i) 4 = GetReference m stub (c + i)"
    using m2(2) refs by (auto simp: less_Suc_eq_0_disj)
  moreover have "GetDirtyBit m2 obj \<longleftrightarrow> GetDirtyBit m obj \<or>
      (\<exists>i < length (off # offs). load m (obj + (off # offs) ! i) 4 \<noteq> GetReference m stub (c + i))"
    using m2(5) m1(5) refs flds by (auto simp: less_Suc_eq_0_disj)
  moreover have "copied_only obj (off # offs) m m2" using copied_only_trans [OF m1(3) m2(3)] by simp
  ultimately show ?case using m1(1) m2(1,4) by simp
qed

lemma CopyRefsInto_copies:
  assumes tr: "traced ct (GetReference m stub 0) offs sz" and sz: "kObjectHeaderSize \<le> sz"
    and nostub: "\<not> GetStubFlag m obj" and ap: "apart stub (GetStubSize (Suc (length offs))) obj sz"
  shows "\<exists>m'. CopyRefsInto ct m stub obj = Some m' \<and>
      (\<forall>i < Suc (length offs). load m' (obj + (0 # offs) ! i) 4 = GetReference m stub i) \<and>
      copied_only obj (0 # offs) m m' \<and>
      (GetDirtyBit m' obj \<longleftrightarrow> GetDirtyBit m obj \<or>
        (\<exists>i < Suc (length offs). load m (obj + (0 # offs) ! i) 4 \<noteq> GetReference m stub i))"
proof -
  let ?m = "SetIgnoreReadFlag m obj" and ?n = "Suc (length offs)"
  have ok: "fields_ok (0 # offs) sz" using tr by (simp add: traced_def)
  obtain m' where m': "visit_offsets (CopyRefsVisitor stub) obj (0 # offs) (0, ?m) = Some (?n, m')"
      "\<forall>i < ?n. load m' (obj + (0 # offs) ! i) 4 = GetReference ?m stub i"
      "copied_only obj (0 # offs) ?m m'"
      "GetDirtyBit m' obj \<longleftrightarrow> GetDirtyBit ?m obj \<or>
        (\<exists>i < ?n. load ?m (obj + (0 # offs) ! i) 4 \<noteq> GetReference ?m stub i)"
    using visit_copy [of ?m obj "0 # offs" sz stub 0] ok sz ap by (auto simp: ignore_read.get_set)
  have c0: "copied_only obj [] m ?m" by (simp add: copied_only_def SetIgnoreReadFlag_def)
  have c1: "copied_only obj [] m' (ClearIgnoreReadFlag m' obj)" by (simp add: copied_only_def ClearIgnoreReadFlag_def)
  have refs: "i < ?n \<Longrightarrow> GetReference ?m stub i = GetReference m stub i" for i
    using copied_only_stub [OF c0 ap sz] by simp
  have ok1: "i < ?n \<Longrightarrow> fields_ok [(0 # offs) ! i] sz" for i
    using ok nth_mem [of i "0 # offs"] by (auto simp add: fields_ok_def simp del: nth_mem)
  have flds: "i < ?n \<Longrightarrow> load ?m (obj + (0 # offs) ! i) 4 = load m (obj + (0 # offs) ! i) 4"
      "i < ?n \<Longrightarrow> load (ClearIgnoreReadFlag m' obj) (obj + (0 # offs) ! i) 4 = load m' (obj + (0 # offs) ! i) 4" for i
    using copied_only_field [OF c0 ok1] copied_only_field [OF c1 ok1] by simp_all
  obtain m1 where step: "CopyRefsVisitor stub obj 0 (0, ?m) = Some (1, m1)"
      "load m1 obj 4 = GetReference ?m stub 0" "GetIgnoreReadFlag m1 obj"
    using copy_step [of ?m obj 0 stub 0] by (auto simp: ignore_read.get_set)
  have "raw_VisitReferences ct (CopyRefsVisitor stub) (\<lambda>_ st. Some st) obj (0, m) = Some (?n, ClearIgnoreReadFlag m' obj)"
    using m'(1) step tr refs [of 0]
    by (intro VisitReferences_offsets [where visitor = "CopyRefsVisitor stub" and k = "GetReference m stub 0" and offs = offs])
       (simp_all add: traced_def)
  moreover have "copied_only obj (0 # offs) m (ClearIgnoreReadFlag m' obj)"
    using copied_only_trans [OF copied_only_trans [OF c0 m'(3)] c1] by simp
  moreover have "GetDirtyBit (ClearIgnoreReadFlag m' obj) obj = GetDirtyBit m' obj" "GetDirtyBit ?m obj = GetDirtyBit m obj"
    by (simp_all add: GetDirtyBit_def ClearIgnoreReadFlag_def SetIgnoreReadFlag_def)
  ultimately show ?thesis
    using nostub m'(2,4) refs flds by (auto simp: CopyRefsInto_def)
qed

text \<open>C27. Copying a stub's references back into the object brought in from disk: every reference field,
  the class included, then holds what the stub holds; apart from those fields and the two bytes with
  the access and dirty bits nothing changes; and the object becomes dirty exactly when one of its
  references differed from the stub's.\<close>

theorem CopyRefsInto_correct:
  assumes tr: "traced ct (GetReference m stub 0) offs sz" and sz: "kObjectHeaderSize \<le> sz"
    and nostub: "\<not> GetStubFlag m obj" and ap: "apart stub (GetStubSize (Suc (length offs))) obj sz"
  shows "\<exists>m'. CopyRefsInto ct m stub obj = Some m' \<and>
      (\<forall>i < Suc (length offs). load m' (obj + (0 # offs) ! i) 4 = GetReference m stub i) \<and>
      copied_only obj (0 # offs) m m' \<and>
      (GetDirtyBit m' obj \<longleftrightarrow> GetDirtyBit m obj \<or>
        (\<exists>i < Suc (length offs). load m (obj + (0 # offs) ! i) 4 \<noteq> GetReference m stub i))"
  by (rule CopyRefsInto_copies [OF assms])

theorem CopyRefsInto_correct_witness:
  "\<exists>m'. CopyRefsInto demo_classes (SetReference demo_mem 1000 0 200) 1000 8192 = Some m' \<and> load m' 8192 4 = 200"
proof -
  have "traced demo_classes (GetReference (SetReference demo_mem 1000 0 200) 1000 0) [16, 20] 4096"
    using demo_traced by (simp add: GetReference_def SetReference_def mem_simps)
  moreover have "\<not> GetStubFlag (SetReference demo_mem 1000 0 200) 8192"
    using demo_mem_loads(3) by (simp add: SetReference_def GetReferenceAddress_def sizeof_Stub_def GetStubFlag_def store_byte_out)
  ultimately show ?thesis
    using CopyRefsInto_correct [of demo_classes "SetReference demo_mem 1000 0 200" 1000 "[16, 20]" 4096 8192]
    by (fastforce simp: kObjectHeaderSize_def apart_def GetStubSize_def sizeof_Stub_def GetReference_def SetReference_def mem_simps)
qed

end
