(* ===== verification/File_Stream.thy ===== *)
theory File_Stream
  imports Marvin_Prelude
begin

text \<open>
  The file streams the swap code keeps its snapshots in: what it uses of \<open>std::fstream\<close>, and the helpers
  of src/runtime/marvin\_common.cc.

  A stream has one position, shared by reads and writes, and three error bits. \<open>fail()\<close>, which
  \<open>operator!\<close> tests, is \<open>failbit\<close> or \<open>badbit\<close>. Positions are integers: \<open>tellp()\<close> of a failed stream is
  -1. A write behind the end of a file fills the gap with zeros. Whether the device carries out an
  operation is a decision of the environment: \<open>device n\<close> says so of the \<open>n\<close>-th operation. Buffering is
  invisible here, because every file is closed before it is read through another stream.
\<close>

section \<open>Files and streams\<close>

record filesys =
  files :: "string \<Rightarrow> byte list option"
  device :: "nat \<Rightarrow> bool"
  device_ops :: nat

record fstream =
  opened :: "string option"
  position :: nat
  eofbit :: bool
  failbit :: bool
  badbit :: bool

definition closed_stream :: fstream where
  "closed_stream = \<lparr>opened = None, position = 0, eofbit = False, failbit = False, badbit = False\<rparr>"

definition stream_good :: "fstream \<Rightarrow> bool" where
  "stream_good s \<longleftrightarrow> \<not> eofbit s \<and> \<not> failbit s \<and> \<not> badbit s"

definition stream_fail :: "fstream \<Rightarrow> bool" where
  "stream_fail s \<longleftrightarrow> failbit s \<or> badbit s"

definition tick :: "filesys \<Rightarrow> bool \<times> filesys" where
  "tick fs = (device fs (device_ops fs), fs\<lparr>device_ops := Suc (device_ops fs)\<rparr>)"

definition splice :: "byte list \<Rightarrow> nat \<Rightarrow> byte list \<Rightarrow> byte list" where
  "splice xs p bs = take p (xs @ replicate (p - length xs) 0) @ bs @ drop (p + length bs) xs"

definition file_bytes :: "filesys \<Rightarrow> string \<Rightarrow> nat \<Rightarrow> nat \<Rightarrow> byte list" where
  "file_bytes fs path p n = take n (drop p (case files fs path of Some xs \<Rightarrow> xs | None \<Rightarrow> []))"

datatype open_mode = InOutTrunc | OutOnly | InOutAte | InOnly

text \<open>Opening clears the error bits on success and sets \<open>failbit\<close> on failure, in particular on a stream
  that is already open.\<close>

definition fs_open :: "open_mode \<Rightarrow> string \<Rightarrow> filesys \<Rightarrow> fstream \<Rightarrow> filesys \<times> fstream" where
  "fs_open mode path fs s =
     (if opened s \<noteq> None then (fs, s\<lparr>failbit := True\<rparr>)
      else
        let (ok, fs) = tick fs in
        if \<not> ok then (fs, s\<lparr>failbit := True\<rparr>)
        else case mode of
            InOutTrunc \<Rightarrow> (fs\<lparr>files := (files fs)(path \<mapsto> [])\<rparr>, closed_stream\<lparr>opened := Some path\<rparr>)
          | OutOnly \<Rightarrow> (fs\<lparr>files := (files fs)(path \<mapsto> [])\<rparr>, closed_stream\<lparr>opened := Some path\<rparr>)
          | InOutAte \<Rightarrow>
              (case files fs path of
                 Some xs \<Rightarrow> (fs, closed_stream\<lparr>opened := Some path, position := length xs\<rparr>)
               | None \<Rightarrow> (fs, s\<lparr>failbit := True\<rparr>))
          | InOnly \<Rightarrow>
              (case files fs path of
                 Some xs \<Rightarrow> (fs, closed_stream\<lparr>opened := Some path\<rparr>)
               | None \<Rightarrow> (fs, s\<lparr>failbit := True\<rparr>)))"

definition fs_close :: "fstream \<Rightarrow> fstream" where
  "fs_close s = (if opened s = None then s\<lparr>failbit := True\<rparr> else s\<lparr>opened := None\<rparr>)"

definition fs_tellp :: "fstream \<Rightarrow> int" where
  "fs_tellp s = (if stream_fail s \<or> opened s = None then -1 else int (position s))"

definition fs_seekp :: "int \<Rightarrow> fstream \<Rightarrow> fstream" where
  "fs_seekp p s =
     (if stream_fail s then s
      else if p < 0 \<or> opened s = None then s\<lparr>failbit := True\<rparr>
      else s\<lparr>position := nat p\<rparr>)"

definition fs_seekg :: "int \<Rightarrow> fstream \<Rightarrow> fstream" where
  "fs_seekg p s =
     (let s = s\<lparr>eofbit := False\<rparr> in
      if \<not> stream_good s then s\<lparr>failbit := True\<rparr>
      else if p < 0 \<or> opened s = None then s\<lparr>failbit := True\<rparr>
      else s\<lparr>position := nat p\<rparr>)"

definition fs_write :: "byte list \<Rightarrow> filesys \<Rightarrow> fstream \<Rightarrow> filesys \<times> fstream" where
  "fs_write bs fs s =
     (if \<not> stream_good s then (fs, s)
      else case opened s of
          None \<Rightarrow> (fs, s\<lparr>badbit := True\<rparr>)
        | Some path \<Rightarrow>
            (let (ok, fs) = tick fs in
             case files fs path of
               None \<Rightarrow> (fs, s\<lparr>badbit := True\<rparr>)
             | Some xs \<Rightarrow>
                 if ok then (fs\<lparr>files := (files fs)(path \<mapsto> splice xs (position s) bs)\<rparr>, s\<lparr>position := position s + length bs\<rparr>)
                 else (fs, s\<lparr>badbit := True\<rparr>)))"

text \<open>A read delivers what there is up to \<open>n\<close> bytes; a short read sets \<open>eofbit\<close> and \<open>failbit\<close>.\<close>

definition fs_read :: "nat \<Rightarrow> filesys \<Rightarrow> fstream \<Rightarrow> byte list \<times> fstream" where
  "fs_read n fs s =
     (if \<not> stream_good s then ([], s\<lparr>failbit := True\<rparr>)
      else case opened s of
          None \<Rightarrow> ([], s\<lparr>eofbit := True, failbit := True\<rparr>)
        | Some path \<Rightarrow>
            (let got = file_bytes fs path (position s) n;
                 s = s\<lparr>position := position s + length got\<rparr>
             in if length got < n then (got, s\<lparr>eofbit := True, failbit := True\<rparr>) else (got, s)))"

definition fs_flush :: "filesys \<Rightarrow> fstream \<Rightarrow> filesys \<times> fstream" where
  "fs_flush fs s =
     (if \<not> stream_good s then (fs, s)
      else let (ok, fs) = tick fs in (fs, if ok then s else s\<lparr>badbit := True\<rparr>))"

text \<open>\<open>remove\<close> and \<open>rename\<close>: False on failure.\<close>

definition fs_remove :: "string \<Rightarrow> filesys \<Rightarrow> bool \<times> filesys" where
  "fs_remove path fs =
     (let (ok, fs) = tick fs in
      if ok \<and> files fs path \<noteq> None then (True, fs\<lparr>files := (files fs)(path := None)\<rparr>) else (False, fs))"

definition fs_rename :: "string \<Rightarrow> string \<Rightarrow> filesys \<Rightarrow> bool \<times> filesys" where
  "fs_rename old new fs =
     (let (ok, fs) = tick fs in
      if ok \<and> files fs old \<noteq> None then (True, fs\<lparr>files := (files fs)(old := None, new := files fs old)\<rparr>) else (False, fs))"

section \<open>The helpers of the runtime\<close>

definition openFile :: "string \<Rightarrow> filesys \<Rightarrow> fstream \<Rightarrow> filesys \<times> fstream" where
  "openFile path fs stream =
     (let (fs, stream) = fs_open InOutTrunc path fs stream in
      if stream_fail stream then
        let stream = fs_close stream;
            (fs, stream) = fs_open OutOnly path fs stream;
            stream = fs_close stream
        in fs_open InOutTrunc path fs stream
      else (fs, stream))"

definition openFileAppend :: "string \<Rightarrow> filesys \<Rightarrow> fstream \<Rightarrow> filesys \<times> fstream" where
  "openFileAppend path fs stream = fs_open InOutAte path fs stream"

definition checkStreamError :: "fstream \<Rightarrow> bool" where
  "checkStreamError stream \<longleftrightarrow> stream_fail stream"

text \<open>The package name: the first line of /proc/self/cmdline, up to the first null character.\<close>

definition getPackageName :: "string \<Rightarrow> string" where
  "getPackageName proc_self_cmdline =
     (let cmdline = takeWhile (\<lambda>c. c \<noteq> CHR 0x0A) proc_self_cmdline
      in takeWhile (\<lambda>c. c \<noteq> CHR 0x00) cmdline)"

fun contains_string :: "string \<Rightarrow> string \<Rightarrow> bool" where
  "contains_string needle [] \<longleftrightarrow> needle = []"
| "contains_string needle (c # cs) \<longleftrightarrow> take (length needle) (c # cs) = needle \<or> contains_string needle cs"

definition appOnCommonBlacklist :: "string \<Rightarrow> bool" where
  "appOnCommonBlacklist packageName \<longleftrightarrow> list_ex (\<lambda>s. contains_string s packageName) [''droid.launcher3'']"

section \<open>Facts about streams\<close>

lemma length_splice: "length (splice xs p bs) = max (length xs) (p + length bs)"
  by (auto simp: splice_def max_def min_def)

lemma nth_splice:
  "i < length xs \<or> i < p + length bs \<Longrightarrow>
     splice xs p bs ! i = (if i < p then (if i < length xs then xs ! i else 0) else if i < p + length bs then bs ! (i - p) else xs ! i)"
  by (auto simp: splice_def nth_append min_def split: if_splits)

lemma take_drop_splice: "take (length bs) (drop p (splice xs p bs)) = bs"
  by (simp add: splice_def)

lemma take_drop_splice_apart:
  assumes "apart q n p (length bs)" "q + n \<le> length xs"
  shows "take n (drop q (splice xs p bs)) = take n (drop q xs)"
proof (rule nth_equalityI)
  show "length (take n (drop q (splice xs p bs))) = length (take n (drop q xs))"
    using assms(2) by (auto simp: length_splice)
next
  fix i assume "i < length (take n (drop q (splice xs p bs)))"
  then have "i < n" by simp
  then show "take n (drop q (splice xs p bs)) ! i = take n (drop q xs) ! i"
    using assms by (auto simp: length_splice nth_splice apart_def)
qed

lemma contains_string_iff: "contains_string needle s \<longleftrightarrow> (\<exists>xs ys. s = xs @ needle @ ys)"
proof (induction s)
  case Nil
  then show ?case by auto
next
  case (Cons c cs)
  have "take (length needle) (c # cs) = needle \<longleftrightarrow> (\<exists>ys. c # cs = needle @ ys)"
    by (metis append_eq_conv_conj append_take_drop_id)
  moreover have "(\<exists>xs ys. c # cs = xs @ needle @ ys) \<longleftrightarrow>
      (\<exists>ys. c # cs = needle @ ys) \<or> (\<exists>xs ys. cs = xs @ needle @ ys)"
    by (metis append_Cons append_Nil list.inject neq_Nil_conv)
  ultimately show ?case using Cons by simp
qed

end
