(* ===== verification/Large_Object_Map_Space.thy ===== *)
theory Large_Object_Map_Space
  imports Free_List_Space
begin

text \<open>
  The large object space of the 32-bit builds (LargeObjectMapSpace in
  src/runtime/gc/space/large\_object\_space.cc): one anonymous mapping per object, in a map keyed by the
  object's address. Where the kernel places a mapping, or that it refuses one, is an argument of
  \<^verbatim>\<open>Alloc\<close>. The notification of the swap code at the start of \<^verbatim>\<open>Free\<close> is made where the space is used by it.
\<close>

section \<open>The space\<close>

record LargeObject =
  base_size :: nat
  is_zygote :: bool

record LargeObjectMapSpace =
  large_objects :: "LargeObject smap"
  lo_begin :: addr
  lo_end :: addr
  lo_num_bytes :: nat
  lo_num_objects :: nat
  lo_total_bytes :: nat
  lo_total_objects :: nat

definition LargeObjectMapSpace_Create :: LargeObjectMapSpace where
  "LargeObjectMapSpace_Create =
     \<lparr>large_objects = [], lo_begin = 0, lo_end = 0, lo_num_bytes = 0, lo_num_objects = 0,
      lo_total_bytes = 0, lo_total_objects = 0\<rparr>"

definition LO_Alloc :: "addr option \<Rightarrow> nat \<Rightarrow> LargeObjectMapSpace \<Rightarrow> addr \<times> nat \<times> LargeObjectMapSpace" where
  "LO_Alloc mem_map num_bytes sp =
     (case mem_map of
        None \<Rightarrow> (0, 0, sp)
      | Some obj \<Rightarrow>
          let allocation_size = RoundUp num_bytes kPageSize;
              sp = sp\<lparr>large_objects := sm_put obj \<lparr>base_size = allocation_size, is_zygote = False\<rparr> (large_objects sp)\<rparr>;
              sp = sp\<lparr>lo_begin := min (lo_begin sp) obj\<rparr>;
              obj_end = obj + allocation_size;
              sp = (if lo_end sp = 0 \<or> obj_end > lo_end sp then sp\<lparr>lo_end := obj_end\<rparr> else sp)
          in (obj, allocation_size,
              sp\<lparr>lo_num_bytes := lo_num_bytes sp + allocation_size,
                 lo_total_bytes := lo_total_bytes sp + allocation_size,
                 lo_num_objects := lo_num_objects sp + 1,
                 lo_total_objects := lo_total_objects sp + 1\<rparr>))"

definition LO_IsZygoteLargeObject :: "addr \<Rightarrow> LargeObjectMapSpace \<Rightarrow> bool option" where
  "LO_IsZygoteLargeObject obj sp = map_option is_zygote (map_of (large_objects sp) obj)"

definition LO_SetAllLargeObjectsAsZygoteObjects :: "LargeObjectMapSpace \<Rightarrow> LargeObjectMapSpace" where
  "LO_SetAllLargeObjectsAsZygoteObjects sp =
     sp\<lparr>large_objects := map (\<lambda>(k, lo). (k, lo\<lparr>is_zygote := True\<rparr>)) (large_objects sp)\<rparr>"

text \<open>Freeing what is not in the map is fatal.\<close>

definition LO_Free :: "addr \<Rightarrow> LargeObjectMapSpace \<Rightarrow> (nat \<times> LargeObjectMapSpace) option" where
  "LO_Free ptr sp =
     (case map_of (large_objects sp) ptr of
        None \<Rightarrow> None
      | Some lo \<Rightarrow>
          let allocation_size = base_size lo
          in Some (allocation_size,
                   sp\<lparr>lo_num_bytes := lo_num_bytes sp - allocation_size,
                      lo_num_objects := lo_num_objects sp - 1,
                      large_objects := sm_erase ptr (large_objects sp)\<rparr>))"

definition LO_AllocationSize :: "addr \<Rightarrow> LargeObjectMapSpace \<Rightarrow> nat option" where
  "LO_AllocationSize obj sp = map_option base_size (map_of (large_objects sp) obj)"

fun LO_FreeList :: "addr list \<Rightarrow> LargeObjectMapSpace \<Rightarrow> (nat \<times> LargeObjectMapSpace) option" where
  "LO_FreeList [] sp = Some (0, sp)"
| "LO_FreeList (p # ps) sp = do {
     (n, sp) \<leftarrow> LO_Free p sp;
     (rest, sp) \<leftarrow> LO_FreeList ps sp;
     Some (n + rest, sp)
   }"

text \<open>The ranges the walk passes to its callback, each followed by an empty one.\<close>

definition LO_Walk :: "LargeObjectMapSpace \<Rightarrow> (addr \<times> addr \<times> nat) list" where
  "LO_Walk sp = concat (map (\<lambda>(obj, lo). [(obj, obj + base_size lo, base_size lo), (0, 0, 0)]) (large_objects sp))"

definition LO_Contains :: "LargeObjectMapSpace \<Rightarrow> addr \<Rightarrow> bool" where
  "LO_Contains sp obj \<longleftrightarrow> sm_has obj (large_objects sp)"

section \<open>Accounting\<close>

definition lo_inv :: "LargeObjectMapSpace \<Rightarrow> bool" where
  "lo_inv sp \<longleftrightarrow>
     sm_wf (large_objects sp) \<and>
     lo_num_objects sp = length (large_objects sp) \<and>
     lo_num_bytes sp = sum_list (map (base_size \<circ> snd) (large_objects sp))"

lemma sum_sm_put:
  "sm_wf m \<Longrightarrow> \<not> sm_has k m \<Longrightarrow>
     length (sm_put k v m) = Suc (length m) \<and>
     sum_list (map (f \<circ> snd) (sm_put k v m)) = f v + sum_list (map (f \<circ> snd) m)" for f :: "'v \<Rightarrow> nat"
  by (induction k v m rule: sm_put.induct) (auto simp: sm_has_def split: if_splits)

lemma sum_sm_erase:
  "sm_wf m \<Longrightarrow> map_of m k = Some v \<Longrightarrow>
     Suc (length (sm_erase k m)) = length m \<and>
     f v + sum_list (map (f \<circ> snd) (sm_erase k m)) = sum_list (map (f \<circ> snd) m)" for f :: "'v \<Rightarrow> nat"
proof (induction m)
  case (Cons e m)
  show ?case
  proof (cases "fst e = k")
    case True
    then have "\<not> sm_has k m" using Cons.prems(1) by (cases e) (auto simp: sm_has_iff)
    then have "sm_erase k (e # m) = m" using True sm_erase_absent [of m k] by (simp add: sm_erase_def sm_has_def)
    then show ?thesis using True Cons.prems(2) by (cases e) simp
  next
    case False
    then show ?thesis using Cons by (cases e) (simp add: sm_erase_def)
  qed
qed simp

lemma sm_erase_put: "sm_wf m \<Longrightarrow> \<not> sm_has k m \<Longrightarrow> sm_erase k (sm_put k v m) = m"
  by (induction k v m rule: sm_put.induct)
     (auto simp: sm_erase_def sm_has_iff filter_id_conv split: if_splits)

lemma LO_Free_inv: "lo_inv sp \<Longrightarrow> LO_Free p sp = Some (n, sp') \<Longrightarrow> lo_inv sp'"
  using sum_sm_erase [of "large_objects sp" p _ base_size]
  by (fastforce simp: lo_inv_def LO_Free_def Let_def split: option.splits)

section \<open>Properties\<close>



end
