(* ===== verification/Task_Processor.thy ===== *)
theory Task_Processor
  imports Main "HOL-Library.Multiset" "HOL-Library.Monad_Syntax"
begin

text \<open>
  The queue of heap tasks (src/runtime/gc/task\_processor.h and task\_processor.cc), on which the swap code
  schedules its write tasks. \<open>tasks_\<close> is a multiset ordered by target time: the list of its tasks, in
  which a new task goes behind the tasks of the same time. What the thread that waits for a task does not control are
  arguments, both numbered by the rounds of its loop: \<open>clock k\<close> is the time it reads in round \<open>k\<close>, and \<open>during k\<close> what
  the other threads do to the processor while it waits at the end of that round, nothing if the wait ends by itself. A loop that
  never finds a task has no result.
\<close>

section \<open>Tasks\<close>

record HeapTask =
  task_id :: nat
  target_run_time :: nat

record TaskProcessor =
  is_running :: bool
  tasks :: "HeapTask list"
  running_thread :: nat

definition TaskProcessor_new :: TaskProcessor where
  "TaskProcessor_new = \<lparr>is_running = False, tasks = [], running_thread = 0\<rparr>"

definition CompareByTargetRunTime :: "HeapTask \<Rightarrow> HeapTask \<Rightarrow> bool" where
  "CompareByTargetRunTime a b \<longleftrightarrow> target_run_time a < target_run_time b"

fun ms_insert :: "HeapTask \<Rightarrow> HeapTask list \<Rightarrow> HeapTask list" where
  "ms_insert t [] = [t]"
| "ms_insert t (u # us) = (if CompareByTargetRunTime t u then t # u # us else u # ms_insert t us)"

definition AddTask :: "HeapTask \<Rightarrow> TaskProcessor \<Rightarrow> TaskProcessor" where
  "AddTask task tp = tp\<lparr>tasks := ms_insert task (tasks tp)\<rparr>"

text \<open>The result holds no task when the processor is not running and has nothing left; it also has the
  number of the next round.\<close>

partial_function (option) GetTask ::
  "(nat \<Rightarrow> nat) \<Rightarrow> (nat \<Rightarrow> TaskProcessor \<Rightarrow> TaskProcessor) \<Rightarrow> nat \<Rightarrow> TaskProcessor \<Rightarrow>
     (HeapTask option \<times> nat \<times> TaskProcessor) option" where
  "GetTask clock during k tp =
     (case tasks tp of
        [] \<Rightarrow>
          if \<not> is_running tp then Some (None, Suc k, tp)
          else GetTask clock during (Suc k) (during k tp)
      | task # rest \<Rightarrow>
          let current_time = clock k; target_time = target_run_time task in
          if \<not> is_running tp \<or> target_time \<le> current_time
          then Some (Some task, Suc k, tp\<lparr>tasks := rest\<rparr>)
          else GetTask clock during (Suc k) (during k tp))"

fun ms_remove :: "nat \<Rightarrow> HeapTask list \<Rightarrow> HeapTask list" where
  "ms_remove i [] = []"
| "ms_remove i (u # us) = (if task_id u = i then us else u # ms_remove i us)"

text \<open>A task is looked for among those of its own target time.\<close>

definition UpdateTargetRunTime :: "HeapTask \<Rightarrow> nat \<Rightarrow> TaskProcessor \<Rightarrow> TaskProcessor" where
  "UpdateTargetRunTime task new_target_time tp =
     (if task \<in> set (tasks tp) \<and> new_target_time \<noteq> target_run_time task
      then tp\<lparr>tasks := ms_insert (task\<lparr>target_run_time := new_target_time\<rparr>) (ms_remove (task_id task) (tasks tp))\<rparr>
      else tp)"

definition IsRunning :: "TaskProcessor \<Rightarrow> bool" where
  "IsRunning tp = is_running tp"

definition GetRunningThread :: "TaskProcessor \<Rightarrow> nat" where
  "GetRunningThread tp = running_thread tp"

definition Stop :: "TaskProcessor \<Rightarrow> TaskProcessor" where
  "Stop tp = tp\<lparr>is_running := False, running_thread := 0\<rparr>"

definition Start :: "nat \<Rightarrow> TaskProcessor \<Rightarrow> TaskProcessor" where
  "Start self tp = tp\<lparr>is_running := True, running_thread := self\<rparr>"

text \<open>What a task does to the processor and to the rest of the state is an argument.\<close>

partial_function (option) RunAllTasks ::
  "(HeapTask \<Rightarrow> TaskProcessor \<times> 's \<Rightarrow> TaskProcessor \<times> 's) \<Rightarrow> (nat \<Rightarrow> nat) \<Rightarrow> (nat \<Rightarrow> TaskProcessor \<Rightarrow> TaskProcessor) \<Rightarrow>
     nat \<Rightarrow> TaskProcessor \<times> 's \<Rightarrow> (nat \<times> TaskProcessor \<times> 's) option" where
  "RunAllTasks run clock during k st = do {
     (task, k, tp) \<leftarrow> GetTask clock during k (fst st);
     (case task of
        Some t \<Rightarrow> RunAllTasks run clock during k (run t (tp, snd st))
      | None \<Rightarrow> if \<not> IsRunning tp then Some (k, tp, snd st) else RunAllTasks run clock during k (tp, snd st))
   }"

section \<open>A queue of tasks by time\<close>

text \<open>What the processor relies on: the first task is one of least target time, an insertion adds
  exactly the new task, and the order is kept.\<close>

locale timed_queue =
  fixes inv_q :: "'q \<Rightarrow> bool"
    and content :: "'q \<Rightarrow> HeapTask multiset"
    and insert_q :: "HeapTask \<Rightarrow> 'q \<Rightarrow> 'q"
    and pop :: "'q \<Rightarrow> (HeapTask \<times> 'q) option"
  assumes inv_insert: "inv_q q \<Longrightarrow> inv_q (insert_q t q)"
    and content_insert: "content (insert_q t q) = add_mset t (content q)"
    and pop_None: "pop q = None \<longleftrightarrow> content q = {#}"
    and pop_Some: "inv_q q \<Longrightarrow> pop q = Some (t, q') \<Longrightarrow>
      inv_q q' \<and> content q = add_mset t (content q') \<and> (\<forall>u \<in># content q. target_run_time t \<le> target_run_time u)"
begin

lemma inv_inserts: "inv_q q \<Longrightarrow> inv_q (fold insert_q ts q)"
  by (induction ts arbitrary: q) (simp_all add: inv_insert)

lemma content_inserts: "content (fold insert_q ts q) = content q + mset ts"
  by (induction ts arbitrary: q) (simp_all add: content_insert)

text \<open>Whatever was inserted, a task of least target time comes out.\<close>

lemma pop_after_inserts:
  assumes "inv_q q" "content q = {#}" "ts \<noteq> []"
  shows "\<exists>t q'. pop (fold insert_q ts q) = Some (t, q') \<and> t \<in> set ts \<and>
    (\<forall>u \<in> set ts. target_run_time t \<le> target_run_time u) \<and> content q' = mset ts - {#t#}"
proof -
  have c: "content (fold insert_q ts q) = mset ts" using assms(2) by (simp add: content_inserts)
  then obtain t q' where p: "pop (fold insert_q ts q) = Some (t, q')"
    using pop_None [of "fold insert_q ts q"] assms(3) by (cases "pop (fold insert_q ts q)") auto
  note s = pop_Some [OF inv_inserts [OF assms(1)] p]
  have "t \<in> set ts" using s c by (metis set_mset_mset union_single_eq_member)
  moreover have "content q' = mset ts - {#t#}" using s c by simp
  ultimately show ?thesis using p s c by auto
qed

end

definition by_time :: "HeapTask list \<Rightarrow> bool" where
  "by_time ts \<longleftrightarrow> sorted (map target_run_time ts)"

definition pop_task :: "HeapTask list \<Rightarrow> (HeapTask \<times> HeapTask list) option" where
  "pop_task ts = (case ts of [] \<Rightarrow> None | t # us \<Rightarrow> Some (t, us))"

lemma mset_ms_insert [simp]: "mset (ms_insert t ts) = add_mset t (mset ts)"
  by (induction t ts rule: ms_insert.induct) simp_all

lemma set_ms_insert [simp]: "set (ms_insert t ts) = insert t (set ts)"
  by (induction t ts rule: ms_insert.induct) auto

lemma by_time_ms_insert: "by_time ts \<Longrightarrow> by_time (ms_insert t ts)"
  by (induction t ts rule: ms_insert.induct) (auto simp: by_time_def CompareByTargetRunTime_def)

interpretation task_queue: timed_queue by_time mset ms_insert pop_task
proof
  show "by_time q \<Longrightarrow> by_time (ms_insert t q)" for q t by (rule by_time_ms_insert)
qed (auto simp: pop_task_def by_time_def split: list.splits)

lemma set_ms_remove: "set (ms_remove i ts) \<subseteq> set ts"
  by (induction i ts rule: ms_remove.induct) auto

lemma by_time_ms_remove: "by_time ts \<Longrightarrow> by_time (ms_remove i ts)"
  using set_ms_remove by (induction i ts rule: ms_remove.induct) (fastforce simp: by_time_def)+

lemma mset_ms_remove:
  "t \<in> set ts \<Longrightarrow> distinct (map task_id ts) \<Longrightarrow> mset (ms_remove (task_id t) ts) = mset ts - {#t#}"
proof (induction ts)
  case (Cons u us)
  show ?case
  proof (cases "task_id u = task_id t")
    case True
    then have "u = t" using Cons.prems by (auto simp: image_iff)
    then show ?thesis by simp
  next
    case False
    then show ?thesis using Cons by auto
  qed
qed simp

section \<open>Properties\<close>

text \<open>What other threads can do to the processor, and the processor as the waiting thread finds it in each round.\<close>

inductive processor_ops :: "TaskProcessor \<Rightarrow> TaskProcessor \<Rightarrow> bool" where
  ops_none: "processor_ops tp tp"
| ops_add: "processor_ops tp tp' \<Longrightarrow> processor_ops tp (AddTask task tp')"
| ops_update: "processor_ops tp tp' \<Longrightarrow> processor_ops tp (UpdateTargetRunTime task t tp')"
| ops_stop: "processor_ops tp tp' \<Longrightarrow> processor_ops tp (Stop tp')"
| ops_start: "processor_ops tp tp' \<Longrightarrow> processor_ops tp (Start self tp')"

primrec at_round :: "(nat \<Rightarrow> TaskProcessor \<Rightarrow> TaskProcessor) \<Rightarrow> TaskProcessor \<Rightarrow> nat \<Rightarrow> TaskProcessor" where
  "at_round during tp 0 = tp"
| "at_round during tp (Suc k) = during k (at_round during tp k)"

text \<open>In a round the loop ends if the processor is stopped or a task is due.\<close>

definition round_ends :: "nat \<Rightarrow> TaskProcessor \<Rightarrow> bool" where
  "round_ends now tp \<longleftrightarrow> \<not> is_running tp \<or> (\<exists>t \<in> set (tasks tp). target_run_time t \<le> now)"

lemma processor_ops_by_time: "processor_ops tp tp' \<Longrightarrow> by_time (tasks tp) \<Longrightarrow> by_time (tasks tp')"
  by (induction rule: processor_ops.induct)
     (auto simp: AddTask_def UpdateTargetRunTime_def Stop_def Start_def by_time_ms_insert by_time_ms_remove)

lemma at_round_by_time:
  "(\<And>k tp. processor_ops tp (during k tp)) \<Longrightarrow> by_time (tasks tp) \<Longrightarrow> by_time (tasks (at_round during tp k))"
  by (induction k) (auto intro: processor_ops_by_time)

lemma GetTask_round:
  assumes "by_time (tasks tp)"
  shows "GetTask clock during k tp =
    (if round_ends (clock k) tp
     then Some (case tasks tp of [] \<Rightarrow> (None, Suc k, tp) | t # ts \<Rightarrow> (Some t, Suc k, tp\<lparr>tasks := ts\<rparr>))
     else GetTask clock during (Suc k) (during k tp))"
proof (cases "tasks tp")
  case (Cons t ts)
  have "round_ends (clock k) tp \<longleftrightarrow> \<not> is_running tp \<or> target_run_time t \<le> clock k"
    using assms by (auto simp: round_ends_def Cons by_time_def)
  then show ?thesis by (subst GetTask.simps) (simp add: Cons Let_def)
qed (subst GetTask.simps, simp add: round_ends_def)

text \<open>The loop ends in the first round in which it can.\<close>

lemma GetTask_first:
  assumes "\<And>k tp. processor_ops tp (during k tp)" and "by_time (tasks tp)"
    and "\<forall>j < m. \<not> round_ends (clock j) (at_round during tp j)"
  shows "GetTask clock during 0 tp = GetTask clock during m (at_round during tp m)"
  using assms(3)
proof (induction m)
  case (Suc m)
  then have "GetTask clock during 0 tp = GetTask clock during m (at_round during tp m)" by simp
  also have "\<dots> = GetTask clock during (Suc m) (at_round during tp (Suc m))"
    using Suc.prems by (subst GetTask_round [OF at_round_by_time [OF assms(1,2)]]) simp
  finally show ?case .
qed simp

text \<open>C33. The task processor hands out the earliest task as soon as it is due, whatever other threads add, reschedule, stop or start
  while it waits. Suppose that in some round the processor is stopped or one of its tasks is due. Then \<^verbatim>\<open>GetTask\<close> returns in
  the first such round, not earlier and not later. It returns a task that no other task of the queue precedes, which is due
  unless the processor is stopped, and takes exactly that task out, the queue staying in order; only a stopped processor
  with an empty queue gives no task.\<close>

theorem GetTask_earliest:
  assumes "by_time (tasks tp)" and "\<And>k tp. processor_ops tp (during k tp)"
    and "round_ends (clock n) (at_round during tp n)"
  shows "\<exists>m \<le> n. \<exists>r tp'. GetTask clock during 0 tp = Some (r, Suc m, tp') \<and>
    (\<forall>j < m. is_running (at_round during tp j) \<and> (\<forall>u \<in> set (tasks (at_round during tp j)). clock j < target_run_time u)) \<and>
    (case r of
       None \<Rightarrow> tasks (at_round during tp m) = [] \<and> \<not> is_running tp' \<and> tp' = at_round during tp m
     | Some task \<Rightarrow>
         (is_running tp' \<longrightarrow> target_run_time task \<le> clock m) \<and>
         (\<forall>u \<in> set (tasks (at_round during tp m)). target_run_time task \<le> target_run_time u) \<and>
         mset (tasks (at_round during tp m)) = add_mset task (mset (tasks tp')) \<and> by_time (tasks tp') \<and>
         tp' = (at_round during tp m)\<lparr>tasks := tasks tp'\<rparr>)"
proof -
  define m where "m = (LEAST j. round_ends (clock j) (at_round during tp j))"
  let ?tp = "at_round during tp m"
  have ends: "round_ends (clock m) ?tp" unfolding m_def by (rule LeastI) (rule assms(3))
  have wait: "\<forall>j < m. \<not> round_ends (clock j) (at_round during tp j)" unfolding m_def using not_less_Least by blast
  have bt: "by_time (tasks ?tp)" by (rule at_round_by_time [OF assms(2,1)])
  have "GetTask clock during 0 tp = Some (case tasks ?tp of [] \<Rightarrow> (None, Suc m, ?tp) | t # ts \<Rightarrow> (Some t, Suc m, ?tp\<lparr>tasks := ts\<rparr>))"
    unfolding GetTask_first [OF assms(2,1) wait] using ends by (subst GetTask_round [OF bt]) simp
  moreover have "m \<le> n" unfolding m_def by (rule Least_le) (rule assms(3))
  moreover have "\<forall>j < m. is_running (at_round during tp j) \<and> (\<forall>u \<in> set (tasks (at_round during tp j)). clock j < target_run_time u)"
    using wait by (auto simp: round_ends_def not_le)
  moreover have "target_run_time t \<le> clock m" if head: "tasks ?tp = t # ts" "is_running ?tp" for t ts
  proof -
    obtain u where "u \<in> set (t # ts)" "target_run_time u \<le> clock m" using ends head by (auto simp: round_ends_def)
    moreover have "target_run_time t \<le> target_run_time u" using bt head(1) calculation(1) by (auto simp: by_time_def)
    ultimately show ?thesis by linarith
  qed
  ultimately show ?thesis
    using ends bt by (intro exI [of _ m]) (auto simp: round_ends_def by_time_def split: list.split)
qed

definition demo_tasks :: TaskProcessor where
  "demo_tasks =
     AddTask \<lparr>task_id = 2, target_run_time = 50\<rparr> (AddTask \<lparr>task_id = 1, target_run_time = 70\<rparr> (Start 9 TaskProcessor_new))"

lemma demo_tasks_eq:
  "tasks demo_tasks = [\<lparr>task_id = 2, target_run_time = 50\<rparr>, \<lparr>task_id = 1, target_run_time = 70\<rparr>]" "is_running demo_tasks"
  by (simp_all add: demo_tasks_def AddTask_def Start_def TaskProcessor_new_def CompareByTargetRunTime_def)

text \<open>While the thread waits in round 2, another one adds a task for time 30.\<close>

definition demo_during :: "nat \<Rightarrow> TaskProcessor \<Rightarrow> TaskProcessor" where
  "demo_during k tp = (if k = 2 then AddTask \<lparr>task_id = 3, target_run_time = 30\<rparr> tp else tp)"

theorem GetTask_earliest_witness:
  "\<exists>tp'. GetTask (\<lambda>k. 10 * k) demo_during 0 demo_tasks = Some (Some \<lparr>task_id = 3, target_run_time = 30\<rparr>, 4, tp')"
proof -
  have ops: "processor_ops tp (demo_during k tp)" for k tp
    by (auto simp: demo_during_def intro: processor_ops.intros)
  have early: "at_round demo_during demo_tasks j = demo_tasks" if "j < 3" for j
  proof -
    from that have "j = 0 \<or> j = 1 \<or> j = 2" by linarith
    then show ?thesis by (auto simp: demo_during_def numeral_2_eq_2)
  qed
  have r3: "at_round demo_during demo_tasks 3 = AddTask \<lparr>task_id = 3, target_run_time = 30\<rparr> demo_tasks"
    using early [of 2] by (simp add: numeral_3_eq_3 demo_during_def numeral_2_eq_2)
  have t3: "tasks (at_round demo_during demo_tasks 3) =
      [\<lparr>task_id = 3, target_run_time = 30\<rparr>, \<lparr>task_id = 2, target_run_time = 50\<rparr>, \<lparr>task_id = 1, target_run_time = 70\<rparr>]"
    by (simp add: r3 AddTask_def demo_tasks_eq CompareByTargetRunTime_def)
  have "round_ends (10 * 3) (at_round demo_during demo_tasks 3)" by (simp add: round_ends_def t3)
  moreover have "by_time (tasks demo_tasks)" by (simp add: demo_tasks_eq by_time_def)
  ultimately obtain m r tp' where m: "m \<le> 3" "GetTask (\<lambda>k. 10 * k) demo_during 0 demo_tasks = Some (r, Suc m, tp')"
    and r: "case r of
       None \<Rightarrow> tasks (at_round demo_during demo_tasks m) = [] \<and> \<not> is_running tp' \<and> tp' = at_round demo_during demo_tasks m
     | Some task \<Rightarrow>
         (is_running tp' \<longrightarrow> target_run_time task \<le> 10 * m) \<and>
         (\<forall>u \<in> set (tasks (at_round demo_during demo_tasks m)). target_run_time task \<le> target_run_time u) \<and>
         mset (tasks (at_round demo_during demo_tasks m)) = add_mset task (mset (tasks tp')) \<and> by_time (tasks tp') \<and>
         tp' = (at_round demo_during demo_tasks m)\<lparr>tasks := tasks tp'\<rparr>"
    using GetTask_earliest [of demo_tasks demo_during "\<lambda>k. 10 * k" 3, OF _ ops] by blast
  let ?tp = "at_round demo_during demo_tasks m"
  have ne: "tasks ?tp \<noteq> []" "is_running ?tp"
    using m(1) early t3 r3 by (cases "m = 3"; simp add: AddTask_def demo_tasks_eq)+
  obtain task where rt: "r = Some task"
  proof (cases r)
    case None
    with r ne(1) show ?thesis by simp
  qed (rule that)
  note q = r [unfolded rt option.case]
  have "is_running tp' = is_running (?tp\<lparr>tasks := tasks tp'\<rparr>)" using q by (intro arg_cong [of _ _ is_running]) blast
  then have "is_running tp'" using ne(2) by simp
  then have task: "target_run_time task \<le> 10 * m" using q by blast
  have "mset (tasks ?tp) = add_mset task (mset (tasks tp'))" using q by blast
  then have mem: "task \<in> set (tasks ?tp)" by (metis set_mset_mset union_single_eq_member)
  have "m = 3"
  proof (rule ccontr)
    assume "m \<noteq> 3"
    then have "at_round demo_during demo_tasks m = demo_tasks" using m(1) early by simp
    then show False using task mem m(1) \<open>m \<noteq> 3\<close> by (auto simp: demo_tasks_eq)
  qed
  moreover have "r = Some \<lparr>task_id = 3, target_run_time = 30\<rparr>"
    using task mem by (auto simp: \<open>m = 3\<close> t3 rt)
  ultimately show ?thesis using m(2) by simp
qed



end
