(* ===== verification/Card_Table.thy ===== *)
theory Card_Table
  imports Free_List_Space
begin

text \<open>
  The card table behind the write barrier (src/runtime/gc/accounting/card\_table.h, card\_table.cc and
  card\_table-inl.h). The cards are bytes of memory, one for 128 bytes of heap, at addresses computed
  from a biased base. The base may lie below address 0 and is an integer. \<open>ws\<close> is the size of a machine
  word, 4 or 8, which the scans work with. A visitor is represented by the list of what it is called on.
\<close>

section \<open>The table\<close>

definition kCardShift :: nat where "kCardShift = 7"
definition kCardSize :: nat where "kCardSize = 2 ^ kCardShift"
definition kCardClean :: byte where "kCardClean = 0x0"
definition kCardDirty :: byte where "kCardDirty = 0x70"

record CardTable =
  map_begin :: nat
  map_end :: nat
  biased_begin :: int
  card_offset :: nat

text \<open>\<open>mapped\<close> is where the kernel puts the table; None stops the runtime. A mapping ends at a page
  boundary.\<close>

definition CardTable_Create :: "nat option \<Rightarrow> nat \<Rightarrow> nat \<Rightarrow> CardTable option" where
  "CardTable_Create mapped heap_begin heap_capacity = do {
     cardtable_begin \<leftarrow> mapped;
     let capacity = heap_capacity div kCardSize;
     let biased = int cardtable_begin - int (heap_begin div 2 ^ kCardShift);
     let biased_byte = biased mod 0x100;
     let (offset, biased) =
       (if biased_byte \<noteq> 0x70 then
          let delta = 0x70 - biased_byte;
              offset = delta + (if delta < 0 then 0x100 else 0)
          in (offset, biased + offset)
        else (0, biased));
     if biased mod 0x100 \<noteq> 0x70 then None
     else Some \<lparr>map_begin = cardtable_begin, map_end = cardtable_begin + RoundUp (capacity + 256) kPageSize,
                biased_begin = biased, card_offset = nat offset\<rparr>
   }"

definition CardFromAddr :: "CardTable \<Rightarrow> addr \<Rightarrow> addr" where
  "CardFromAddr ct a = nat (biased_begin ct + int (a div 2 ^ kCardShift))"

definition AddrFromCard :: "CardTable \<Rightarrow> addr \<Rightarrow> addr" where
  "AddrFromCard ct card_addr = nat (int card_addr - biased_begin ct) * 2 ^ kCardShift"

definition IsValidCard :: "CardTable \<Rightarrow> addr \<Rightarrow> bool" where
  "IsValidCard ct card_addr \<longleftrightarrow> map_begin ct + card_offset ct \<le> card_addr \<and> card_addr < map_end ct"

definition AddrIsInCardTable :: "CardTable \<Rightarrow> addr \<Rightarrow> bool" where
  "AddrIsInCardTable ct a \<longleftrightarrow> IsValidCard ct (nat (biased_begin ct + int (a div 2 ^ kCardShift)))"

definition MarkCard :: "CardTable \<Rightarrow> addr \<Rightarrow> mem \<Rightarrow> mem" where
  "MarkCard ct a m = m(CardFromAddr ct a := kCardDirty)"

definition GetCard :: "CardTable \<Rightarrow> mem \<Rightarrow> addr \<Rightarrow> byte" where
  "GetCard ct m obj = m (CardFromAddr ct obj)"

definition IsDirty :: "CardTable \<Rightarrow> mem \<Rightarrow> addr \<Rightarrow> bool" where
  "IsDirty ct m obj \<longleftrightarrow> GetCard ct m obj = kCardDirty"

text \<open>The write barriers of src/runtime/gc/heap.h.\<close>

definition WriteBarrierField :: "CardTable \<Rightarrow> addr \<Rightarrow> mem \<Rightarrow> mem" where
  "WriteBarrierField ct dst m = MarkCard ct dst m"

definition WriteBarrierArray :: "CardTable \<Rightarrow> addr \<Rightarrow> mem \<Rightarrow> mem" where
  "WriteBarrierArray ct dst m = MarkCard ct dst m"

definition WriteBarrierEveryFieldOf :: "CardTable \<Rightarrow> addr \<Rightarrow> mem \<Rightarrow> mem" where
  "WriteBarrierEveryFieldOf ct obj m = MarkCard ct obj m"

section \<open>Scanning\<close>

text \<open>One card: the range that is visited, and the card cleared if asked for.\<close>

definition visit_card :: "CardTable \<Rightarrow> bool \<Rightarrow> addr \<Rightarrow> mem \<times> addr list \<Rightarrow> mem \<times> addr list" where
  "visit_card ct kClearCard card_addr st =
     (if kClearCard then (fst st)(card_addr := 0) else fst st, snd st @ [AddrFromCard ct card_addr])"

definition scan_card :: "CardTable \<Rightarrow> bool \<Rightarrow> byte \<Rightarrow> addr \<Rightarrow> mem \<times> addr list \<Rightarrow> mem \<times> addr list" where
  "scan_card ct kClearCard minimum_age card_addr st =
     (if minimum_age \<le> fst st card_addr then visit_card ct kClearCard card_addr st else st)"

function scan_unaligned ::
  "nat \<Rightarrow> CardTable \<Rightarrow> bool \<Rightarrow> byte \<Rightarrow> addr \<Rightarrow> addr \<Rightarrow> mem \<times> addr list \<Rightarrow> addr \<times> mem \<times> addr list" where
  "scan_unaligned ws ct kClearCard minimum_age card_cur card_end st =
     (if card_cur mod ws \<noteq> 0 \<and> card_cur < card_end
      then scan_unaligned ws ct kClearCard minimum_age (card_cur + 1) card_end (scan_card ct kClearCard minimum_age card_cur st)
      else (card_cur, st))"
  by pat_completeness auto
termination by (relation "measure (\<lambda>(_, _, _, _, c, e, _). e - c)") auto

text \<open>The bytes of a word that was read once; \<open>start\<close> is the heap address of its first card.\<close>

fun scan_word :: "nat \<Rightarrow> bool \<Rightarrow> byte \<Rightarrow> addr \<Rightarrow> nat \<Rightarrow> addr \<Rightarrow> mem \<times> addr list \<Rightarrow> mem \<times> addr list" where
  "scan_word 0 kClearCard minimum_age card_addr start_word start st = st"
| "scan_word (Suc n) kClearCard minimum_age card_addr start_word start st =
     scan_word n kClearCard minimum_age (card_addr + 1) (start_word div 256) (start + kCardSize)
       (if minimum_age \<le> of_nat start_word
        then (if kClearCard then (fst st)(card_addr := 0) else fst st, snd st @ [start])
        else st)"

function scan_words ::
  "nat \<Rightarrow> CardTable \<Rightarrow> bool \<Rightarrow> byte \<Rightarrow> addr \<Rightarrow> addr \<Rightarrow> mem \<times> addr list \<Rightarrow> mem \<times> addr list" where
  "scan_words ws ct kClearCard minimum_age word_cur word_end st =
     (if word_cur < word_end \<and> 0 < ws then
        let start_word = load (fst st) word_cur ws in
        if start_word = 0 then scan_words ws ct kClearCard minimum_age (word_cur + ws) word_end st
        else scan_words ws ct kClearCard minimum_age (word_cur + ws) word_end
               (scan_word ws kClearCard minimum_age word_cur start_word (AddrFromCard ct word_cur) st)
      else st)"
  by pat_completeness auto
termination by (relation "measure (\<lambda>(_, _, _, _, c, e, _). e - c)") auto

fun scan_cards :: "CardTable \<Rightarrow> bool \<Rightarrow> byte \<Rightarrow> addr \<Rightarrow> nat \<Rightarrow> mem \<times> addr list \<Rightarrow> mem \<times> addr list" where
  "scan_cards ct kClearCard minimum_age card_cur 0 st = st"
| "scan_cards ct kClearCard minimum_age card_cur (Suc n) st =
     scan_cards ct kClearCard minimum_age (card_cur + 1) n (scan_card ct kClearCard minimum_age card_cur st)"

text \<open>\<^verbatim>\<open>Scan\<close>: the cards up to a word boundary, then whole words, then the rest. The last part starts
  at \<open>word_end\<close>, wherever the first part stopped.\<close>

definition Scan :: "nat \<Rightarrow> CardTable \<Rightarrow> bool \<Rightarrow> byte \<Rightarrow> addr \<Rightarrow> addr \<Rightarrow> mem \<Rightarrow> mem \<times> addr list" where
  "Scan ws ct kClearCard minimum_age scan_begin scan_end m =
     (let card_cur = CardFromAddr ct scan_begin;
          card_end = CardFromAddr ct (RoundUp scan_end kCardSize);
          (card_cur, st) = scan_unaligned ws ct kClearCard minimum_age card_cur card_end (m, []);
          word_end = card_end - card_end mod ws;
          st = scan_words ws ct kClearCard minimum_age card_cur word_end st
      in scan_cards ct kClearCard minimum_age word_end (card_end - word_end) st)"

section \<open>Modifying and clearing\<close>

text \<open>The modified-visitor's calls are the second component. Nothing interferes, so each exchange
  succeeds at once.\<close>

definition modify_card :: "(byte \<Rightarrow> byte) \<Rightarrow> addr \<Rightarrow> mem \<times> (addr \<times> byte \<times> byte) list \<Rightarrow> mem \<times> (addr \<times> byte \<times> byte) list" where
  "modify_card visitor card_addr st =
     (let expected = fst st card_addr; new_value = visitor expected in
      if expected \<noteq> new_value then ((fst st)(card_addr := new_value), snd st @ [(card_addr, expected, new_value)]) else st)"

function modify_start ::
  "nat \<Rightarrow> (byte \<Rightarrow> byte) \<Rightarrow> addr \<Rightarrow> addr \<Rightarrow> mem \<times> (addr \<times> byte \<times> byte) list \<Rightarrow> addr \<times> mem \<times> (addr \<times> byte \<times> byte) list" where
  "modify_start ws visitor card_cur card_end st =
     (if card_cur mod ws \<noteq> 0 \<and> card_cur < card_end
      then modify_start ws visitor (card_cur + 1) card_end (modify_card visitor card_cur st)
      else (card_cur, st))"
  by pat_completeness auto
termination by (relation "measure (\<lambda>(_, _, c, e, _). e - c)") auto

fun modify_end ::
  "nat \<Rightarrow> (byte \<Rightarrow> byte) \<Rightarrow> addr \<Rightarrow> addr \<Rightarrow> mem \<times> (addr \<times> byte \<times> byte) list \<Rightarrow> addr \<times> mem \<times> (addr \<times> byte \<times> byte) list" where
  "modify_end ws visitor card_cur 0 st = (0, st)"
| "modify_end ws visitor card_cur (Suc e) st =
     (if Suc e mod ws \<noteq> 0 \<and> card_cur < Suc e
      then modify_end ws visitor card_cur e (modify_card visitor e st)
      else (Suc e, st))"

fun modify_word :: "nat \<Rightarrow> (byte \<Rightarrow> byte) \<Rightarrow> addr \<Rightarrow> mem \<times> (addr \<times> byte \<times> byte) list \<Rightarrow> mem \<times> (addr \<times> byte \<times> byte) list" where
  "modify_word 0 visitor card_addr st = st"
| "modify_word (Suc n) visitor card_addr st = modify_word n visitor (card_addr + 1) (modify_card visitor card_addr st)"

function modify_words ::
  "nat \<Rightarrow> (byte \<Rightarrow> byte) \<Rightarrow> addr \<Rightarrow> addr \<Rightarrow> mem \<times> (addr \<times> byte \<times> byte) list \<Rightarrow> mem \<times> (addr \<times> byte \<times> byte) list" where
  "modify_words ws visitor word_cur word_end st =
     (if word_cur < word_end \<and> 0 < ws then
        if load (fst st) word_cur ws = 0 then modify_words ws visitor (word_cur + ws) word_end st
        else modify_words ws visitor (word_cur + ws) word_end (modify_word ws visitor word_cur st)
      else st)"
  by pat_completeness auto
termination by (relation "measure (\<lambda>(_, _, c, e, _). e - c)") auto

text \<open>No other thread writes cards meanwhile: each compare-and-swap succeeds the first time, so a card is
  replaced by the visitor's value of what was read, without a retry.\<close>

definition ModifyCardsAtomic ::
  "nat \<Rightarrow> CardTable \<Rightarrow> (byte \<Rightarrow> byte) \<Rightarrow> addr \<Rightarrow> addr \<Rightarrow> mem \<Rightarrow> mem \<times> (addr \<times> byte \<times> byte) list" where
  "ModifyCardsAtomic ws ct visitor scan_begin scan_end m =
     (let card_cur = CardFromAddr ct scan_begin;
          card_end = CardFromAddr ct (RoundUp scan_end kCardSize);
          (card_cur, st) = modify_start ws visitor card_cur card_end (m, []);
          (card_end, st) = modify_end ws visitor card_cur card_end st
      in modify_words ws visitor card_cur card_end st)"

fun VisitClear_from :: "addr \<Rightarrow> nat \<Rightarrow> mem \<times> addr list \<Rightarrow> mem \<times> addr list" where
  "VisitClear_from it 0 st = st"
| "VisitClear_from it (Suc n) st =
     VisitClear_from (it + 1) n
       (if fst st it = kCardDirty then ((fst st)(it := kCardClean), snd st @ [it]) else st)"

definition VisitClear :: "CardTable \<Rightarrow> addr \<Rightarrow> addr \<Rightarrow> mem \<Rightarrow> mem \<times> addr list" where
  "VisitClear ct start end' m =
     (let card_start = CardFromAddr ct start; card_end = CardFromAddr ct end'
      in VisitClear_from card_start (card_end - card_start) (m, []))"

definition ClearSpaceCards :: "CardTable \<Rightarrow> addr \<Rightarrow> addr \<Rightarrow> mem \<Rightarrow> mem" where
  "ClearSpaceCards ct sp_begin sp_end m =
     (let card_start = CardFromAddr ct sp_begin; card_end = CardFromAddr ct sp_end
      in zero_bytes m card_start (card_end - card_start))"

definition ClearCardTable :: "CardTable \<Rightarrow> mem \<Rightarrow> mem" where
  "ClearCardTable ct m = zero_bytes m (map_begin ct) (map_end ct - map_begin ct)"

definition AlignDown :: "nat \<Rightarrow> nat \<Rightarrow> nat" where
  "AlignDown x n = x div n * n"

text \<open>\<open>kMadviseZeroes\<close> is False where the kernel does not promise zero pages after madvise; the range
  that is cleared then is \<open>start\<close> to \<open>end\<close> itself.\<close>

definition ClearCardRange :: "bool \<Rightarrow> CardTable \<Rightarrow> addr \<Rightarrow> addr \<Rightarrow> mem \<Rightarrow> mem option" where
  "ClearCardRange kMadviseZeroes ct start end' m =
     (if \<not> kMadviseZeroes then Some (zero_bytes m start (end' - start))
      else if start mod kCardSize \<noteq> 0 \<or> end' mod kCardSize \<noteq> 0 then None
      else
        let start_card = CardFromAddr ct start;
            end_card = CardFromAddr ct end';
            round_start = RoundUp start_card kPageSize;
            round_end = AlignDown end_card kPageSize;
            m = (if round_start < round_end then zero_bytes m round_start (round_end - round_start) else m);
            m = zero_bytes m start_card (min round_start end_card - start_card);
            m = zero_bytes m (max round_end start_card) (end_card - max round_end start_card)
        in Some m)"

declare scan_unaligned.simps [simp del] scan_words.simps [simp del] modify_start.simps [simp del] modify_words.simps [simp del]

section \<open>Card addresses\<close>

lemma kCardSize_eq: "kCardSize = 128" "2 ^ kCardShift = (128 :: nat)"
  by (simp_all add: kCardSize_def kCardShift_def)

lemma Create_base:
  assumes "CardTable_Create (Some b) hb cap = Some ct"
  shows "map_begin ct = b" "map_end ct = b + RoundUp (cap div kCardSize + 256) kPageSize"
    and "card_offset ct < 256" "biased_begin ct = int b - int (hb div 128) + int (card_offset ct)"
    and "biased_begin ct mod 256 = 0x70"
proof -
  define z where "z = (int b - int (hb div 128)) mod 256"
  have z: "0 \<le> z" "z < 256" by (simp_all add: z_def)
  show "map_begin ct = b" "map_end ct = b + RoundUp (cap div kCardSize + 256) kPageSize"
    using assms by (auto simp: CardTable_Create_def Let_def split: if_splits)
  show "card_offset ct < 256" "biased_begin ct = int b - int (hb div 128) + int (card_offset ct)"
    using assms z by (auto simp: CardTable_Create_def Let_def kCardSize_eq nat_less_iff simp flip: z_def split: if_splits)
  show "biased_begin ct mod 256 = 0x70"
    using assms by (auto simp: CardTable_Create_def Let_def kCardSize_eq split: if_splits)
qed

lemma bias_mod: "(z + (112 - z mod 256)) mod 256 = (112 :: int)" "(z + (368 - z mod 256)) mod 256 = (112 :: int)"
proof -
  have "z + (112 - z mod 256) = 112 + 256 * (z div 256)" "z + (368 - z mod 256) = 112 + 256 * (z div 256 + 1)"
    using minus_mod_eq_mult_div [of z 256] by (simp_all add: algebra_simps)
  then show "(z + (112 - z mod 256)) mod 256 = 112" "(z + (368 - z mod 256)) mod 256 = 112"
    by (simp_all only: mod_mult_self2, simp_all)
qed

lemma Create_succeeds: "\<exists>ct. CardTable_Create (Some b) hb cap = Some ct"
  using bias_mod [of "int b - int (hb div 128)"] by (simp add: CardTable_Create_def Let_def kCardSize_eq)

lemma CardFromAddr_mono: "a \<le> a' \<Longrightarrow> CardFromAddr ct a \<le> CardFromAddr ct a'"
  unfolding CardFromAddr_def kCardSize_eq by (intro nat_mono add_left_mono) (simp add: div_le_mono)

text \<open>The reference scan, as a function of the cards' values.\<close>

lemma scan_cards_append:
  "scan_cards ct cl age c (a + b) st = scan_cards ct cl age (c + a) b (scan_cards ct cl age c a st)"
  by (induction a arbitrary: c st) simp_all

lemma scan_cards_spec:
  "scan_cards ct cl age c n (m, vs) =
     ((\<lambda>x. if cl \<and> c \<le> x \<and> x < c + n \<and> age \<le> m x then 0 else m x),
      vs @ map (AddrFromCard ct) (filter (\<lambda>x. age \<le> m x) [c..<c + n]))"
proof (induction n arbitrary: c m vs)
  case (Suc n)
  let ?m = "if age \<le> m c \<and> cl then m(c := 0) else m"
  have up: "[c..<c + Suc n] = c # [Suc c..<Suc c + n]" by (simp add: upt_conv_Cons del: upt_Suc)
  have flt: "filter (\<lambda>x. age \<le> ?m x) [Suc c..<Suc c + n] = filter (\<lambda>x. age \<le> m x) [Suc c..<Suc c + n]"
    by (rule filter_cong) auto
  have "scan_cards ct cl age c (Suc n) (m, vs) =
      scan_cards ct cl age (Suc c) n (?m, vs @ (if age \<le> m c then [AddrFromCard ct c] else []))"
    by (auto simp: scan_card_def visit_card_def)
  then show ?case unfolding up Suc.IH flt by (auto simp: fun_eq_iff Suc_le_eq order_le_less simp del: upt_Suc)
next
  case 0
  then show ?case by (simp add: fun_eq_iff) (metis not_less)
qed

lemma scan_unaligned_eq:
  assumes "0 < ws"
  shows "\<exists>n. scan_unaligned ws ct cl age c e st = (c + n, scan_cards ct cl age c n st) \<and>
    (n = 0 \<or> c + n \<le> e) \<and> ((c + n) mod ws = 0 \<or> e \<le> c + n) \<and> (\<forall>i < n. (c + i) mod ws \<noteq> 0)"
proof (induction ws ct cl age c e st rule: scan_unaligned.induct)
  case (1 ws ct cl age c e st)
  show ?case
  proof (cases "c mod ws \<noteq> 0 \<and> c < e")
    case True
    then obtain n where n: "scan_unaligned ws ct cl age (c + 1) e (scan_card ct cl age c st) =
          (c + 1 + n, scan_cards ct cl age (c + 1) n (scan_card ct cl age c st))"
        "n = 0 \<or> c + 1 + n \<le> e" "(c + 1 + n) mod ws = 0 \<or> e \<le> c + 1 + n" "\<forall>i < n. (c + 1 + i) mod ws \<noteq> 0"
      using "1.IH" [OF True] by (elim exE conjE)
    have "\<forall>i < Suc n. (c + i) mod ws \<noteq> 0" using True n(4) by (auto simp: less_Suc_eq_0_disj)
    then show ?thesis
      using True n by (intro exI [of _ "Suc n"]) (subst scan_unaligned.simps, auto)
  next
    case False
    then show ?thesis by (intro exI [of _ 0]) (subst scan_unaligned.simps, auto)
  qed
qed

lemma AddrFromCard_next: "biased_begin ct \<le> int c \<Longrightarrow> AddrFromCard ct (Suc c) = AddrFromCard ct c + kCardSize"
  by (simp add: AddrFromCard_def kCardSize_eq nat_add_distrib algebra_simps nat_diff_distrib)

lemma scan_word_eq:
  "biased_begin ct \<le> int c \<Longrightarrow> (\<And>x. c \<le> x \<Longrightarrow> fst st x = m x) \<Longrightarrow>
     scan_word n cl age c (load m c n) (AddrFromCard ct c) st = scan_cards ct cl age c n st"
proof (induction n arbitrary: c st)
  case (Suc n)
  have rd: "read_bytes m c (Suc n) = m c # read_bytes m (Suc c) n"
    by (simp add: read_bytes_def upt_conv_Cons map_Suc_upt [symmetric] o_def del: upt_Suc)
  have lt: "unat (m c) < 256" using unsigned_less [of "m c"] by simp
  have zero: "(256 :: byte) = 0" by (simp add: word_eq_iff_unsigned)
  have byte: "(of_nat (load m c (Suc n)) :: byte) = m c"
    by (simp add: load_def rd zero)
  have rest: "load m c (Suc n) div 256 = load m (Suc c) n" using lt by (simp add: load_def rd)
  let ?st = "scan_card ct cl age c st"
  have "fst ?st x = m x" if "Suc c \<le> x" for x
    using Suc.prems(2) [of x] that by (simp add: scan_card_def visit_card_def)
  then have "scan_word n cl age (Suc c) (load m (Suc c) n) (AddrFromCard ct (Suc c)) ?st = scan_cards ct cl age (Suc c) n ?st"
    using Suc.prems(1) by (intro Suc.IH) auto
  moreover have "(if age \<le> of_nat (load m c (Suc n))
      then (if cl then (fst st)(c := 0) else fst st, snd st @ [AddrFromCard ct c]) else st) = ?st"
    using Suc.prems(2) [of c] by (simp add: byte scan_card_def visit_card_def)
  ultimately show ?case using Suc.prems(1) by (simp add: rest AddrFromCard_next)
qed simp

lemma load_zero_bytes: "load m c n = 0 \<Longrightarrow> i < n \<Longrightarrow> m (c + i) = 0"
proof -
  have "le_nat bs = 0 \<Longrightarrow> j < length bs \<Longrightarrow> bs ! j = 0" for bs j
    by (induction bs arbitrary: j) (auto simp: nth_Cons unat_eq_0 split: nat.splits)
  from this [of "read_bytes m c n" i] show "load m c n = 0 \<Longrightarrow> i < n \<Longrightarrow> m (c + i) = 0"
    by (simp add: load_def)
qed

lemma scan_cards_clean:
  "(\<And>i. i < n \<Longrightarrow> fst st (c + i) = 0) \<Longrightarrow> 0 < age \<Longrightarrow> scan_cards ct cl age c n st = st"
proof (induction n arbitrary: c)
  case (Suc n)
  have "fst st c = 0" using Suc.prems(1) [of 0] by simp
  then have "scan_card ct cl age c st = st" using Suc.prems(2) by (auto simp: scan_card_def)
  moreover have "scan_cards ct cl age (Suc c) n st = st"
    using Suc.prems(1) [of "Suc _"] Suc.prems(2) by (intro Suc.IH) auto
  ultimately show ?case by simp
qed simp

lemma scan_words_eq:
  assumes "biased_begin ct \<le> int c" "0 < age" "0 < ws"
  shows "scan_words ws ct cl age c (c + k * ws) st = scan_cards ct cl age c (k * ws) st"
  using assms(1)
proof (induction k arbitrary: c st)
  case 0
  then show ?case by (subst scan_words.simps) simp
next
  case (Suc k)
  have ih: "scan_words ws ct cl age (c + ws) (c + Suc k * ws) s = scan_cards ct cl age (c + ws) (k * ws) s" for s
    using Suc.IH [of "c + ws" s] Suc.prems by (simp add: add.assoc)
  have split: "scan_cards ct cl age c (Suc k * ws) st = scan_cards ct cl age (c + ws) (k * ws) (scan_cards ct cl age c ws st)"
    using scan_cards_append [of ct cl age c ws "k * ws" st] by simp
  show ?case
  proof (cases "load (fst st) c ws = 0")
    case True
    then have "scan_cards ct cl age c ws st = st"
      using load_zero_bytes [OF True] assms(2) by (intro scan_cards_clean) auto
    then show ?thesis using True assms(3) split ih by (subst scan_words.simps) (simp add: Let_def)
  next
    case False
    then show ?thesis
      using assms(3) split ih scan_word_eq [OF Suc.prems, of st "fst st"] by (subst scan_words.simps) (simp add: Let_def)
  qed
qed

lemma CardFromAddr_above: "biased_begin ct \<le> int (CardFromAddr ct a)"
  by (simp add: CardFromAddr_def)

lemma RoundUp_least: "0 < n \<Longrightarrow> x \<le> y \<Longrightarrow> y mod n = 0 \<Longrightarrow> RoundUp x n \<le> y"
proof -
  assume n: "0 < n" "x \<le> y" "y mod n = 0"
  then have y: "y = y div n * n" by auto
  have "x + n - 1 < (y div n + 1) * n" using n y by (simp add: add_mult_distrib)
  then have "(x + n - 1) div n \<le> y div n" using n(1) by (simp add: less_mult_imp_div_less less_Suc_eq_le [symmetric])
  then show "RoundUp x n \<le> y" unfolding RoundUp_def using y by (metis mult_le_mono1)
qed

section \<open>Properties\<close>

text \<open>C28. Scanning cards by machine words equals scanning them one by one: when the first word boundary at or
  behind the first card is not behind the last card, \<^verbatim>\<open>Scan\<close> visits, in order and once each, exactly the
  cards of the range that are at least as old as asked for, and clears exactly those if it is to clear.\<close>

theorem Scan_visits_range:
  assumes "0 < ws" "0 < age" "CardFromAddr ct a = c" "CardFromAddr ct (RoundUp b kCardSize) = e" "RoundUp c ws \<le> e"
  shows "Scan ws ct cl age a b m =
    ((\<lambda>x. if cl \<and> c \<le> x \<and> x < e \<and> age \<le> m x then 0 else m x),
     map (AddrFromCard ct) (filter (\<lambda>x. age \<le> m x) [c..<e]))"
proof -
  obtain n where n: "scan_unaligned ws ct cl age c e (m, []) = (c + n, scan_cards ct cl age c n (m, []))"
      "n = 0 \<or> c + n \<le> e" "(c + n) mod ws = 0 \<or> e \<le> c + n" "\<forall>i < n. (c + i) mod ws \<noteq> 0"
    using scan_unaligned_eq [OF assms(1), of ct cl age c e "(m, [])"] by (elim exE conjE)
  have up: "RoundUp c ws mod ws = 0" "c \<le> RoundUp c ws"
    using RoundUp_bounds(1) [of ws c] assms(1) by (simp_all add: RoundUp_def)
  have al: "(c + n) mod ws = 0" "c + n \<le> e"
  proof -
    have "c + n \<le> RoundUp c ws"
    proof (rule ccontr)
      assume "\<not> c + n \<le> RoundUp c ws"
      then have "RoundUp c ws - c < n" using up(2) by linarith
      then show False using n(4) up by (metis le_add_diff_inverse)
    qed
    then show le: "c + n \<le> e" using assms(5) by linarith
    show "(c + n) mod ws = 0" using n(3) le up \<open>c + n \<le> RoundUp c ws\<close> assms(5) by (metis le_antisym)
  qed
  define we where "we = e - e mod ws"
  have "(e - e mod ws) mod ws = 0" by simp
  moreover have "c + n \<le> we" using al unfolding we_def by (metis div_le_mono minus_mod_eq_mult_div mod_0_imp_dvd dvd_mult_div_cancel mult_le_mono2)
  ultimately obtain k where k: "we = c + n + k * ws"
    using al(1) unfolding we_def by (metis dvd_diff_nat dvd_def le_add_diff_inverse mod_0_imp_dvd mult.commute)
  have tail: "e = we + (e - we)" by (simp add: we_def)
  have bias: "biased_begin ct \<le> int (c + n)" using CardFromAddr_above [of ct a] assms(3) by simp
  have "Scan ws ct cl age a b m = scan_cards ct cl age we (e - we) (scan_words ws ct cl age (c + n) we (scan_cards ct cl age c n (m, [])))"
    by (simp add: Scan_def assms(3,4) n(1) Let_def we_def)
  also have "\<dots> = scan_cards ct cl age c (n + k * ws + (e - we)) (m, [])"
    unfolding k scan_words_eq [OF bias assms(2,1)] by (simp add: scan_cards_append add.assoc)
  also have "n + k * ws + (e - we) = e - c" using tail k by linarith
  finally show ?thesis using al(2) by (simp add: scan_cards_spec)
qed

text \<open>C29. The condition of the previous property is needed. When a scan starts in the middle of a word and ends
  before the end of the same word, the last part of \<^verbatim>\<open>Scan\<close> starts again at the beginning of that word:
  cards of the range are visited a second time, and the cards between the beginning of the word and the
  range are visited although they lie outside of it.\<close>

theorem Scan_leaves_range:
  assumes "0 < ws" "CardFromAddr ct a = c" "CardFromAddr ct (RoundUp b kCardSize) = e"
    and "c mod ws \<noteq> 0" "c < e" "c div ws = e div ws"
  shows "Scan ws ct False age a b m =
    (m, map (AddrFromCard ct) (filter (\<lambda>x. age \<le> m x) ([c..<e] @ [e div ws * ws..<e])))"
proof -
  obtain n where n: "scan_unaligned ws ct False age c e (m, []) = (c + n, scan_cards ct False age c n (m, []))"
      "n = 0 \<or> c + n \<le> e" "(c + n) mod ws = 0 \<or> e \<le> c + n"
    using scan_unaligned_eq [OF assms(1), of ct False age c e "(m, [])"] by (elim exE conjE)
  have we: "e - e mod ws = e div ws * ws" by (metis minus_mod_eq_div_mult)
  have "e \<le> c + n"
  proof (rule ccontr)
    assume "\<not> e \<le> c + n"
    then have z: "(c + n) mod ws = 0" "c + n \<le> e" using n(3) by auto
    then have "(c + n) div ws \<le> c div ws" using assms(6) by (simp add: div_le_mono)
    then have "c + n \<le> c div ws * ws" using z(1) by (metis div_mult_mod_eq add_0_right mult_le_mono1)
    then have "c \<le> c div ws * ws" by simp
    then show False using assms(4) by (metis div_mult_mod_eq add_le_same_cancel1 le_zero_eq)
  qed
  then have e: "c + n = e" using n(2) assms(5) by auto
  have "e div ws * ws \<le> e" by simp
  then have "\<not> e < e div ws * ws" by linarith
  then have stop: "scan_words ws ct False age e (e div ws * ws) st = st" for st by (subst scan_words.simps) simp
  show ?thesis
    using e \<open>e div ws * ws \<le> e\<close> by (simp add: Scan_def assms(2,3) n(1) Let_def we stop scan_cards_spec)
qed

text \<open>A table with base 112: the card of address \<open>128 * i\<close> is \<open>112 + i\<close>.\<close>

definition demo_cards :: CardTable where
  "demo_cards = \<lparr>map_begin = 112, map_end = 400, biased_begin = 112, card_offset = 0\<rparr>"

lemma demo_CardFromAddr: "CardFromAddr demo_cards a = 112 + a div 128"
  by (simp add: CardFromAddr_def demo_cards_def kCardSize_eq nat_add_distrib)

lemma demo_AddrFromCard: "AddrFromCard demo_cards c = (c - 112) * 128"
  by (simp add: AddrFromCard_def demo_cards_def kCardSize_eq)

theorem Scan_visits_range_witness:
  "snd (Scan 8 demo_cards True 0x70 640 2048 ((\<lambda>_. 0)(118 := 0x70))) = [768]"
proof -
  have "filter (\<lambda>x. (0x70 :: byte) \<le> ((\<lambda>_. 0)(118 := 0x70)) x) [117..<128] = [118]"
    by (simp add: upt_rec)
  then show ?thesis
    using Scan_visits_range [of 8 "0x70" demo_cards 640 117 2048 128 True "(\<lambda>_. 0)(118 := 0x70)"]
    by (simp add: demo_CardFromAddr demo_AddrFromCard kCardSize_eq RoundUp_def)
qed

theorem Scan_leaves_range_witness:
  "Scan 8 demo_cards False 0x70 640 896 ((\<lambda>_. 0)(112 := 0x70)) = ((\<lambda>_. 0)(112 := 0x70), [0])"
proof -
  have "filter (\<lambda>x. (0x70 :: byte) \<le> ((\<lambda>_. 0)(112 := 0x70)) x) ([117..<119] @ [112..<119]) = [112]"
    by (simp add: upt_rec)
  then show ?thesis
    using Scan_leaves_range [of 8 demo_cards 640 117 896 119 "0x70" "(\<lambda>_. 0)(112 := 0x70)"]
    by (simp add: demo_CardFromAddr kCardSize_eq RoundUp_def demo_AddrFromCard)
qed

section \<open>Modifying cards\<close>

lemma fold_modify:
  "distinct cs \<Longrightarrow> fold (modify_card f) cs (m, vs) =
     ((\<lambda>x. if x \<in> set cs then f (m x) else m x),
      vs @ map (\<lambda>x. (x, m x, f (m x))) (filter (\<lambda>x. f (m x) \<noteq> m x) cs))"
proof (induction cs arbitrary: m vs)
  case (Cons c cs)
  let ?m = "m(c := f (m c))"
  have step: "modify_card f c (m, vs) = (?m, vs @ (if f (m c) \<noteq> m c then [(c, m c, f (m c))] else []))"
    by (auto simp: modify_card_def Let_def fun_eq_iff)
  have same: "x \<in> set cs \<Longrightarrow> ?m x = m x" for x using Cons.prems by auto
  have "map (\<lambda>x. (x, ?m x, f (?m x))) (filter (\<lambda>x. f (?m x) \<noteq> ?m x) cs) =
      map (\<lambda>x. (x, m x, f (m x))) (filter (\<lambda>x. f (m x) \<noteq> m x) cs)"
    using same by (intro map_cong filter_cong) auto
  moreover have "(\<lambda>x. if x \<in> set cs then f (?m x) else ?m x) = (\<lambda>x. if x \<in> set (c # cs) then f (m x) else m x)"
    using Cons.prems by (auto simp: fun_eq_iff)
  ultimately show ?case
    using Cons.prems by (simp only: fold_simps step Cons.IH [of ?m] distinct.simps) simp
qed simp

lemma modify_start_eq:
  assumes "0 < ws"
  shows "\<exists>n. modify_start ws f c e st = (c + n, fold (modify_card f) [c..<c + n] st) \<and>
    (n = 0 \<or> c + n \<le> e) \<and> ((c + n) mod ws = 0 \<or> e \<le> c + n)"
proof (induction ws f c e st rule: modify_start.induct)
  case (1 ws f c e st)
  show ?case
  proof (cases "c mod ws \<noteq> 0 \<and> c < e")
    case True
    obtain n where n: "modify_start ws f (c + 1) e (modify_card f c st) =
          (c + 1 + n, fold (modify_card f) [c + 1..<c + 1 + n] (modify_card f c st))"
        "n = 0 \<or> c + 1 + n \<le> e" "(c + 1 + n) mod ws = 0 \<or> e \<le> c + 1 + n"
      using "1.IH" [OF True] by (elim exE conjE)
    have "[c..<c + Suc n] = c # [c + 1..<c + 1 + n]" by (simp add: upt_conv_Cons del: upt_Suc)
    then show ?thesis
      using True n by (intro exI [of _ "Suc n"]) (subst modify_start.simps, auto simp del: upt_Suc)
  next
    case False
    then show ?thesis by (intro exI [of _ 0]) (subst modify_start.simps, auto)
  qed
qed

lemma modify_end_eq:
  "c \<le> e \<Longrightarrow> \<exists>k. modify_end ws f c e st = (e - k, fold (modify_card f) (rev [e - k..<e]) st) \<and>
    k \<le> e - c \<and> ((e - k) mod ws = 0 \<or> e - k = c)"
proof (induction ws f c e st rule: modify_end.induct)
  case (2 ws f c e st)
  show ?case
  proof (cases "Suc e mod ws \<noteq> 0 \<and> c < Suc e")
    case True
    then have "c \<le> e" by simp
    obtain k where k: "modify_end ws f c e (modify_card f e st) = (e - k, fold (modify_card f) (rev [e - k..<e]) (modify_card f e st))"
        "k \<le> e - c" "(e - k) mod ws = 0 \<or> e - k = c"
      using "2.IH" [OF True \<open>c \<le> e\<close>] by (elim exE conjE)
    then show ?thesis using True by (intro exI [of _ "Suc k"]) auto
  next
    case False
    then show ?thesis using "2.prems" by (intro exI [of _ 0]) auto
  qed
qed auto

lemma modify_word_eq: "modify_word n f c st = fold (modify_card f) [c..<c + n] st"
proof (induction n arbitrary: c st)
  case (Suc n)
  have "[c..<c + Suc n] = c # [Suc c..<Suc c + n]" by (simp add: upt_conv_Cons del: upt_Suc)
  then show ?case using Suc by (simp del: upt_Suc)
qed simp

lemma fold_fixpoint: "(\<And>x. x \<in> set xs \<Longrightarrow> g x s = s) \<Longrightarrow> fold g xs s = s"
  by (induction xs) simp_all

lemma modify_words_eq:
  assumes "0 < ws" "f 0 = 0"
  shows "modify_words ws f c (c + k * ws) st = fold (modify_card f) [c..<c + k * ws] st"
proof (induction k arbitrary: c st)
  case 0
  then show ?case by (subst modify_words.simps) simp
next
  case (Suc k)
  have ih: "modify_words ws f (c + ws) (c + Suc k * ws) s = fold (modify_card f) [c + ws..<c + Suc k * ws] s" for s
    using Suc.IH [of "c + ws" s] by (simp add: add.assoc)
  have split: "[c..<c + Suc k * ws] = [c..<c + ws] @ [c + ws..<c + Suc k * ws]"
    using upt_add_eq_append [of c "c + ws" "k * ws"] by (simp add: add.assoc)
  have zero: "fold (modify_card f) [c..<c + ws] st = st" if "load (fst st) c ws = 0"
  proof -
    have "modify_card f x st = st" if "x \<in> set [c..<c + ws]" for x
    proof -
      have "fst st x = 0" using load_zero_bytes [OF \<open>load (fst st) c ws = 0\<close>, of "x - c"] that by auto
      then show ?thesis using assms(2) by (simp add: modify_card_def)
    qed
    then show ?thesis by (intro fold_fixpoint) blast
  qed
  show ?case
    using assms(1) zero by (subst modify_words.simps) (simp add: ih [simplified] split [simplified] modify_word_eq)
qed

text \<open>C30. Ageing cards atomically equals mapping the visitor over them: for a visitor that keeps clean cards
  clean, \<^verbatim>\<open>ModifyCardsAtomic\<close> replaces every card of the range by the visitor's value of it, touches no other
  byte, and reports exactly the cards that changed, once each, with their old and new values.\<close>

theorem ModifyCardsAtomic_maps:
  assumes "0 < ws" "f 0 = 0" "CardFromAddr ct a = c" "CardFromAddr ct (RoundUp b kCardSize) = e" "c \<le> e"
  shows "fst (ModifyCardsAtomic ws ct f a b m) = (\<lambda>x. if c \<le> x \<and> x < e then f (m x) else m x) \<and>
    distinct (snd (ModifyCardsAtomic ws ct f a b m)) \<and>
    set (snd (ModifyCardsAtomic ws ct f a b m)) = {(x, m x, f (m x)) | x. c \<le> x \<and> x < e \<and> f (m x) \<noteq> m x}"
proof -
  obtain n where n: "modify_start ws f c e (m, []) = (c + n, fold (modify_card f) [c..<c + n] (m, []))"
      "n = 0 \<or> c + n \<le> e" "(c + n) mod ws = 0 \<or> e \<le> c + n"
    using modify_start_eq [OF assms(1), of f c e "(m, [])"] by (elim exE conjE)
  have cn: "c + n \<le> e" using n(2) assms(5) by auto
  obtain k where k: "modify_end ws f (c + n) e (fold (modify_card f) [c..<c + n] (m, [])) =
        (e - k, fold (modify_card f) (rev [e - k..<e]) (fold (modify_card f) [c..<c + n] (m, [])))"
      "k \<le> e - (c + n)" "(e - k) mod ws = 0 \<or> e - k = c + n"
    using modify_end_eq [OF cn, of ws f "fold (modify_card f) [c..<c + n] (m, [])"] by (elim exE conjE)
  have "\<exists>j. e - k = c + n + j * ws"
  proof (cases "e - k = c + n")
    case False
    then have "(e - k) mod ws = 0" "(c + n) mod ws = 0" "c + n \<le> e - k" using n(3) k(2,3) cn by auto
    then have "ws dvd (e - k) - (c + n)" by (intro dvd_diff_nat mod_0_imp_dvd)
    then show ?thesis using \<open>c + n \<le> e - k\<close> by (metis dvd_def le_add_diff_inverse mult.commute)
  qed (intro exI [of _ 0], simp)
  then obtain j where j: "e - k = c + n + j * ws" ..
  let ?cs = "[c..<c + n] @ rev [e - k..<e] @ [c + n..<e - k]"
  have "ModifyCardsAtomic ws ct f a b m = fold (modify_card f) ?cs (m, [])"
    using modify_words_eq [where f = f, OF assms(1,2), of "c + n" j] j
    by (simp add: ModifyCardsAtomic_def assms(3,4) n(1) k(1))
  moreover have d: "distinct ?cs" and s: "set ?cs = {c..<e}" using k(2) cn j by auto
  ultimately have eq: "ModifyCardsAtomic ws ct f a b m =
      ((\<lambda>x. if x \<in> {c..<e} then f (m x) else m x), map (\<lambda>x. (x, m x, f (m x))) (filter (\<lambda>x. f (m x) \<noteq> m x) ?cs))"
    by (simp only: fold_modify [OF d] s append_Nil)
  have "distinct (snd (ModifyCardsAtomic ws ct f a b m))"
    using d by (simp only: eq snd_conv distinct_map distinct_filter) (simp add: inj_on_def)
  moreover have "set (snd (ModifyCardsAtomic ws ct f a b m)) = {(x, m x, f (m x)) | x. c \<le> x \<and> x < e \<and> f (m x) \<noteq> m x}"
    by (simp only: eq snd_conv set_map set_filter s) auto
  ultimately show ?thesis by (simp add: eq)
qed

theorem ModifyCardsAtomic_maps_witness:
  "fst (ModifyCardsAtomic 8 demo_cards (\<lambda>_. 0) 640 896 (\<lambda>_. 0x70)) = (\<lambda>x. if 117 \<le> x \<and> x < 119 then 0 else 0x70)"
  using ModifyCardsAtomic_maps [of 8 "\<lambda>_. 0" demo_cards 640 117 896 119 "\<lambda>_. 0x70"]
  by (simp add: demo_CardFromAddr kCardSize_eq RoundUp_def)

section \<open>Clearing cards\<close>

lemma zero_bytes_at: "zero_bytes m a n x = (if a \<le> x \<and> x < a + n then 0 else m x)"
  by (auto simp: zero_bytes_def write_bytes_def)

text \<open>C31. Clearing a card range clears exactly its cards: for a range aligned to cards, \<^verbatim>\<open>ClearCardRange\<close> (where
  madvise zeroes) makes every card from that of the start up to that of the end clean, by dropping whole
  pages and clearing the rest by hand, and changes no other byte.\<close>

theorem ClearCardRange_exact:
  assumes "a mod kCardSize = 0" "b mod kCardSize = 0" "a \<le> b"
  shows "ClearCardRange True ct a b m =
    Some (\<lambda>x. if CardFromAddr ct a \<le> x \<and> x < CardFromAddr ct b then 0 else m x)"
proof -
  let ?s = "CardFromAddr ct a" and ?e = "CardFromAddr ct b"
  have le: "?s \<le> ?e" using assms(3) by (rule CardFromAddr_mono)
  have rs: "?s \<le> RoundUp ?s kPageSize" using RoundUp_bounds(1) [of kPageSize ?s] by (simp add: kPageSize_def)
  have re: "AlignDown ?e kPageSize \<le> ?e" by (simp add: AlignDown_def)
  show ?thesis
    using assms(1,2) le rs re
    by (simp add: ClearCardRange_def Let_def) (auto simp: fun_eq_iff zero_bytes_at min_def max_def)
qed

theorem ClearCardRange_exact_witness:
  "ClearCardRange True demo_cards 0 256 (\<lambda>_. 1) = Some (\<lambda>x. if 112 \<le> x \<and> x < 114 then 0 else 1)"
  using ClearCardRange_exact [of 0 256 demo_cards "\<lambda>_. 1"] by (simp add: demo_CardFromAddr kCardSize_eq)

text \<open>C32. Every heap address has a card: for a heap whose begin and capacity are multiples of the card size,
  the table that \<^verbatim>\<open>Create\<close> sets up has a base whose low byte is the dirty value, maps the first heap address
  to its first card and every heap address to a card inside the mapping, gives two addresses the same card
  exactly when they lie in the same 128 bytes, and \<^verbatim>\<open>AddrFromCard\<close> leads back to the start of those bytes.\<close>

theorem Create_covers_heap:
  assumes "CardTable_Create (Some b) hb cap = Some ct" "hb mod kCardSize = 0" "cap mod kCardSize = 0"
    and "hb \<le> a" "a < hb + cap" "hb \<le> a'"
  shows "biased_begin ct mod 0x100 = 0x70 \<and> CardFromAddr ct hb = b + card_offset ct \<and>
    IsValidCard ct (CardFromAddr ct a) \<and>
    (CardFromAddr ct a = CardFromAddr ct a' \<longleftrightarrow> a div kCardSize = a' div kCardSize) \<and>
    AddrFromCard ct (CardFromAddr ct a) = a div kCardSize * kCardSize"
proof -
  note base = Create_base [OF assms(1)]
  define i where "i = a div 128 - hb div 128"
  have i: "a div 128 = hb div 128 + i" using assms(4) by (simp add: i_def div_le_mono)
  have ca: "CardFromAddr ct a = b + card_offset ct + i" by (simp add: CardFromAddr_def kCardSize_eq base(4) i)
  have chb: "CardFromAddr ct hb = b + card_offset ct" by (simp add: CardFromAddr_def kCardSize_eq base(4))
  have ca': "int (CardFromAddr ct a') = biased_begin ct + int (a' div 128)"
    using div_le_mono [OF assms(6), of 128] by (simp add: CardFromAddr_def kCardSize_eq base(4))
  have "a div 128 < hb div 128 + cap div 128"
  proof -
    have "hb = 128 * (hb div 128)" "cap = 128 * (cap div 128)" using assms(2,3) by (auto simp: kCardSize_eq)
    then have "a < 128 * (hb div 128 + cap div 128)" using assms(5) by (simp add: add_mult_distrib2)
    then show ?thesis by (simp add: less_mult_imp_div_less mult.commute)
  qed
  then have "i < cap div kCardSize" using i by (simp add: kCardSize_eq)
  moreover have "cap div kCardSize + 256 \<le> RoundUp (cap div kCardSize + 256) kPageSize"
    using RoundUp_bounds(1) [of kPageSize] by (simp add: kPageSize_def)
  ultimately have valid: "IsValidCard ct (CardFromAddr ct a)"
    using base(1-3) by (simp add: IsValidCard_def ca)
  have "CardFromAddr ct a = CardFromAddr ct a' \<longleftrightarrow> a div 128 = a' div 128"
    using ca' ca i base(4) by auto
  moreover have "AddrFromCard ct (CardFromAddr ct a) = a div 128 * 128"
    using ca i base(4) by (simp add: AddrFromCard_def kCardSize_eq)
  ultimately show ?thesis using base(5) chb valid by (simp add: kCardSize_eq)
qed

theorem Create_covers_heap_witness:
  "\<exists>ct. CardTable_Create (Some 4096) 0 1280 = Some ct \<and> IsValidCard ct (CardFromAddr ct 1000)"
proof -
  obtain ct where "CardTable_Create (Some 4096) 0 1280 = Some ct" using Create_succeeds by blast
  then show ?thesis using Create_covers_heap [of 4096 0 1280 ct 1000 1000] by (simp add: kCardSize_eq)
qed

end
