(* ===== verification/Swap_State.thy ===== *)
theory Swap_State
  imports Stub File_Stream Large_Object_Map_Space Task_Processor Lock_Protocol Card_Table
begin

text \<open>
  The state of the swap code (src/runtime/marvin\_swap.cc): its global variables as the fields of one
  record, beside the memory, the files, the heap spaces and the task queue they work on; and bringing
  an object back into memory. The mutexes of the file guard sections that run to their end before
  another thread enters; an operation here is one such run.

  What lies outside is in the record \<open>env\<close>: the class table, the address RosAlloc gives an object,
  the clock, the process's id and command line, where the kernel puts mappings, how many of the bytes
  asked for \<open>sendfile\<close> moves, and what is in variables and buffers that were never written.
\<close>

section \<open>The variables\<close>

text \<open>The counters wrap around: \<^verbatim>\<open>int\<close> has 32 bits and \<^verbatim>\<open>long\<close> has 64, as on the device that a comment of the
  file names. \<^verbatim>\<open>size_t\<close> has 64.\<close>

definition to_int :: "int \<Rightarrow> int" where
  "to_int x = signed_take_bit 31 x"

definition to_long :: "int \<Rightarrow> int" where
  "to_long x = signed_take_bit 63 x"

lemma to_int_id: "- (2 ^ 31) \<le> x \<Longrightarrow> x < 2 ^ 31 \<Longrightarrow> to_int x = x"
  by (simp add: to_int_def signed_take_bit_int_eq_self)

lemma to_int_add_to_int [simp]: "to_int (to_int x + y) = to_int (x + y)"
proof -
  have "take_bit 32 (signed_take_bit 31 x) = take_bit 32 x" by (simp add: take_bit_signed_take_bit)
  then have "take_bit 32 (signed_take_bit 31 x + y) = take_bit 32 (x + y)" by (metis take_bit_add)
  then show ?thesis by (simp add: to_int_def signed_take_bit_eq_iff_take_bit_eq)
qed

lemma to_int_add_to_int' [simp]: "to_int (y + to_int x) = to_int (y + x)"
  using to_int_add_to_int [of x y] by (simp add: add.commute)

lemma to_int_to_int [simp]: "to_int (to_int x) = to_int x"
  using to_int_add_to_int [of x 0] by simp


text \<open>The main space. Its internals are not modelled: \<open>ros_slots\<close> has the size of every slot in use.\<close>

record ros_space =
  ros_begin :: addr
  ros_limit :: addr
  ros_slots :: "nat smap"

datatype gc_request = RequestConcurrentGC | PerformHomogeneousSpaceCompact

record world =
  memory :: mem
  pid :: nat
  remappingTable :: "addr smap"
  semiSpaceRemappingTable :: "addr smap"
  createStubSet :: "addr list"
  stubRTEMap :: "addr smap"
  creatingStubs :: bool
  bgMarkSweepCounter :: nat
  freedObjects :: int
  freedSize :: int
  swapfileObjects :: int
  swapfileSize :: int
  appInForeground :: bool
  swapEnabled :: bool
  swappedInSpace :: "FreeListSpace option"
  recTable :: ReclamationTable
  swapfile :: fstream
  objectOffsetMap :: "int smap"
  objectSizeMap :: "nat smap"
  writeQueue :: "addr list"
  writeSet :: "addr list"
  filesystem :: filesys
  ros :: ros_space
  los :: LargeObjectMapSpace
  task_processor :: "TaskProcessor option"
  clock_reads :: nat
  gc_requests :: "gc_request list"
  heap_roots :: "addr list"
  bytes_freed :: nat
  card_table :: CardTable

record env =
  class_table :: classes
  ros_place :: "ros_space \<Rightarrow> nat \<Rightarrow> addr option"
  ros_slot_size :: "nat \<Rightarrow> nat"
  temp_addr :: addr
  nano_time :: "nat \<Rightarrow> nat"
  process_id :: nat
  proc_cmdline :: string
  mapped_table :: "addr option"
  mapped_space :: "addr option"
  mapped_infos :: "addr option"
  next_task_id :: "TaskProcessor \<Rightarrow> nat"
  sendfile_moves :: "nat \<Rightarrow> nat"
  stat_junk :: nat
  uninit_bytes :: "nat \<Rightarrow> byte list"

definition BG_MARK_SWEEPS_BEFORE_SEMI_SPACE :: nat where "BG_MARK_SWEEPS_BEFORE_SEMI_SPACE = 6"
definition WRITE_TASK_FG_MAX_DURATION :: nat where "WRITE_TASK_FG_MAX_DURATION = 1000000000"
definition WRITE_TASK_BG_MAX_DURATION :: nat where "WRITE_TASK_BG_MAX_DURATION = 1000000000"
definition WRITE_TASK_FG_WAIT_TIME :: nat where "WRITE_TASK_FG_WAIT_TIME = 5000000000"
definition WRITE_TASK_BG_WAIT_TIME :: nat where "WRITE_TASK_BG_WAIT_TIME = 30000000000"
definition WRITE_TASK_STARTUP_DELAY :: nat where "WRITE_TASK_STARTUP_DELAY = 6000000000"
definition REC_TABLE_NUM_ENTRIES :: nat where "REC_TABLE_NUM_ENTRIES = 60000"
definition SWAPPED_IN_SPACE_START :: nat where "SWAPPED_IN_SPACE_START = 0xc0000000"
definition SWAPPED_IN_SPACE_SIZE :: nat where "SWAPPED_IN_SPACE_SIZE = 512 * 1024 * 1024"

definition NanoTime :: "env \<Rightarrow> world \<Rightarrow> nat \<times> world" where
  "NanoTime e w = (nano_time e (clock_reads w), w\<lparr>clock_reads := Suc (clock_reads w)\<rparr>)"

definition on_memory :: "(mem \<Rightarrow> mem) \<Rightarrow> world \<Rightarrow> world" where
  "on_memory f w = w\<lparr>memory := f (memory w)\<rparr>"

section \<open>The spaces\<close>

definition ros_Contains :: "world \<Rightarrow> addr \<Rightarrow> bool" where
  "ros_Contains w obj \<longleftrightarrow> ros_begin (ros w) \<le> obj \<and> obj < ros_limit (ros w)"

text \<open>None: the space has not been created.\<close>

definition swappedIn_Contains :: "world \<Rightarrow> addr \<Rightarrow> bool option" where
  "swappedIn_Contains w obj = map_option (\<lambda>sp. Contains sp obj) (swappedInSpace w)"

definition objectInSwappableSpace :: "world \<Rightarrow> addr \<Rightarrow> bool option" where
  "objectInSwappableSpace w obj =
     (if ros_Contains w obj then Some True
      else if LO_Contains (los w) obj then Some True
      else swappedIn_Contains w obj)"

section \<open>Bringing an object back\<close>

definition swapInObject :: "env \<Rightarrow> addr \<Rightarrow> int \<Rightarrow> nat \<Rightarrow> world \<Rightarrow> (addr \<times> world) option" where
  "swapInObject e stub objOffset objSize w =
     (if GetResidentBit (memory w) (GetTableEntry (memory w) stub) then None
      else if Stub_GetObjectAddress (memory w) stub = 0 then None
      else do {
        let destObj = Stub_GetObjectAddress (memory w) stub;
        let curPos = fs_tellp (swapfile w);
        let s = fs_seekg objOffset (swapfile w);
        let (bytes, s) = fs_read objSize (filesystem w) s;
        let w = w\<lparr>memory := write_bytes (memory w) destObj bytes, swapfile := fs_seekg curPos s\<rparr>;
        if GetDirtyBit (memory w) destObj then None
        else do {
          m \<leftarrow> CopyRefsInto (class_table e) (memory w) stub destObj;
          let m = SetResidentBit m (GetTableEntry m stub);
          Some (destObj, w\<lparr>memory := m\<rparr>)
        }
      })"

text \<open>The entries of a stub that is in neither map are created, with offset and size 0.\<close>

definition SwapInOnDemand :: "env \<Rightarrow> addr \<Rightarrow> world \<Rightarrow> world option" where
  "SwapInOnDemand e stub w =
     (if \<not> swapEnabled w then None
      else if \<not> ros_Contains w stub then None
      else do {
        let (objOffset, oom) = sm_at 0 stub (objectOffsetMap w);
        let (objSize, osm) = sm_at 0 stub (objectSizeMap w);
        let w = w\<lparr>objectOffsetMap := oom, objectSizeMap := osm\<rparr>;
        (_, w) \<leftarrow> swapInObject e stub objOffset objSize w;
        Some w
      })"

text \<open>The start and the end of an access through a stub, as the preamble macros of
  src/runtime/mirror/object.h have them.\<close>

definition stub_enter :: "env \<Rightarrow> addr \<Rightarrow> world \<Rightarrow> world option" where
  "stub_enter e stub w = do {
     m \<leftarrow> LockTableEntry (memory w) stub;
     let w = w\<lparr>memory := m\<rparr>;
     if \<not> GetResidentBit (memory w) (GetTableEntry (memory w) stub) then SwapInOnDemand e stub w else Some w
   }"

definition stub_leave :: "addr \<Rightarrow> world \<Rightarrow> world" where
  "stub_leave stub w = w\<lparr>memory := UnlockTableEntry (memory w) stub\<rparr>"

end
