(* ===== verification/Object_Access.thy ===== *)
theory Object_Access
  imports Swap_State
begin

text \<open>
  The accessors of objects (src/runtime/mirror/object.h, object-inl.h, array.h and array-inl.h) with the
  dispatch through stubs that their preambles add: called on a stub, an accessor locks the stub's table
  entry, brings the object back if it is swapped out, calls itself on the object and unlocks the entry.

  The preamble of a function that returns a value returns the value of the inner call. The preamble of a
  void function does not return: the rest of the function then runs on the stub itself.

  Values are the unsigned reading of their bits. Transactions (recorded only while compiling ahead of
  time) and verification of objects (off by default) are left out; the memory order of an atomic
  operation has no effect here, and \<open>spurious\<close> says that a weak exchange fails without reason.
\<close>

section \<open>Plain fields\<close>

partial_function (option) GetField :: "env \<Rightarrow> addr \<Rightarrow> nat \<Rightarrow> nat \<Rightarrow> world \<Rightarrow> (nat \<times> world) option" where
  "GetField e obj kSize field_offset w =
     (if GetStubFlag (memory w) obj then do {
        w \<leftarrow> stub_enter e obj w;
        (result, w) \<leftarrow> GetField e (Stub_GetObjectAddress (memory w) obj) kSize field_offset w;
        Some (result, stub_leave obj w)
      }
      else (let (r, m) = raw_GetField kSize (memory w) obj field_offset in Some (r, w\<lparr>memory := m\<rparr>)))"

partial_function (option) SetField :: "env \<Rightarrow> addr \<Rightarrow> nat \<Rightarrow> nat \<Rightarrow> nat \<Rightarrow> world \<Rightarrow> world option" where
  "SetField e obj kSize field_offset new_value w = do {
     w \<leftarrow>
       (if GetStubFlag (memory w) obj then do {
          w \<leftarrow> stub_enter e obj w;
          w \<leftarrow> SetField e (Stub_GetObjectAddress (memory w) obj) kSize field_offset new_value w;
          Some (stub_leave obj w)
        }
        else Some w);
     Some (w\<lparr>memory := raw_SetField kSize (memory w) obj field_offset new_value\<rparr>)
   }"

partial_function (option) GetFieldBoolean :: "env \<Rightarrow> addr \<Rightarrow> nat \<Rightarrow> world \<Rightarrow> (nat \<times> world) option" where
  "GetFieldBoolean e obj field_offset w =
     (if GetStubFlag (memory w) obj then do {
        w \<leftarrow> stub_enter e obj w;
        (result, w) \<leftarrow> GetFieldBoolean e (Stub_GetObjectAddress (memory w) obj) field_offset w;
        Some (result, stub_leave obj w)
      }
      else GetField e obj 1 field_offset w)"

partial_function (option) GetFieldByte :: "env \<Rightarrow> addr \<Rightarrow> nat \<Rightarrow> world \<Rightarrow> (nat \<times> world) option" where
  "GetFieldByte e obj field_offset w =
     (if GetStubFlag (memory w) obj then do {
        w \<leftarrow> stub_enter e obj w;
        (result, w) \<leftarrow> GetFieldByte e (Stub_GetObjectAddress (memory w) obj) field_offset w;
        Some (result, stub_leave obj w)
      }
      else GetField e obj 1 field_offset w)"

partial_function (option) GetFieldChar :: "env \<Rightarrow> addr \<Rightarrow> nat \<Rightarrow> world \<Rightarrow> (nat \<times> world) option" where
  "GetFieldChar e obj field_offset w =
     (if GetStubFlag (memory w) obj then do {
        w \<leftarrow> stub_enter e obj w;
        (result, w) \<leftarrow> GetFieldChar e (Stub_GetObjectAddress (memory w) obj) field_offset w;
        Some (result, stub_leave obj w)
      }
      else GetField e obj 2 field_offset w)"

partial_function (option) GetFieldShort :: "env \<Rightarrow> addr \<Rightarrow> nat \<Rightarrow> world \<Rightarrow> (nat \<times> world) option" where
  "GetFieldShort e obj field_offset w =
     (if GetStubFlag (memory w) obj then do {
        w \<leftarrow> stub_enter e obj w;
        (result, w) \<leftarrow> GetFieldShort e (Stub_GetObjectAddress (memory w) obj) field_offset w;
        Some (result, stub_leave obj w)
      }
      else GetField e obj 2 field_offset w)"

partial_function (option) GetField32 :: "env \<Rightarrow> addr \<Rightarrow> nat \<Rightarrow> world \<Rightarrow> (nat \<times> world) option" where
  "GetField32 e obj field_offset w =
     (if GetStubFlag (memory w) obj then do {
        w \<leftarrow> stub_enter e obj w;
        (result, w) \<leftarrow> GetField32 e (Stub_GetObjectAddress (memory w) obj) field_offset w;
        Some (result, stub_leave obj w)
      }
      else GetField e obj 4 field_offset w)"

partial_function (option) GetField64 :: "env \<Rightarrow> addr \<Rightarrow> nat \<Rightarrow> world \<Rightarrow> (nat \<times> world) option" where
  "GetField64 e obj field_offset w =
     (if GetStubFlag (memory w) obj then do {
        w \<leftarrow> stub_enter e obj w;
        (result, w) \<leftarrow> GetField64 e (Stub_GetObjectAddress (memory w) obj) field_offset w;
        Some (result, stub_leave obj w)
      }
      else GetField e obj 8 field_offset w)"

partial_function (option) SetFieldBoolean :: "env \<Rightarrow> addr \<Rightarrow> nat \<Rightarrow> nat \<Rightarrow> world \<Rightarrow> world option" where
  "SetFieldBoolean e obj field_offset new_value w = do {
     w \<leftarrow>
       (if GetStubFlag (memory w) obj then do {
          w \<leftarrow> stub_enter e obj w;
          w \<leftarrow> SetFieldBoolean e (Stub_GetObjectAddress (memory w) obj) field_offset new_value w;
          Some (stub_leave obj w)
        }
        else Some w);
     SetField e obj 1 field_offset new_value w
   }"

partial_function (option) SetFieldByte :: "env \<Rightarrow> addr \<Rightarrow> nat \<Rightarrow> nat \<Rightarrow> world \<Rightarrow> world option" where
  "SetFieldByte e obj field_offset new_value w = do {
     w \<leftarrow>
       (if GetStubFlag (memory w) obj then do {
          w \<leftarrow> stub_enter e obj w;
          w \<leftarrow> SetFieldByte e (Stub_GetObjectAddress (memory w) obj) field_offset new_value w;
          Some (stub_leave obj w)
        }
        else Some w);
     SetField e obj 1 field_offset new_value w
   }"

partial_function (option) SetFieldChar :: "env \<Rightarrow> addr \<Rightarrow> nat \<Rightarrow> nat \<Rightarrow> world \<Rightarrow> world option" where
  "SetFieldChar e obj field_offset new_value w = do {
     w \<leftarrow>
       (if GetStubFlag (memory w) obj then do {
          w \<leftarrow> stub_enter e obj w;
          w \<leftarrow> SetFieldChar e (Stub_GetObjectAddress (memory w) obj) field_offset new_value w;
          Some (stub_leave obj w)
        }
        else Some w);
     SetField e obj 2 field_offset new_value w
   }"

partial_function (option) SetFieldShort :: "env \<Rightarrow> addr \<Rightarrow> nat \<Rightarrow> nat \<Rightarrow> world \<Rightarrow> world option" where
  "SetFieldShort e obj field_offset new_value w = do {
     w \<leftarrow>
       (if GetStubFlag (memory w) obj then do {
          w \<leftarrow> stub_enter e obj w;
          w \<leftarrow> SetFieldShort e (Stub_GetObjectAddress (memory w) obj) field_offset new_value w;
          Some (stub_leave obj w)
        }
        else Some w);
     SetField e obj 2 field_offset new_value w
   }"

partial_function (option) SetField32 :: "env \<Rightarrow> addr \<Rightarrow> nat \<Rightarrow> nat \<Rightarrow> world \<Rightarrow> world option" where
  "SetField32 e obj field_offset new_value w = do {
     w \<leftarrow>
       (if GetStubFlag (memory w) obj then do {
          w \<leftarrow> stub_enter e obj w;
          w \<leftarrow> SetField32 e (Stub_GetObjectAddress (memory w) obj) field_offset new_value w;
          Some (stub_leave obj w)
        }
        else Some w);
     SetField e obj 4 field_offset new_value w
   }"

partial_function (option) SetField64 :: "env \<Rightarrow> addr \<Rightarrow> nat \<Rightarrow> nat \<Rightarrow> world \<Rightarrow> world option" where
  "SetField64 e obj field_offset new_value w = do {
     w \<leftarrow>
       (if GetStubFlag (memory w) obj then do {
          w \<leftarrow> stub_enter e obj w;
          w \<leftarrow> SetField64 e (Stub_GetObjectAddress (memory w) obj) field_offset new_value w;
          Some (stub_leave obj w)
        }
        else Some w);
     SetField e obj 8 field_offset new_value w
   }"

definition GetFieldBooleanVolatile :: "env \<Rightarrow> addr \<Rightarrow> nat \<Rightarrow> world \<Rightarrow> (nat \<times> world) option" where
  "GetFieldBooleanVolatile e obj field_offset w = GetFieldBoolean e obj field_offset w"

definition GetFieldByteVolatile :: "env \<Rightarrow> addr \<Rightarrow> nat \<Rightarrow> world \<Rightarrow> (nat \<times> world) option" where
  "GetFieldByteVolatile e obj field_offset w = GetFieldByte e obj field_offset w"

definition GetFieldCharVolatile :: "env \<Rightarrow> addr \<Rightarrow> nat \<Rightarrow> world \<Rightarrow> (nat \<times> world) option" where
  "GetFieldCharVolatile e obj field_offset w = GetFieldChar e obj field_offset w"

definition GetFieldShortVolatile :: "env \<Rightarrow> addr \<Rightarrow> nat \<Rightarrow> world \<Rightarrow> (nat \<times> world) option" where
  "GetFieldShortVolatile e obj field_offset w = GetFieldShort e obj field_offset w"

definition GetField32Volatile :: "env \<Rightarrow> addr \<Rightarrow> nat \<Rightarrow> world \<Rightarrow> (nat \<times> world) option" where
  "GetField32Volatile e obj field_offset w = GetField32 e obj field_offset w"

definition GetField64Volatile :: "env \<Rightarrow> addr \<Rightarrow> nat \<Rightarrow> world \<Rightarrow> (nat \<times> world) option" where
  "GetField64Volatile e obj field_offset w = GetField64 e obj field_offset w"

definition SetFieldBooleanVolatile :: "env \<Rightarrow> addr \<Rightarrow> nat \<Rightarrow> nat \<Rightarrow> world \<Rightarrow> world option" where
  "SetFieldBooleanVolatile e obj field_offset new_value w = SetFieldBoolean e obj field_offset new_value w"

definition SetFieldByteVolatile :: "env \<Rightarrow> addr \<Rightarrow> nat \<Rightarrow> nat \<Rightarrow> world \<Rightarrow> world option" where
  "SetFieldByteVolatile e obj field_offset new_value w = SetFieldByte e obj field_offset new_value w"

definition SetFieldCharVolatile :: "env \<Rightarrow> addr \<Rightarrow> nat \<Rightarrow> nat \<Rightarrow> world \<Rightarrow> world option" where
  "SetFieldCharVolatile e obj field_offset new_value w = SetFieldChar e obj field_offset new_value w"

definition SetFieldShortVolatile :: "env \<Rightarrow> addr \<Rightarrow> nat \<Rightarrow> nat \<Rightarrow> world \<Rightarrow> world option" where
  "SetFieldShortVolatile e obj field_offset new_value w = SetFieldShort e obj field_offset new_value w"

definition SetField32Volatile :: "env \<Rightarrow> addr \<Rightarrow> nat \<Rightarrow> nat \<Rightarrow> world \<Rightarrow> world option" where
  "SetField32Volatile e obj field_offset new_value w = SetField32 e obj field_offset new_value w"

partial_function (option) SetField64Volatile :: "env \<Rightarrow> addr \<Rightarrow> nat \<Rightarrow> nat \<Rightarrow> world \<Rightarrow> world option" where
  "SetField64Volatile e obj field_offset new_value w = do {
     w \<leftarrow>
       (if GetStubFlag (memory w) obj then do {
          w \<leftarrow> stub_enter e obj w;
          w \<leftarrow> SetField64Volatile e (Stub_GetObjectAddress (memory w) obj) field_offset new_value w;
          Some (stub_leave obj w)
        }
        else Some w);
     SetField64 e obj field_offset new_value w
   }"

partial_function (option) GetFieldPtrWithSize :: "env \<Rightarrow> addr \<Rightarrow> nat \<Rightarrow> nat \<Rightarrow> world \<Rightarrow> (nat \<times> world) option" where
  "GetFieldPtrWithSize e obj field_offset pointer_size w =
     (if GetStubFlag (memory w) obj then do {
        w \<leftarrow> stub_enter e obj w;
        (result, w) \<leftarrow> GetFieldPtrWithSize e (Stub_GetObjectAddress (memory w) obj) field_offset pointer_size w;
        Some (result, stub_leave obj w)
      }
      else (if pointer_size = 4 then GetField32 e obj field_offset w else GetField64 e obj field_offset w))"

section \<open>Compare-and-set\<close>

definition cas :: "nat \<Rightarrow> bool \<Rightarrow> addr \<Rightarrow> nat \<Rightarrow> nat \<Rightarrow> nat \<Rightarrow> world \<Rightarrow> bool \<times> world" where
  "cas size' spurious obj field_offset old_value new_value w =
     (if spurious then (False, w)
      else let (ok, m) = raw_CasField size' (memory w) obj field_offset old_value new_value in (ok, w\<lparr>memory := m\<rparr>))"

partial_function (option) CasFieldWeakSequentiallyConsistent32 :: "env \<Rightarrow> addr \<Rightarrow> bool \<Rightarrow> nat \<Rightarrow> nat \<Rightarrow> nat \<Rightarrow> world \<Rightarrow> (bool \<times> world) option" where
  "CasFieldWeakSequentiallyConsistent32 e obj spurious field_offset old_value new_value w =
     (if GetStubFlag (memory w) obj then do {
        w \<leftarrow> stub_enter e obj w;
        (result, w) \<leftarrow> CasFieldWeakSequentiallyConsistent32 e (Stub_GetObjectAddress (memory w) obj) spurious field_offset old_value new_value w;
        Some (result, stub_leave obj w)
      }
      else Some (cas 4 spurious obj field_offset old_value new_value w))"

partial_function (option) CasFieldWeakRelaxed32 :: "env \<Rightarrow> addr \<Rightarrow> bool \<Rightarrow> nat \<Rightarrow> nat \<Rightarrow> nat \<Rightarrow> world \<Rightarrow> (bool \<times> world) option" where
  "CasFieldWeakRelaxed32 e obj spurious field_offset old_value new_value w =
     (if GetStubFlag (memory w) obj then do {
        w \<leftarrow> stub_enter e obj w;
        (result, w) \<leftarrow> CasFieldWeakRelaxed32 e (Stub_GetObjectAddress (memory w) obj) spurious field_offset old_value new_value w;
        Some (result, stub_leave obj w)
      }
      else Some (cas 4 spurious obj field_offset old_value new_value w))"

partial_function (option) CasFieldWeakRelease32 :: "env \<Rightarrow> addr \<Rightarrow> bool \<Rightarrow> nat \<Rightarrow> nat \<Rightarrow> nat \<Rightarrow> world \<Rightarrow> (bool \<times> world) option" where
  "CasFieldWeakRelease32 e obj spurious field_offset old_value new_value w =
     (if GetStubFlag (memory w) obj then do {
        w \<leftarrow> stub_enter e obj w;
        (result, w) \<leftarrow> CasFieldWeakRelease32 e (Stub_GetObjectAddress (memory w) obj) spurious field_offset old_value new_value w;
        Some (result, stub_leave obj w)
      }
      else Some (cas 4 spurious obj field_offset old_value new_value w))"

partial_function (option) CasFieldStrongSequentiallyConsistent32 :: "env \<Rightarrow> addr \<Rightarrow> nat \<Rightarrow> nat \<Rightarrow> nat \<Rightarrow> world \<Rightarrow> (bool \<times> world) option" where
  "CasFieldStrongSequentiallyConsistent32 e obj field_offset old_value new_value w =
     (if GetStubFlag (memory w) obj then do {
        w \<leftarrow> stub_enter e obj w;
        (result, w) \<leftarrow> CasFieldStrongSequentiallyConsistent32 e (Stub_GetObjectAddress (memory w) obj) field_offset old_value new_value w;
        Some (result, stub_leave obj w)
      }
      else Some (cas 4 False obj field_offset old_value new_value w))"

partial_function (option) CasFieldWeakSequentiallyConsistent64 :: "env \<Rightarrow> addr \<Rightarrow> bool \<Rightarrow> nat \<Rightarrow> nat \<Rightarrow> nat \<Rightarrow> world \<Rightarrow> (bool \<times> world) option" where
  "CasFieldWeakSequentiallyConsistent64 e obj spurious field_offset old_value new_value w =
     (if GetStubFlag (memory w) obj then do {
        w \<leftarrow> stub_enter e obj w;
        (result, w) \<leftarrow> CasFieldWeakSequentiallyConsistent64 e (Stub_GetObjectAddress (memory w) obj) spurious field_offset old_value new_value w;
        Some (result, stub_leave obj w)
      }
      else Some (cas 8 spurious obj field_offset old_value new_value w))"

partial_function (option) CasFieldStrongSequentiallyConsistent64 :: "env \<Rightarrow> addr \<Rightarrow> nat \<Rightarrow> nat \<Rightarrow> nat \<Rightarrow> world \<Rightarrow> (bool \<times> world) option" where
  "CasFieldStrongSequentiallyConsistent64 e obj field_offset old_value new_value w =
     (if GetStubFlag (memory w) obj then do {
        w \<leftarrow> stub_enter e obj w;
        (result, w) \<leftarrow> CasFieldStrongSequentiallyConsistent64 e (Stub_GetObjectAddress (memory w) obj) field_offset old_value new_value w;
        Some (result, stub_leave obj w)
      }
      else Some (cas 8 False obj field_offset old_value new_value w))"

section \<open>References\<close>

partial_function (option) GetFieldObject :: "env \<Rightarrow> addr \<Rightarrow> nat \<Rightarrow> world \<Rightarrow> (addr \<times> world) option" where
  "GetFieldObject e obj field_offset w =
     (if GetStubFlag (memory w) obj then do {
        w \<leftarrow> stub_enter e obj w;
        (result, w) \<leftarrow> GetFieldObject e (Stub_GetObjectAddress (memory w) obj) field_offset w;
        Some (result, stub_leave obj w)
      }
      else (let (r, m) = raw_GetFieldObject (memory w) obj field_offset in Some (r, w\<lparr>memory := m\<rparr>)))"

definition GetFieldObjectVolatile :: "env \<Rightarrow> addr \<Rightarrow> nat \<Rightarrow> world \<Rightarrow> (addr \<times> world) option" where
  "GetFieldObjectVolatile e obj field_offset w = GetFieldObject e obj field_offset w"

text \<open>This one returns from its preamble, after filling the stub again.\<close>

partial_function (option) SetFieldObjectWithoutWriteBarrier ::
  "env \<Rightarrow> addr \<Rightarrow> nat \<Rightarrow> addr \<Rightarrow> world \<Rightarrow> world option" where
  "SetFieldObjectWithoutWriteBarrier e obj field_offset new_value w =
     (if GetStubFlag (memory w) obj then do {
        w \<leftarrow> stub_enter e obj w;
        w \<leftarrow> SetFieldObjectWithoutWriteBarrier e (Stub_GetObjectAddress (memory w) obj) field_offset new_value w;
        m \<leftarrow> PopulateFrom (class_table e) (memory w) obj (Stub_GetObjectAddress (memory w) obj);
        Some (stub_leave obj (w\<lparr>memory := m\<rparr>))
      }
      else Some (w\<lparr>memory := raw_SetFieldObjectWithoutWriteBarrier (memory w) obj field_offset new_value\<rparr>))"

definition SetFieldObject :: "env \<Rightarrow> addr \<Rightarrow> nat \<Rightarrow> addr \<Rightarrow> world \<Rightarrow> world option" where
  "SetFieldObject e obj field_offset new_value w = do {
     w \<leftarrow> SetFieldObjectWithoutWriteBarrier e obj field_offset new_value w;
     if new_value \<noteq> 0 then Some (w\<lparr>memory := WriteBarrierField (card_table w) obj (memory w)\<rparr>) else Some w
   }"

definition SetFieldObjectVolatile :: "env \<Rightarrow> addr \<Rightarrow> nat \<Rightarrow> addr \<Rightarrow> world \<Rightarrow> world option" where
  "SetFieldObjectVolatile e obj field_offset new_value w = SetFieldObject e obj field_offset new_value w"

partial_function (option) GetFieldObjectReferenceAddr :: "env \<Rightarrow> addr \<Rightarrow> nat \<Rightarrow> world \<Rightarrow> (addr \<times> world) option" where
  "GetFieldObjectReferenceAddr e obj field_offset w =
     (if GetStubFlag (memory w) obj then do {
        w \<leftarrow> stub_enter e obj w;
        (result, w) \<leftarrow> GetFieldObjectReferenceAddr e (Stub_GetObjectAddress (memory w) obj) field_offset w;
        Some (result, stub_leave obj w)
      }
      else Some (obj + field_offset, w))"

partial_function (option) CasFieldWeakSequentiallyConsistentObjectWithoutWriteBarrier :: "env \<Rightarrow> addr \<Rightarrow> bool \<Rightarrow> nat \<Rightarrow> nat \<Rightarrow> nat \<Rightarrow> world \<Rightarrow> (bool \<times> world) option" where
  "CasFieldWeakSequentiallyConsistentObjectWithoutWriteBarrier e obj spurious field_offset old_value new_value w =
     (if GetStubFlag (memory w) obj then do {
        w \<leftarrow> stub_enter e obj w;
        (result, w) \<leftarrow> CasFieldWeakSequentiallyConsistentObjectWithoutWriteBarrier e (Stub_GetObjectAddress (memory w) obj) spurious field_offset old_value new_value w;
        Some (result, stub_leave obj w)
      }
      else Some (cas 4 spurious obj field_offset old_value new_value w))"

partial_function (option) CasFieldStrongSequentiallyConsistentObjectWithoutWriteBarrier :: "env \<Rightarrow> addr \<Rightarrow> nat \<Rightarrow> nat \<Rightarrow> nat \<Rightarrow> world \<Rightarrow> (bool \<times> world) option" where
  "CasFieldStrongSequentiallyConsistentObjectWithoutWriteBarrier e obj field_offset old_value new_value w =
     (if GetStubFlag (memory w) obj then do {
        w \<leftarrow> stub_enter e obj w;
        (result, w) \<leftarrow> CasFieldStrongSequentiallyConsistentObjectWithoutWriteBarrier e (Stub_GetObjectAddress (memory w) obj) field_offset old_value new_value w;
        Some (result, stub_leave obj w)
      }
      else Some (cas 4 False obj field_offset old_value new_value w))"

partial_function (option) CasFieldWeakRelaxedObjectWithoutWriteBarrier :: "env \<Rightarrow> addr \<Rightarrow> bool \<Rightarrow> nat \<Rightarrow> nat \<Rightarrow> nat \<Rightarrow> world \<Rightarrow> (bool \<times> world) option" where
  "CasFieldWeakRelaxedObjectWithoutWriteBarrier e obj spurious field_offset old_value new_value w =
     (if GetStubFlag (memory w) obj then do {
        w \<leftarrow> stub_enter e obj w;
        (result, w) \<leftarrow> CasFieldWeakRelaxedObjectWithoutWriteBarrier e (Stub_GetObjectAddress (memory w) obj) spurious field_offset old_value new_value w;
        Some (result, stub_leave obj w)
      }
      else Some (cas 4 spurious obj field_offset old_value new_value w))"

partial_function (option) CasFieldStrongRelaxedObjectWithoutWriteBarrier :: "env \<Rightarrow> addr \<Rightarrow> nat \<Rightarrow> nat \<Rightarrow> nat \<Rightarrow> world \<Rightarrow> (bool \<times> world) option" where
  "CasFieldStrongRelaxedObjectWithoutWriteBarrier e obj field_offset old_value new_value w =
     (if GetStubFlag (memory w) obj then do {
        w \<leftarrow> stub_enter e obj w;
        (result, w) \<leftarrow> CasFieldStrongRelaxedObjectWithoutWriteBarrier e (Stub_GetObjectAddress (memory w) obj) field_offset old_value new_value w;
        Some (result, stub_leave obj w)
      }
      else Some (cas 4 False obj field_offset old_value new_value w))"

partial_function (option) CasFieldWeakSequentiallyConsistentObject :: "env \<Rightarrow> addr \<Rightarrow> bool \<Rightarrow> nat \<Rightarrow> nat \<Rightarrow> nat \<Rightarrow> world \<Rightarrow> (bool \<times> world) option" where
  "CasFieldWeakSequentiallyConsistentObject e obj spurious field_offset old_value new_value w =
     (if GetStubFlag (memory w) obj then do {
        w \<leftarrow> stub_enter e obj w;
        (result, w) \<leftarrow> CasFieldWeakSequentiallyConsistentObject e (Stub_GetObjectAddress (memory w) obj) spurious field_offset old_value new_value w;
        Some (result, stub_leave obj w)
      }
      else do {
        (success, w) \<leftarrow> CasFieldWeakSequentiallyConsistentObjectWithoutWriteBarrier e obj spurious field_offset old_value new_value w;
        Some (success, if success then w\<lparr>memory := WriteBarrierField (card_table w) obj (memory w)\<rparr> else w)
      })"

partial_function (option) CasFieldStrongSequentiallyConsistentObject :: "env \<Rightarrow> addr \<Rightarrow> nat \<Rightarrow> nat \<Rightarrow> nat \<Rightarrow> world \<Rightarrow> (bool \<times> world) option" where
  "CasFieldStrongSequentiallyConsistentObject e obj field_offset old_value new_value w =
     (if GetStubFlag (memory w) obj then do {
        w \<leftarrow> stub_enter e obj w;
        (result, w) \<leftarrow> CasFieldStrongSequentiallyConsistentObject e (Stub_GetObjectAddress (memory w) obj) field_offset old_value new_value w;
        Some (result, stub_leave obj w)
      }
      else do {
        (success, w) \<leftarrow> CasFieldStrongSequentiallyConsistentObjectWithoutWriteBarrier e obj field_offset old_value new_value w;
        Some (success, if success then w\<lparr>memory := WriteBarrierField (card_table w) obj (memory w)\<rparr> else w)
      })"

section \<open>Class, lock word and size\<close>

definition GetClass :: "env \<Rightarrow> addr \<Rightarrow> world \<Rightarrow> (addr \<times> world) option" where
  "GetClass e obj w = GetFieldObject e obj 0 w"

definition SetClass :: "env \<Rightarrow> addr \<Rightarrow> addr \<Rightarrow> world \<Rightarrow> world option" where
  "SetClass e obj new_klass w = SetFieldObjectWithoutWriteBarrier e obj 0 new_klass w"

text \<open>The lock word, \<open>monitor_\<close>, is at offset 4.\<close>

definition GetLockWord :: "env \<Rightarrow> bool \<Rightarrow> addr \<Rightarrow> world \<Rightarrow> (nat \<times> world) option" where
  "GetLockWord e as_volatile obj w = (if as_volatile then GetField32Volatile e obj 4 w else GetField32 e obj 4 w)"

definition SetLockWord :: "env \<Rightarrow> bool \<Rightarrow> addr \<Rightarrow> nat \<Rightarrow> world \<Rightarrow> world option" where
  "SetLockWord e as_volatile obj new_val w =
     (if as_volatile then SetField32Volatile e obj 4 new_val w else SetField32 e obj 4 new_val w)"

definition CasLockWordWeakSequentiallyConsistent :: "env \<Rightarrow> bool \<Rightarrow> addr \<Rightarrow> nat \<Rightarrow> nat \<Rightarrow> world \<Rightarrow> (bool \<times> world) option" where
  "CasLockWordWeakSequentiallyConsistent e spurious obj old_val new_val w =
     CasFieldWeakSequentiallyConsistent32 e obj spurious 4 old_val new_val w"

definition CasLockWordWeakRelaxed :: "env \<Rightarrow> bool \<Rightarrow> addr \<Rightarrow> nat \<Rightarrow> nat \<Rightarrow> world \<Rightarrow> (bool \<times> world) option" where
  "CasLockWordWeakRelaxed e spurious obj old_val new_val w = CasFieldWeakRelaxed32 e obj spurious 4 old_val new_val w"

definition CasLockWordWeakRelease :: "env \<Rightarrow> bool \<Rightarrow> addr \<Rightarrow> nat \<Rightarrow> nat \<Rightarrow> world \<Rightarrow> (bool \<times> world) option" where
  "CasLockWordWeakRelease e spurious obj old_val new_val w = CasFieldWeakRelease32 e obj spurious 4 old_val new_val w"

partial_function (option) Object_SizeOf :: "env \<Rightarrow> addr \<Rightarrow> world \<Rightarrow> (nat \<times> world) option" where
  "Object_SizeOf e obj w =
     (if GetStubFlag (memory w) obj then do {
        w \<leftarrow> stub_enter e obj w;
        (result, w) \<leftarrow> Object_SizeOf e (Stub_GetObjectAddress (memory w) obj) w;
        Some (result, stub_leave obj w)
      }
      else (let (r, m) = raw_SizeOf (class_table e) (memory w) obj in Some (r, w\<lparr>memory := m\<rparr>)))"

section \<open>Arrays of primitive values\<close>

text \<open>The length is at offset 16. An index is compared as an unsigned number.\<close>

definition GetLength :: "env \<Rightarrow> addr \<Rightarrow> world \<Rightarrow> (nat \<times> world) option" where
  "GetLength e obj w = GetField32 e obj 16 w"

definition SetLength :: "env \<Rightarrow> addr \<Rightarrow> nat \<Rightarrow> world \<Rightarrow> world option" where
  "SetLength e obj len w = SetField32 e obj 16 len w"

partial_function (option) GetRawData :: "env \<Rightarrow> addr \<Rightarrow> nat \<Rightarrow> nat \<Rightarrow> world \<Rightarrow> (addr \<times> world) option" where
  "GetRawData e obj component_size index w =
     (if GetStubFlag (memory w) obj then do {
        w \<leftarrow> stub_enter e obj w;
        (result, w) \<leftarrow> GetRawData e (Stub_GetObjectAddress (memory w) obj) component_size index w;
        Some (result, stub_leave obj w)
      }
      else Some (obj + Array_DataOffset component_size + index * component_size, w\<lparr>memory := mark_read (memory w) obj\<rparr>))"

definition GetData :: "env \<Rightarrow> nat \<Rightarrow> addr \<Rightarrow> world \<Rightarrow> (addr \<times> world) option" where
  "GetData e component_size obj w = GetRawData e obj component_size 0 w"

partial_function (option) GetWithoutChecks :: "env \<Rightarrow> addr \<Rightarrow> nat \<Rightarrow> nat \<Rightarrow> world \<Rightarrow> (nat \<times> world) option" where
  "GetWithoutChecks e obj component_size i w =
     (if GetStubFlag (memory w) obj then do {
        w \<leftarrow> stub_enter e obj w;
        (result, w) \<leftarrow> GetWithoutChecks e (Stub_GetObjectAddress (memory w) obj) component_size i w;
        Some (result, stub_leave obj w)
      }
      else do {
        (data, w) \<leftarrow> GetData e component_size obj w;
        Some (load (memory w) (data + i * component_size) component_size, w)
      })"

definition mark_written :: "addr \<Rightarrow> world \<Rightarrow> world" where
  "mark_written obj w = w\<lparr>memory := SetDirtyBit (SetWriteBit (memory w) obj) obj\<rparr>"

partial_function (option) SetWithoutChecks :: "env \<Rightarrow> addr \<Rightarrow> nat \<Rightarrow> nat \<Rightarrow> nat \<Rightarrow> world \<Rightarrow> world option" where
  "SetWithoutChecks e obj component_size i value w = do {
     w \<leftarrow>
       (if GetStubFlag (memory w) obj then do {
          w \<leftarrow> stub_enter e obj w;
          w \<leftarrow> SetWithoutChecks e (Stub_GetObjectAddress (memory w) obj) component_size i value w;
          Some (stub_leave obj w)
        }
        else Some w);
     (data, w) \<leftarrow> GetData e component_size obj w;
     let w = w\<lparr>memory := store (memory w) (data + i * component_size) component_size value\<rparr>;
     Some (mark_written obj w)
   }"

text \<open>A failed check throws an exception, which is False here.\<close>

definition CheckIsValidIndex :: "env \<Rightarrow> addr \<Rightarrow> nat \<Rightarrow> world \<Rightarrow> (bool \<times> world) option" where
  "CheckIsValidIndex e obj index w = do {
     (len, w) \<leftarrow> GetLength e obj w;
     Some (index mod 2 ^ 32 < len, w)
   }"

definition PrimitiveArray_Get :: "env \<Rightarrow> nat \<Rightarrow> addr \<Rightarrow> nat \<Rightarrow> world \<Rightarrow> (nat \<times> world) option" where
  "PrimitiveArray_Get e component_size obj i w = do {
     (ok, w) \<leftarrow> CheckIsValidIndex e obj i w;
     if \<not> ok then Some (0, w) else GetWithoutChecks e obj component_size i w
   }"

definition PrimitiveArray_Set :: "env \<Rightarrow> nat \<Rightarrow> addr \<Rightarrow> nat \<Rightarrow> nat \<Rightarrow> world \<Rightarrow> world option" where
  "PrimitiveArray_Set e component_size obj i value w = do {
     (ok, w) \<leftarrow> CheckIsValidIndex e obj i w;
     if ok then SetWithoutChecks e obj component_size i value w else Some w
   }"

text \<open>Element by element, upwards or downwards.\<close>

fun ArrayForwardCopy :: "nat \<Rightarrow> nat \<Rightarrow> addr \<Rightarrow> addr \<Rightarrow> mem \<Rightarrow> mem" where
  "ArrayForwardCopy size' 0 d s m = m"
| "ArrayForwardCopy size' (Suc cnt) d s m =
     ArrayForwardCopy size' cnt (d + size') (s + size') (store m d size' (load m s size'))"

fun ArrayBackwardCopy :: "nat \<Rightarrow> nat \<Rightarrow> addr \<Rightarrow> addr \<Rightarrow> mem \<Rightarrow> mem" where
  "ArrayBackwardCopy size' 0 d s m = m"
| "ArrayBackwardCopy size' (Suc cnt) d s m =
     ArrayBackwardCopy size' cnt d s (store m (d + cnt * size') size' (load m (s + cnt * size') size'))"

partial_function (option) PrimitiveArray_Memcpy :: "env \<Rightarrow> addr \<Rightarrow> nat \<Rightarrow> nat \<Rightarrow> addr \<Rightarrow> nat \<Rightarrow> nat \<Rightarrow> world \<Rightarrow> world option" where
  "PrimitiveArray_Memcpy e obj size' dst_pos src src_pos cnt w = do {
     w \<leftarrow>
       (if GetStubFlag (memory w) obj then do {
          w \<leftarrow> stub_enter e obj w;
          w \<leftarrow> PrimitiveArray_Memcpy e (Stub_GetObjectAddress (memory w) obj) size' dst_pos src src_pos cnt w;
          Some (stub_leave obj w)
        }
        else Some w);
     if cnt = 0 then Some w
     else do {
       (dst_raw, w) \<leftarrow> GetRawData e obj size' dst_pos w;
       (src_raw, w) \<leftarrow> GetRawData e src size' src_pos w;
       let m = (if size' = 1 then memcpy (memory w) dst_raw src_raw cnt
                else ArrayForwardCopy size' cnt dst_raw src_raw (memory w));
       Some (mark_written obj (w\<lparr>memory := m\<rparr>))
     }
   }"

partial_function (option) PrimitiveArray_Memmove :: "env \<Rightarrow> addr \<Rightarrow> nat \<Rightarrow> nat \<Rightarrow> addr \<Rightarrow> nat \<Rightarrow> nat \<Rightarrow> world \<Rightarrow> world option" where
  "PrimitiveArray_Memmove e obj size' dst_pos src src_pos cnt w = do {
     w \<leftarrow>
       (if GetStubFlag (memory w) obj then do {
          w \<leftarrow> stub_enter e obj w;
          w \<leftarrow> PrimitiveArray_Memmove e (Stub_GetObjectAddress (memory w) obj) size' dst_pos src src_pos cnt w;
          Some (stub_leave obj w)
        }
        else Some w);
     if cnt = 0 then Some w
     else do {
       w \<leftarrow>
         (if src \<noteq> obj then PrimitiveArray_Memcpy e obj size' dst_pos src src_pos cnt w
          else do {
            (dst_raw, w) \<leftarrow> GetRawData e obj size' dst_pos w;
            (src_raw, w) \<leftarrow> GetRawData e src size' src_pos w;
            let copy_forward = (dst_pos < src_pos \<or> dst_pos \<ge> src_pos + cnt);
            let m = (if size' = 1 then memcpy (memory w) dst_raw src_raw cnt
                     else if copy_forward then ArrayForwardCopy size' cnt dst_raw src_raw (memory w)
                     else ArrayBackwardCopy size' cnt dst_raw src_raw (memory w));
            Some (w\<lparr>memory := m\<rparr>)
          });
       Some (mark_written obj w)
     }
   }"

partial_function (option) GetElementPtrSize :: "env \<Rightarrow> addr \<Rightarrow> nat \<Rightarrow> nat \<Rightarrow> world \<Rightarrow> (nat \<times> world) option" where
  "GetElementPtrSize e obj idx ptr_size w =
     (if GetStubFlag (memory w) obj then do {
        w \<leftarrow> stub_enter e obj w;
        (result, w) \<leftarrow> GetElementPtrSize e (Stub_GetObjectAddress (memory w) obj) idx ptr_size w;
        Some (result, stub_leave obj w)
      }
      else (if ptr_size = 8 then GetWithoutChecks e obj 8 idx w else GetWithoutChecks e obj 4 idx w))"

partial_function (option) SetElementPtrSize :: "env \<Rightarrow> addr \<Rightarrow> nat \<Rightarrow> nat \<Rightarrow> nat \<Rightarrow> world \<Rightarrow> world option" where
  "SetElementPtrSize e obj idx element ptr_size w = do {
     w \<leftarrow>
       (if GetStubFlag (memory w) obj then do {
          w \<leftarrow> stub_enter e obj w;
          w \<leftarrow> SetElementPtrSize e (Stub_GetObjectAddress (memory w) obj) idx element ptr_size w;
          Some (stub_leave obj w)
        }
        else Some w);
     if ptr_size = 8 then SetWithoutChecks e obj 8 idx element w
     else SetWithoutChecks e obj 4 idx element w
   }"

fun fixup_from :: "env \<Rightarrow> addr \<Rightarrow> addr \<Rightarrow> nat \<Rightarrow> (nat \<Rightarrow> nat) \<Rightarrow> nat \<Rightarrow> nat \<Rightarrow> world \<Rightarrow> world option" where
  "fixup_from e obj dest pointer_size visitor i 0 w = Some w"
| "fixup_from e obj dest pointer_size visitor i (Suc n) w = do {
     (ptr, w) \<leftarrow> GetElementPtrSize e obj i pointer_size w;
     let new_ptr = visitor ptr;
     w \<leftarrow> (if ptr \<noteq> new_ptr then SetElementPtrSize e dest i new_ptr pointer_size w else Some w);
     fixup_from e obj dest pointer_size visitor (i + 1) n w
   }"

partial_function (option) Fixup :: "env \<Rightarrow> addr \<Rightarrow> addr \<Rightarrow> nat \<Rightarrow> (nat \<Rightarrow> nat) \<Rightarrow> world \<Rightarrow> world option" where
  "Fixup e obj dest pointer_size visitor w = do {
     w \<leftarrow>
       (if GetStubFlag (memory w) obj then do {
          w \<leftarrow> stub_enter e obj w;
          w \<leftarrow> Fixup e (Stub_GetObjectAddress (memory w) obj) dest pointer_size visitor w;
          Some (stub_leave obj w)
        }
        else Some w);
     (cnt, w) \<leftarrow> GetLength e obj w;
     fixup_from e obj dest pointer_size visitor 0 cnt w
   }"

end
