(* ===== verification/Swap_File.thy ===== *)
theory Swap_File
  imports Object_Access
begin

text \<open>
  The swap file as a whole (src/runtime/marvin\_swap.cc): setting swapping up for a process, compacting the
  file, validating it, and scheduling the next write task.
\<close>

section \<open>Copying a file\<close>

text \<open>The size of the file goes through an \<^verbatim>\<open>int\<close> on its way to \<^verbatim>\<open>sendfile\<close>, whose argument is a \<^verbatim>\<open>size_t\<close>. How many of the
  bytes asked for one call moves is up to the kernel; moving fewer is not an error, and the call is not repeated.\<close>

definition sendfile_bytes :: "env \<Rightarrow> nat \<Rightarrow> nat" where
  "sendfile_bytes e st_size =
     (let fileSize = to_int (int st_size);
          count = nat (fileSize mod 2 ^ 64)
      in min count (sendfile_moves e count))"

text \<open>The result is True on an error. A file that cannot be examined has an arbitrary size.\<close>

definition copyFile :: "env \<Rightarrow> string \<Rightarrow> string \<Rightarrow> filesys \<Rightarrow> bool \<times> filesys" where
  "copyFile e fromFileName toFileName fs =
     (let (_, fs) = fs_remove toFileName fs;
          (ok, fs) = tick fs;
          statOk = (ok \<and> files fs fromFileName \<noteq> None);
          st_size = (case files fs fromFileName of Some xs \<Rightarrow> if statOk then length xs else stat_junk e | None \<Rightarrow> stat_junk e);
          (ok, fs) = tick fs;
          fromOk = (ok \<and> files fs fromFileName \<noteq> None);
          (ok, fs) = tick fs;
          toOk = (ok \<and> files fs toFileName = None);
          fs = (if toOk then fs\<lparr>files := (files fs)(toFileName \<mapsto> [])\<rparr> else fs);
          (ok, fs) = tick fs;
          sendOk = (ok \<and> fromOk \<and> toOk);
          fs = (if sendOk
                then fs\<lparr>files := (files fs)(toFileName \<mapsto> take (sendfile_bytes e st_size) (the (files fs fromFileName)))\<rparr>
                else fs);
          (ok, fs) = tick fs;
          chmodOk = (ok \<and> files fs toFileName \<noteq> None)
      in (\<not> (statOk \<and> fromOk \<and> toOk \<and> sendOk \<and> chmodOk), fs))"

section \<open>Compaction\<close>

definition swapfilePath :: "env \<Rightarrow> string" where
  "swapfilePath e = ''/data/data/'' @ getPackageName (proc_cmdline e) @ ''/swapfile''"

definition oldSwapfilePath :: "env \<Rightarrow> string" where
  "oldSwapfilePath e = ''/data/data/'' @ getPackageName (proc_cmdline e) @ ''/oldswapfile''"

definition newSwapfilePath :: "env \<Rightarrow> string" where
  "newSwapfilePath e = ''/data/data/'' @ getPackageName (proc_cmdline e) @ ''/newswapfile''"

record compaction =
  c_ioError :: bool
  c_fs :: filesys
  c_old :: fstream
  c_new :: fstream
  c_offsets :: "int smap"
  c_sizes :: "nat smap"
  c_objects :: int
  c_bytes :: int

text \<open>The copy of one object: what a short read leaves of the buffer is whatever was there.\<close>

definition compact_object :: "env \<Rightarrow> addr \<times> int \<Rightarrow> compaction \<Rightarrow> compaction" where
  "compact_object e entry c =
     (let (object, oldPos) = entry;
          (objectSize, sizes) = sm_at 0 object (c_sizes c);
          old = fs_seekg oldPos (c_old c);
          (bytes, old) = fs_read objectSize (c_fs c) old;
          objectData = bytes @ drop (length bytes) (take objectSize (uninit_bytes e objectSize));
          newPos = fs_tellp (c_new c);
          (fs, new) = fs_write objectData (c_fs c) (c_new c)
      in \<lparr>c_ioError = checkStreamError old \<or> checkStreamError new,
          c_fs = fs, c_old = old, c_new = new,
          c_offsets = sm_put object newPos (c_offsets c), c_sizes = sizes,
          c_objects = to_int (c_objects c + 1), c_bytes = to_int (c_bytes c + int objectSize)\<rparr>)"

fun compact_from :: "env \<Rightarrow> (addr \<times> int) list \<Rightarrow> compaction \<Rightarrow> compaction" where
  "compact_from e [] c = c"
| "compact_from e (entry # rest) c =
     (if c_ioError c then c else compact_from e rest (compact_object e entry c))"

text \<open>\<^verbatim>\<open>CompactSwapFile\<close> in the two parts between which it holds no mutex: copying the images into the new file, which
  reads the maps, and putting the new file and the new offsets in place. Between them other threads may change the maps. A
  write reaches the file when it is made, so that closing the new file does not fail.\<close>

definition CompactSwapFile_copy :: "env \<Rightarrow> world \<Rightarrow> (compaction \<times> world) option" where
  "CompactSwapFile_copy e w =
     (if \<not> swapEnabled w then None
      else
        let swapfile1 = fs_close (swapfile w);
            (_, fs) = copyFile e (swapfilePath e) (oldSwapfilePath e) (filesystem w);
            (fs, swapfile1) = openFileAppend (swapfilePath e) fs swapfile1;
            (fs, old) = fs_open InOnly (oldSwapfilePath e) fs closed_stream;
            (fs, new) = openFile (newSwapfilePath e) fs closed_stream;
            c = compact_from e (objectOffsetMap w)
                  \<lparr>c_ioError = checkStreamError old \<or> checkStreamError new, c_fs = fs, c_old = old, c_new = new,
                   c_offsets = [], c_sizes = objectSizeMap w, c_objects = 0, c_bytes = 0\<rparr>
        in Some (c,
                 w\<lparr>freedObjects := 0, freedSize := 0, swapfileObjects := c_objects c, swapfileSize := c_bytes c,
                   filesystem := c_fs c, swapfile := swapfile1, objectSizeMap := c_sizes c\<rparr>))"

definition CompactSwapFile_install :: "env \<Rightarrow> compaction \<Rightarrow> world \<Rightarrow> bool \<times> world" where
  "CompactSwapFile_install e c w =
     (let swapfile2 = fs_close (swapfile w);
          (_, fs) = fs_remove (swapfilePath e) (filesystem w);
          (_, fs) = fs_rename (newSwapfilePath e) (swapfilePath e) fs;
          (fs, swapfile2) = openFileAppend (swapfilePath e) fs swapfile2
      in (c_ioError c \<or> checkStreamError swapfile2,
          w\<lparr>objectOffsetMap := c_offsets c, filesystem := fs, swapfile := swapfile2\<rparr>))"

text \<open>The call when nothing comes between. The result says whether an I/O error was met.\<close>

definition CompactSwapFile :: "env \<Rightarrow> world \<Rightarrow> (bool \<times> world) option" where
  "CompactSwapFile e w = do {
     (c, w) \<leftarrow> CompactSwapFile_copy e w;
     Some (CompactSwapFile_install e c w)
   }"

section \<open>Validation\<close>

record validation =
  v_error :: bool
  v_stream :: fstream
  v_sizes :: "nat smap"

definition validate_object :: "filesys \<Rightarrow> addr \<times> int \<Rightarrow> validation \<Rightarrow> validation" where
  "validate_object fs entry v =
     (let (object, offset) = entry;
          error = (v_error v \<or> \<not> sm_has object (v_sizes v));
          (objectSize, sizes) = sm_at 0 object (v_sizes v);
          s = fs_seekg offset (v_stream v);
          error = (error \<or> checkStreamError s);
          (_, s) = fs_read objectSize fs s;
          error = (error \<or> checkStreamError s \<or> objectSize < 16)
      in \<lparr>v_error = error, v_stream = s, v_sizes = sizes\<rparr>)"

text \<open>The result says whether an error was reported.\<close>

definition validateSwapFile :: "world \<Rightarrow> bool \<times> world" where
  "validateSwapFile w =
     (let error = (length (objectOffsetMap w) \<noteq> length (objectSizeMap w));
          curPos = fs_tellp (swapfile w);
          error = (error \<or> checkStreamError (swapfile w));
          v = fold (validate_object (filesystem w)) (objectOffsetMap w)
                \<lparr>v_error = error, v_stream = swapfile w, v_sizes = objectSizeMap w\<rparr>;
          s = fs_seekp curPos (v_stream v);
          error = (v_error v \<or> checkStreamError s)
      in (error, w\<lparr>swapfile := s, objectSizeMap := v_sizes v\<rparr>))"

section \<open>Scheduling and setting up\<close>

definition SetInForeground :: "bool \<Rightarrow> world \<Rightarrow> world" where
  "SetInForeground inForeground w =
     (let w = w\<lparr>appInForeground := inForeground\<rparr>
      in if inForeground then w\<lparr>bgMarkSweepCounter := 0\<rparr> else w)"

definition getTaskProcessorChecked :: "world \<Rightarrow> TaskProcessor option" where
  "getTaskProcessorChecked w = task_processor w"

definition add_write_task :: "env \<Rightarrow> nat \<Rightarrow> world \<Rightarrow> world" where
  "add_write_task e targetTime w =
     w\<lparr>task_processor := map_option (\<lambda>tp. AddTask \<lparr>task_id = next_task_id e tp, target_run_time = targetTime\<rparr> tp) (task_processor w)\<rparr>"

text \<open>The compaction of the main space, which this may start at once, is an argument.\<close>

definition scheduleNextTask :: "env \<Rightarrow> (world \<Rightarrow> world option) \<Rightarrow> bool \<Rightarrow> world \<Rightarrow> world option" where
  "scheduleNextTask e performHomogeneousSpaceCompact ioError w =
     (let (nanoTime, w) = NanoTime e w;
          waitTime = (if appInForeground w then WRITE_TASK_FG_WAIT_TIME else WRITE_TASK_BG_WAIT_TIME);
          targetTime = nanoTime + waitTime
      in case getTaskProcessorChecked w of
           None \<Rightarrow> Some w
         | Some tp \<Rightarrow>
             if \<not> IsRunning tp then Some w
             else if ioError then Some w
             else do {
               w \<leftarrow>
                 (if appInForeground w then Some (w\<lparr>gc_requests := gc_requests w @ [RequestConcurrentGC]\<rparr>)
                  else if bgMarkSweepCounter w \<ge> BG_MARK_SWEEPS_BEFORE_SEMI_SPACE then do {
                    w \<leftarrow> performHomogeneousSpaceCompact (w\<lparr>gc_requests := gc_requests w @ [PerformHomogeneousSpaceCompact]\<rparr>);
                    Some (w\<lparr>bgMarkSweepCounter := 0\<rparr>)
                  }
                  else Some (w\<lparr>gc_requests := gc_requests w @ [RequestConcurrentGC],
                               bgMarkSweepCounter := bgMarkSweepCounter w + 1\<rparr>));
               Some (add_write_task e targetTime w)
             })"

text \<open>Adding a space that is null is fatal.\<close>

definition InitIfNecessary :: "env \<Rightarrow> world \<Rightarrow> world option" where
  "InitIfNecessary e w =
     (let curPid = process_id e in
      if curPid = pid w then Some w
      else case getTaskProcessorChecked w of
          None \<Rightarrow> Some w
        | Some tp \<Rightarrow>
            if \<not> IsRunning tp then Some w
            else
              let w = w\<lparr>pid := curPid, objectOffsetMap := [], objectSizeMap := [], writeQueue := [], writeSet := []\<rparr>;
                  packageName = getPackageName (proc_cmdline e)
              in if appOnCommonBlacklist packageName then Some w
                 else
                   let (fs, s) = openFile (swapfilePath e) (filesystem w) (swapfile w);
                       (fs, s) = fs_write (le_bytes 4 (pid w)) fs s;
                       (fs, s) = fs_flush fs s;
                       ioError = checkStreamError s;
                       w = w\<lparr>filesystem := fs, swapfile := s\<rparr>
                   in if ioError then Some w
                      else case FreeListSpace_Create (mapped_space e) (mapped_infos e) SWAPPED_IN_SPACE_SIZE of
                          None \<Rightarrow> None
                        | Some sp \<Rightarrow>
                            let w = w\<lparr>swappedInSpace := Some sp\<rparr> in
                            if space_begin sp \<noteq> SWAPPED_IN_SPACE_START then Some w
                            else
                              let (t, m) = CreateTable (mapped_table e) REC_TABLE_NUM_ENTRIES (memory w);
                                  w = w\<lparr>recTable := t, memory := m\<rparr>
                              in if \<not> IsValid (recTable w) then Some w
                                 else
                                   let w = w\<lparr>swapEnabled := True\<rparr>;
                                       (now, w) = NanoTime e w
                                   in Some (add_write_task e (now + WRITE_TASK_STARTUP_DELAY) w))"

end
