(* ===== verification/Swap_Write.thy ===== *)
theory Swap_Write
  imports Swap_File
begin

text \<open>
  Choosing objects to swap and writing them to the swap file (src/runtime/marvin\_swap.cc): \<^verbatim>\<open>CheckAndUpdate\<close>,
  which the collector calls on every live object, \<^verbatim>\<open>writeToSwapFile\<close> and the write task.
\<close>

section \<open>Choosing objects\<close>

definition shouldExcludeObjectAndMembers :: "addr \<Rightarrow> bool" where
  "shouldExcludeObjectAndMembers obj \<longleftrightarrow> False"

definition ExcludeVisitor :: "unit visitor" where
  "ExcludeVisitor obj offset st =
     (let (ref, m) = raw_GetFieldObject (snd st) obj offset
      in if ref \<noteq> 0 then (if GetStubFlag m ref then Some ((), m) else Some ((), SetNoSwapFlag m ref))
         else Some ((), m))"

text \<open>The object whose access bits are examined: the object of a stub, whose entry then is locked; no
  object for a stub whose object is swapped out.\<close>

definition examined_object :: "addr \<Rightarrow> world \<Rightarrow> (addr \<times> addr option \<times> world) option" where
  "examined_object object w =
     (if GetStubFlag (memory w) object then do {
        m \<leftarrow> LockTableEntry (memory w) object;
        let w = w\<lparr>memory := m\<rparr>;
        if \<not> GetResidentBit (memory w) (GetTableEntry (memory w) object)
        then Some (object, None, w\<lparr>memory := UnlockTableEntry (memory w) object\<rparr>)
        else Some (object, Some (Stub_GetObjectAddress (memory w) object), w)
      }
      else Some (0, Some object, w))"

definition enqueue_write :: "addr \<Rightarrow> world \<Rightarrow> world" where
  "enqueue_write bookkeepingKey w =
     (if bookkeepingKey \<notin> set (writeSet w)
      then w\<lparr>writeSet := insort_insert bookkeepingKey (writeSet w), writeQueue := writeQueue w @ [bookkeepingKey]\<rparr>
      else w)"

text \<open>The end of \<^verbatim>\<open>CheckAndUpdate\<close>: the access bits move into the shift registers.\<close>

definition shift_access_bits :: "addr \<Rightarrow> bool \<Rightarrow> bool \<Rightarrow> mem \<Rightarrow> mem" where
  "shift_access_bits object wasRead wasWritten m =
     (let m = (if wasRead then ClearReadBit m object else m);
          m = (if wasWritten then ClearWriteBit m object else m);
          m = UpdateReadShiftRegister m object wasRead
      in UpdateWriteShiftRegister m object wasWritten)"

definition update_object :: "env \<Rightarrow> addr \<Rightarrow> addr \<Rightarrow> world \<Rightarrow> world option" where
  "update_object e stub object w = do {
     let bookkeepingKey = (if stub \<noteq> 0 then stub else object);
     if bookkeepingKey = 0 then None else do {
       let w = w\<lparr>memory := SetIgnoreReadFlag (memory w) object\<rparr>;
       if GetStubFlag (memory w) object then None else do {
         (objectSize, w) \<leftarrow> Object_SizeOf e object w;
         let (isSwappableType, m) = objectIsSwappableType (class_table e) (memory w) object;
         let w = w\<lparr>memory := ClearIgnoreReadFlag m object\<rparr>;
         let wasRead = GetReadBit (memory w) object;
         let wasWritten = GetWriteBit (memory w) object;
         let wsrVal = GetWriteShiftRegister (memory w) object;
         inSpace \<leftarrow>
           (if objectIsLarge objectSize \<and> objectIsCold wsrVal wasWritten \<and> \<not> GetNoSwapFlag (memory w) object
            then objectInSwappableSpace w object else Some False);
         let shouldSwapPreliminary =
           (objectIsLarge objectSize \<and> objectIsCold wsrVal wasWritten \<and> \<not> GetNoSwapFlag (memory w) object \<and>
            inSpace \<and> isSwappableType);
         (shouldSwap, w) \<leftarrow>
           (if shouldSwapPreliminary then do {
              let w = w\<lparr>memory := SetIgnoreReadFlag (memory w) object\<rparr>;
              let isExcluded = shouldExcludeObjectAndMembers object;
              m \<leftarrow>
                (if isExcluded then do {
                   let m = SetNoSwapFlag (memory w) object;
                   (_, m) \<leftarrow> raw_VisitReferences (class_table e) ExcludeVisitor (\<lambda>_ st. Some st) object ((), m);
                   Some m
                 }
                 else Some (memory w));
              Some (\<not> isExcluded, w\<lparr>memory := ClearIgnoreReadFlag m object\<rparr>)
            }
            else Some (False, w));
         let w =
           (if shouldSwap then
              let w = (if stub = 0 then w\<lparr>createStubSet := insort_insert object (createStubSet w)\<rparr> else w)
              in if GetDirtyBit (memory w) object then enqueue_write bookkeepingKey w else w
            else w);
         Some (w\<lparr>memory := shift_access_bits object wasRead wasWritten (memory w)\<rparr>)
       }
     }
   }"

text \<open>Only a partial collection counts.\<close>

definition CheckAndUpdate :: "env \<Rightarrow> bool \<Rightarrow> addr \<Rightarrow> world \<Rightarrow> world option" where
  "CheckAndUpdate e kGcTypePartial object w =
     (if \<not> swapEnabled w then Some w
      else if \<not> kGcTypePartial then Some w
      else do {
        (stub, obj, w) \<leftarrow> examined_object object w;
        (case obj of
           None \<Rightarrow> Some w
         | Some object \<Rightarrow> do {
             w \<leftarrow> update_object e stub object w;
             Some (if stub \<noteq> 0 then w\<lparr>memory := UnlockTableEntry (memory w) stub\<rparr> else w)
           })
      })"

section \<open>Writing an object\<close>

datatype write_result =
  SWAPFILE_WRITE_OK | SWAPFILE_WRITE_GARBAGE | SWAPFILE_WRITE_NULL_CLASS | SWAPFILE_WRITE_RESIZED | SWAPFILE_WRITE_NO_SWAP

text \<open>The first snapshot of an object goes to the end of the file, a later one over the earlier one. The
  result has the I/O error.\<close>

definition write_first :: "addr \<Rightarrow> byte list \<Rightarrow> world \<Rightarrow> bool \<times> world" where
  "write_first swapStateKey objectData w =
     (let offset = fs_tellp (swapfile w);
          (fs, s) = fs_write objectData (filesystem w) (swapfile w);
          writeError = checkStreamError s
      in (writeError,
          w\<lparr>filesystem := fs, swapfile := s,
            objectOffsetMap := sm_put swapStateKey offset (objectOffsetMap w),
            objectSizeMap := sm_put swapStateKey (length objectData) (objectSizeMap w),
            swapfileObjects := to_int (swapfileObjects w + 1),
            swapfileSize := to_int (swapfileSize w + int (length objectData))\<rparr>))"

definition write_again :: "addr \<Rightarrow> byte list \<Rightarrow> world \<Rightarrow> write_result \<times> bool \<times> world" where
  "write_again swapStateKey objectData w =
     (let (offset, oom) = sm_at 0 swapStateKey (objectOffsetMap w);
          (size', osm) = sm_at 0 swapStateKey (objectSizeMap w);
          w = w\<lparr>objectOffsetMap := oom, objectSizeMap := osm\<rparr>
      in if size' \<noteq> length objectData then (SWAPFILE_WRITE_RESIZED, False, w)
         else
           let curpos = fs_tellp (swapfile w);
               s = fs_seekp offset (swapfile w);
               (fs, s) = fs_write objectData (filesystem w) s;
               writeError = checkStreamError s;
               s = fs_seekp curpos s
           in (SWAPFILE_WRITE_OK, writeError, w\<lparr>filesystem := fs, swapfile := s\<rparr>))"

definition write_snapshot :: "env \<Rightarrow> addr \<Rightarrow> addr \<Rightarrow> world \<Rightarrow> (write_result \<times> bool \<times> world) option" where
  "write_snapshot e stub object w = do {
     let w = w\<lparr>memory := SetIgnoreReadFlag (memory w) object\<rparr>;
     (objectSize, w) \<leftarrow> Object_SizeOf e object w;
     let w = w\<lparr>memory := ClearIgnoreReadFlag (memory w) object\<rparr>;
     let w = w\<lparr>memory := ClearDirtyBit (memory w) object\<rparr>;
     let objectData = read_bytes (memory w) object objectSize;
     let objectInSwapFileMaps = sm_has object (objectOffsetMap w);
     if stub \<noteq> 0 \<and> objectInSwapFileMaps then None
     else if stub \<noteq> 0 then Some (write_again stub objectData w)
     else if objectInSwapFileMaps then Some (write_again object objectData w)
     else let (writeError, w) = write_first object objectData w in Some (SWAPFILE_WRITE_OK, writeError, w)
   }"

definition writeToSwapFile :: "env \<Rightarrow> addr \<Rightarrow> world \<Rightarrow> (write_result \<times> bool \<times> world) option" where
  "writeToSwapFile e object w = do {
     (stub, object, w) \<leftarrow>
       (if GetStubFlag (memory w) object then do {
          m \<leftarrow> LockTableEntry (memory w) object;
          let w = w\<lparr>memory := m\<rparr>;
          let obj = Stub_GetObjectAddress (memory w) object;
          if obj = 0 then None else Some (object, obj, w)
        }
        else Some (0, object, w));
     inSpace \<leftarrow> objectInSwappableSpace w object;
     if \<not> inSpace then None else if object = 0 then None else do {
       let w = w\<lparr>memory := SetIgnoreReadFlag (memory w) object\<rparr>;
       (klass, w) \<leftarrow> GetClass e object w;
       let w = w\<lparr>memory := ClearIgnoreReadFlag (memory w) object\<rparr>;
       let validObject = (klass \<noteq> 0);
       let noSwap = GetNoSwapFlag (memory w) object;
       (result, ioError, w) \<leftarrow>
         (if validObject \<and> \<not> noSwap then write_snapshot e stub object w
          else Some (if noSwap then SWAPFILE_WRITE_NO_SWAP else SWAPFILE_WRITE_NULL_CLASS, False, w));
       Some (result, ioError, if stub \<noteq> 0 then w\<lparr>memory := UnlockTableEntry (memory w) stub\<rparr> else w)
     }
   }"

section \<open>The write task\<close>

record write_stats =
  queueSize :: nat
  numGarbageObjects :: nat
  numNullClasses :: nat
  numResizedObjects :: nat

definition count_result :: "write_result \<Rightarrow> write_stats \<Rightarrow> write_stats" where
  "count_result r st =
     (case r of
        SWAPFILE_WRITE_GARBAGE \<Rightarrow> st\<lparr>numGarbageObjects := numGarbageObjects st + 1\<rparr>
      | SWAPFILE_WRITE_NULL_CLASS \<Rightarrow> st\<lparr>numNullClasses := numNullClasses st + 1\<rparr>
      | SWAPFILE_WRITE_RESIZED \<Rightarrow> st\<lparr>numResizedObjects := numResizedObjects st + 1\<rparr>
      | _ \<Rightarrow> st)"

text \<open>One round of the loop: whether to stop, whether there was an I/O error, the statistics.\<close>

definition write_round :: "env \<Rightarrow> nat \<Rightarrow> write_stats \<Rightarrow> world \<Rightarrow> (bool \<times> bool \<times> write_stats \<times> world) option" where
  "write_round e startTime st w = do {
     let st = st\<lparr>queueSize := length (writeQueue w)\<rparr>;
     (isDone, ioError, st, w) \<leftarrow>
       (case writeQueue w of
          [] \<Rightarrow> Some (True, False, st, w)
        | object # rest \<Rightarrow> do {
            let w = w\<lparr>writeQueue := rest, writeSet := removeAll object (writeSet w)\<rparr>;
            if object \<noteq> 0 then do {
              (writeResult, ioError, w) \<leftarrow> writeToSwapFile e object w;
              Some (ioError, ioError, count_result writeResult st, w)
            }
            else Some (False, False, st, w)
          });
     let (currentTime, w) = NanoTime e w;
     let maxDuration = (if appInForeground w then WRITE_TASK_FG_MAX_DURATION else WRITE_TASK_BG_MAX_DURATION);
     Some (isDone \<or> (currentTime + (2 ^ 64 - startTime)) mod 2 ^ 64 > maxDuration, ioError, st, w)
   }"

partial_function (option) write_loop :: "env \<Rightarrow> nat \<Rightarrow> write_stats \<Rightarrow> world \<Rightarrow> (bool \<times> write_stats \<times> world) option" where
  "write_loop e startTime st w = do {
     (isDone, ioError, st, w) \<leftarrow> write_round e startTime st w;
     if isDone then Some (ioError, st, w) else write_loop e startTime st w
   }"

text \<open>More than a quarter of the file is garbage. The division of the doubles is exact enough for the
  comparison; by 0 it gives infinity or no number.\<close>

definition shouldCompact :: "world \<Rightarrow> bool" where
  "shouldCompact w \<longleftrightarrow> 
     (if swapfileSize w = 0 then 0 < freedSize w
      else if 0 < swapfileSize w then swapfileSize w < 4 * freedSize w
      else 4 * freedSize w < swapfileSize w)"

definition WriteTask_Run :: "env \<Rightarrow> (world \<Rightarrow> world option) \<Rightarrow> world \<Rightarrow> (write_stats \<times> world) option" where
  "WriteTask_Run e performHomogeneousSpaceCompact w =
     (if \<not> swapEnabled w then None
      else do {
        let (startTime, w) = NanoTime e w;
        (ioError, st, w) \<leftarrow> write_loop e startTime
          \<lparr>queueSize = 0, numGarbageObjects = 0, numNullClasses = 0, numResizedObjects = 0\<rparr> w;
        w \<leftarrow>
          (if shouldCompact w then do {
             (_, w) \<leftarrow> CompactSwapFile e w;
             Some (snd (validateSwapFile w))
           }
           else Some w);
        w \<leftarrow> scheduleNextTask e performHomogeneousSpaceCompact ioError w;
        Some (st, w)
      })"

end
