(* ===== verification/Swap_Stubs.thy ===== *)
theory Swap_Stubs
  imports Swap_Write
begin

text \<open>
  Replacing objects by stubs, reclaiming their memory and getting it back (src/runtime/marvin\_swap.cc):
  \<^verbatim>\<open>CreateStubs\<close> with the patching of references it needs, \<^verbatim>\<open>SwapObjectsOut\<close>, \<^verbatim>\<open>SwapObjectsIn\<close>, the notices of the
  collectors (\<^verbatim>\<open>GcRecordFree\<close>, \<^verbatim>\<open>RecordForwardedObject\<close>, the semi-space hooks), and the transitions of the heap
  that call them (src/runtime/gc/heap.cc).
\<close>

section \<open>Freeing\<close>

text \<open>Freeing in the swapped-in space. Its own notice of the free (\<^verbatim>\<open>GcRecordFree\<close>) returns at once for an
  object of that space; freeing an address outside of it stops the model.\<close>

definition swappedIn_Free :: "addr \<Rightarrow> world \<Rightarrow> world option" where
  "swappedIn_Free obj w =
     (case swappedInSpace w of
        None \<Rightarrow> None
      | Some sp \<Rightarrow>
          if \<not> Contains sp obj then None
          else do {
            (_, sp, m) \<leftarrow> FreeListSpace_Free obj sp (memory w);
            Some (w\<lparr>swappedInSpace := Some sp, memory := m\<rparr>)
          })"

definition drop_records :: "addr \<Rightarrow> world \<Rightarrow> world" where
  "drop_records object w =
     (let w = (if object \<in> set (writeQueue w)
               then w\<lparr>writeQueue := remove1 object (writeQueue w), writeSet := removeAll object (writeSet w)\<rparr> else w);
          w = (if sm_has object (objectOffsetMap w) \<and> sm_has object (objectSizeMap w)
               then w\<lparr>freedObjects := to_int (freedObjects w + 1),
                      freedSize := to_long (freedSize w + int (fst (sm_at 0 object (objectSizeMap w)))),
                      objectOffsetMap := sm_erase object (objectOffsetMap w),
                      objectSizeMap := sm_erase object (objectSizeMap w)\<rparr>
               else w)
      in w\<lparr>createStubSet := removeAll object (createStubSet w)\<rparr>)"

definition free_stub_object :: "addr \<Rightarrow> world \<Rightarrow> world option" where
  "free_stub_object stub w = do {
     m \<leftarrow> LockTableEntry (memory w) stub;
     let w = w\<lparr>memory := m\<rparr>;
     let swappedInObj = Stub_GetObjectAddress (memory w) stub;
     w \<leftarrow>
       (if swappedInObj \<noteq> 0 then do {
          ok \<leftarrow> swappedIn_Contains w swappedInObj;
          if \<not> ok then None else swappedIn_Free swappedInObj w
        }
        else Some w);
     let w = w\<lparr>memory := ClearOccupiedBit (memory w) (GetTableEntry (memory w) stub)\<rparr>;
     Some (w\<lparr>memory := UnlockTableEntry (memory w) stub\<rparr>)
   }"

definition GcRecordFree :: "addr \<Rightarrow> world \<Rightarrow> world option" where
  "GcRecordFree object w =
     (if \<not> swapEnabled w then Some w
      else if creatingStubs w then Some w
      else do {
        inSpace \<leftarrow> swappedIn_Contains w object;
        if inSpace then Some w
        else do {
          let w = drop_records object w;
          if GetStubFlag (memory w) object then free_stub_object object w else Some w
        }
      })"

text \<open>The two functions that free the original of an object; the live bitmaps are not modelled.\<close>

definition FreeFromRosAllocSpace :: "env \<Rightarrow> addr \<Rightarrow> world \<Rightarrow> world option" where
  "FreeFromRosAllocSpace e obj w = do {
     let w = w\<lparr>memory := SetIgnoreReadFlag (memory w) obj\<rparr>;
     (objSize, w) \<leftarrow> Object_SizeOf e obj w;
     let w = w\<lparr>memory := ClearIgnoreReadFlag (memory w) obj\<rparr>;
     w \<leftarrow> GcRecordFree obj w;
     Some (w\<lparr>ros := (ros w)\<lparr>ros_slots := sm_erase obj (ros_slots (ros w))\<rparr>, bytes_freed := bytes_freed w + objSize\<rparr>)
   }"

definition FreeFromLargeObjectSpace :: "env \<Rightarrow> addr \<Rightarrow> world \<Rightarrow> world option" where
  "FreeFromLargeObjectSpace e obj w = do {
     let w = w\<lparr>memory := SetIgnoreReadFlag (memory w) obj\<rparr>;
     (objSize, w) \<leftarrow> Object_SizeOf e obj w;
     let w = w\<lparr>memory := ClearIgnoreReadFlag (memory w) obj\<rparr>;
     w \<leftarrow> GcRecordFree obj w;
     (_, sp) \<leftarrow> LO_Free obj (los w);
     Some (w\<lparr>los := sp, bytes_freed := bytes_freed w + objSize\<rparr>)
   }"

section \<open>Patching references\<close>

definition kReferentOffset :: nat where "kReferentOffset = 28"

definition set_field_object :: "CardTable \<Rightarrow> mem \<Rightarrow> addr \<Rightarrow> nat \<Rightarrow> addr \<Rightarrow> mem" where
  "set_field_object cards m obj offset new_value =
     (let m = raw_SetFieldObjectWithoutWriteBarrier m obj offset new_value
      in if new_value \<noteq> 0 then WriteBarrierField cards obj m else m)"

definition PatchVisitor :: "CardTable \<Rightarrow> addr smap \<Rightarrow> unit visitor" where
  "PatchVisitor cards remap obj offset st =
     (let (ref, m) = raw_GetFieldObject (snd st) obj offset
      in case map_of remap ref of
           Some new \<Rightarrow> Some ((), set_field_object cards m obj offset new)
         | None \<Rightarrow> Some ((), m))"

definition PatchReferenceVisitor :: "CardTable \<Rightarrow> addr smap \<Rightarrow> addr \<Rightarrow> unit \<times> mem \<Rightarrow> (unit \<times> mem) option" where
  "PatchReferenceVisitor cards remap ref st =
     (let (referent, m) = raw_GetFieldObject (snd st) ref kReferentOffset
      in case map_of remap referent of
           Some new \<Rightarrow> Some ((), set_field_object cards m ref kReferentOffset new)
         | None \<Rightarrow> Some ((), m))"

fun patch_stub_refs :: "addr smap \<Rightarrow> addr \<Rightarrow> nat \<Rightarrow> mem \<Rightarrow> mem" where
  "patch_stub_refs remap stub 0 m = m"
| "patch_stub_refs remap stub (Suc i) m =
     (let m = patch_stub_refs remap stub i m
      in case map_of remap (GetReference m stub i) of
           Some new \<Rightarrow> SetReference m stub i new
         | None \<Rightarrow> m)"

definition patch_object :: "classes \<Rightarrow> CardTable \<Rightarrow> addr smap \<Rightarrow> addr \<Rightarrow> mem \<Rightarrow> mem option" where
  "patch_object ct cards remap obj m =
     map_option snd (raw_VisitReferences ct (PatchVisitor cards remap) (PatchReferenceVisitor cards remap) obj ((), m))"

definition PatchCallback :: "classes \<Rightarrow> CardTable \<Rightarrow> addr smap \<Rightarrow> addr \<times> nat \<Rightarrow> mem \<Rightarrow> mem option" where
  "PatchCallback ct cards remap r m =
     (let (start, num_bytes) = r in
      if start = 0 \<or> num_bytes = 0 then Some m
      else if GetStubFlag m start then Some (patch_stub_refs remap start (GetNumRefs m start) m)
      else patch_object ct cards remap start m)"

fun patch_all :: "(addr \<times> nat \<Rightarrow> mem \<Rightarrow> mem option) \<Rightarrow> (addr \<times> nat) list \<Rightarrow> mem \<Rightarrow> mem option" where
  "patch_all f [] m = Some m"
| "patch_all f (r # rs) m = do { m \<leftarrow> f r m; patch_all f rs m }"

definition patch_entry :: "classes \<Rightarrow> CardTable \<Rightarrow> addr smap \<Rightarrow> addr \<Rightarrow> mem \<Rightarrow> mem option" where
  "patch_entry ct cards remap rte m = do {
     m \<leftarrow> LockFromAppThread m rte;
     m \<leftarrow>
       (if GetOccupiedBit m rte \<and> GetResidentBit m rte then
          (let obj = GetObjectAddress m rte in if obj = 0 then None else patch_object ct cards remap obj m)
        else Some m);
     Some (UnlockFromAppThread m rte)
   }"

fun patch_entries :: "classes \<Rightarrow> CardTable \<Rightarrow> addr smap \<Rightarrow> addr list \<Rightarrow> mem \<Rightarrow> mem option" where
  "patch_entries ct cards remap [] m = Some m"
| "patch_entries ct cards remap (rte # rtes) m = do { m \<leftarrow> patch_entry ct cards remap rte m; patch_entries ct cards remap rtes m }"

definition GlobalRefRootVisitor :: "addr smap \<Rightarrow> addr \<Rightarrow> addr" where
  "GlobalRefRootVisitor remap root = (case map_of remap root of Some new \<Rightarrow> new | None \<Rightarrow> root)"

section \<open>Renaming the keys of the data structures\<close>

definition replace_pointer :: "addr \<times> addr \<Rightarrow> int smap \<times> nat smap \<Rightarrow> (int smap \<times> nat smap) option" where
  "replace_pointer p maps =
     (let (originalPtr, newPtr) = p; (oom, osm) = maps in
      case (map_of oom originalPtr, map_of osm originalPtr) of
        (Some offset, Some size') \<Rightarrow>
          Some (sm_erase originalPtr (sm_put newPtr offset oom), sm_erase originalPtr (sm_put newPtr size' osm))
      | (None, None) \<Rightarrow> Some (oom, osm)
      | _ \<Rightarrow> None)"

fun replace_pointers :: "(addr \<times> addr) list \<Rightarrow> int smap \<times> nat smap \<Rightarrow> (int smap \<times> nat smap) option" where
  "replace_pointers [] maps = Some maps"
| "replace_pointers (p # ps) maps = do { maps \<leftarrow> replace_pointer p maps; replace_pointers ps maps }"

text \<open>Freeing what belongs to the stubs that are not in the table.\<close>

fun free_untouched_stubs :: "addr smap \<Rightarrow> (addr \<times> addr) list \<Rightarrow> world \<Rightarrow> world option" where
  "free_untouched_stubs addrTable [] w = Some w"
| "free_untouched_stubs addrTable ((stub, rte) # rest) w = do {
     w \<leftarrow>
       (if \<not> sm_has stub addrTable then do {
          m \<leftarrow> LockFromAppThread (memory w) rte;
          let w = w\<lparr>memory := m\<rparr>;
          let obj = GetObjectAddress (memory w) rte;
          w \<leftarrow> (if obj \<noteq> 0 then swappedIn_Free obj w else Some w);
          let w = w\<lparr>memory := ClearOccupiedBit (memory w) rte\<rparr>;
          Some (w\<lparr>memory := UnlockFromAppThread (memory w) rte\<rparr>)
        }
        else Some w);
     free_untouched_stubs addrTable rest w
   }"

text \<open>The keys to drop, in the order of the map: neither in the table nor in one of the two other spaces.\<close>

fun remove_set :: "world \<Rightarrow> addr smap \<Rightarrow> addr list \<Rightarrow> addr list option" where
  "remove_set w addrTable [] = Some []"
| "remove_set w addrTable (k # ks) = do {
     drop_it \<leftarrow>
       (if sm_has k addrTable then Some False
        else if LO_Contains (los w) k then Some False
        else map_option Not (swappedIn_Contains w k));
     rest \<leftarrow> remove_set w addrTable ks;
     Some (if drop_it then k # rest else rest)
   }"

definition replaceDataStructurePointers :: "addr smap \<Rightarrow> bool \<Rightarrow> world \<Rightarrow> world option" where
  "replaceDataStructurePointers addrTable removeUntouchedRosAlloc w = do {
     swapFileMapsRemoveSet \<leftarrow> remove_set w addrTable (map fst (objectOffsetMap w));
     (oom, osm) \<leftarrow> replace_pointers addrTable (objectOffsetMap w, objectSizeMap w);
     let w = w\<lparr>objectOffsetMap := oom, objectSizeMap := osm\<rparr>;
     if removeUntouchedRosAlloc then do {
       let w = w\<lparr>objectOffsetMap := fold sm_erase swapFileMapsRemoveSet (objectOffsetMap w),
                 objectSizeMap := fold sm_erase swapFileMapsRemoveSet (objectSizeMap w)\<rparr>;
       w \<leftarrow> free_untouched_stubs addrTable (stubRTEMap w) w;
       let w = w\<lparr>stubRTEMap := []\<rparr>;
       if createStubSet w \<noteq> [] \<or> writeQueue w \<noteq> [] \<or> writeSet w \<noteq> [] then None else Some w
     }
     else Some w
   }"

definition patchStubReferences :: "env \<Rightarrow> world \<Rightarrow> world option" where
  "patchStubReferences e w = do {
     let ct = class_table e;
     let callback = PatchCallback ct (card_table w) (remappingTable w);
     m \<leftarrow> patch_all callback (map (\<lambda>(start, _, n). (start, n)) (LO_Walk (los w))) (memory w);
     m \<leftarrow> patch_all callback (ros_slots (ros w)) m;
     m \<leftarrow> patch_entries ct (card_table w) (remappingTable w) (table_entries (recTable w)) m;
     let w = w\<lparr>memory := m, heap_roots := map (GlobalRefRootVisitor (remappingTable w)) (heap_roots w)\<rparr>;
     replaceDataStructurePointers (remappingTable w) False w
   }"

section \<open>Creating stubs\<close>

definition ros_Alloc :: "env \<Rightarrow> nat \<Rightarrow> world \<Rightarrow> (addr \<times> world) option" where
  "ros_Alloc e num_bytes w =
     (case ros_place e (ros w) num_bytes of
        None \<Rightarrow> None
      | Some a \<Rightarrow> Some (a, w\<lparr>ros := (ros w)\<lparr>ros_slots := sm_put a (ros_slot_size e num_bytes) (ros_slots (ros w))\<rparr>\<rparr>))"

definition swappedIn_Alloc :: "env \<Rightarrow> nat \<Rightarrow> world \<Rightarrow> (addr \<times> world) option" where
  "swappedIn_Alloc e num_bytes w =
     (case swappedInSpace w of
        None \<Rightarrow> None
      | Some sp \<Rightarrow>
          let (obj, _, sp) = FreeListSpace_Alloc (temp_addr e) num_bytes sp
          in if obj = 0 then None else Some (obj, w\<lparr>swappedInSpace := Some sp\<rparr>))"

text \<open>One stub. A full table gives no entry; the null entry is then written to, which stops the model.\<close>

definition create_stub :: "env \<Rightarrow> addr \<Rightarrow> world \<Rightarrow> world option" where
  "create_stub e obj w = do {
     if GetStubFlag (memory w) obj then None else do {
       inSpace \<leftarrow> objectInSwappableSpace w obj;
       if \<not> inSpace then None else do {
         (stubSize, m) \<leftarrow> GetStubSize_of (class_table e) (memory w) obj;
         (stub, w) \<leftarrow> ros_Alloc e stubSize (w\<lparr>memory := m\<rparr>);
         (entry, m) \<leftarrow> CreateEntry (recTable w) (memory w);
         let m = SetTableEntry m stub entry;
         m \<leftarrow> (if entry = 0 then None else LockTableEntry m stub);
         m \<leftarrow> PopulateFrom (class_table e) m stub obj;
         let w = w\<lparr>memory := SetIgnoreReadFlag m obj\<rparr>;
         (objSize, w) \<leftarrow> Object_SizeOf e obj w;
         let w = w\<lparr>memory := ClearIgnoreReadFlag (memory w) obj\<rparr>;
         (objCopy, w) \<leftarrow> swappedIn_Alloc e objSize w;
         let w = w\<lparr>memory := memcpy (memory w) objCopy obj objSize\<rparr>;
         w \<leftarrow>
           (if LO_Contains (los w) obj then FreeFromLargeObjectSpace e obj w
            else if ros_Contains w obj then FreeFromRosAllocSpace e obj w
            else None);
         let w = w\<lparr>remappingTable := sm_put obj stub (remappingTable w)\<rparr>;
         let m = Stub_SetObjectAddress (memory w) stub objCopy;
         let m = SetResidentBit m (GetTableEntry m stub);
         let numPages = objSize div kPageSize + (if objSize mod kPageSize > 0 then 1 else 0);
         let m = SetNumPages m (GetTableEntry m stub) numPages;
         Some (w\<lparr>memory := UnlockTableEntry m stub\<rparr>)
       }
     }
   }"

fun create_stubs :: "env \<Rightarrow> addr list \<Rightarrow> world \<Rightarrow> world option" where
  "create_stubs e [] w = Some w"
| "create_stubs e (obj # objs) w = do { w \<leftarrow> create_stub e obj w; create_stubs e objs w }"

definition CreateStubs :: "env \<Rightarrow> world \<Rightarrow> world option" where
  "CreateStubs e w =
     (if \<not> swapEnabled w then Some w
      else if remappingTable w \<noteq> [] then None
      else do {
        let w = w\<lparr>createStubSet := filter (\<lambda>obj. \<not> GetNoSwapFlag (memory w) obj) (createStubSet w)\<rparr>;
        let w = w\<lparr>creatingStubs := True\<rparr>;
        w \<leftarrow> create_stubs e (createStubSet w) w;
        w \<leftarrow> patchStubReferences e w;
        Some (w\<lparr>remappingTable := [], createStubSet := [], creatingStubs := False, writeQueue := [], writeSet := []\<rparr>)
      })"

section \<open>Reclaiming and returning memory\<close>

text \<open>The loop body of \<^verbatim>\<open>SwapObjectsOut\<close>, run without interference; the interleaving with application
  threads is the subject of the theory of the lock protocol.\<close>

definition reclaim_entry :: "addr \<Rightarrow> world \<Rightarrow> world option" where
  "reclaim_entry rte w = do {
     firstCheck \<leftarrow> doKernelReclamationChecks (memory w) rte;
     if firstCheck then do {
       let w = w\<lparr>memory := SetKernelLockBit (memory w) rte\<rparr>;
       secondCheck \<leftarrow> doKernelReclamationChecks (memory w) rte;
       w \<leftarrow>
         (if secondCheck then do {
            let obj = GetObjectAddress (memory w) rte;
            ok \<leftarrow> swappedIn_Contains w obj;
            if \<not> ok then None
            else do {
              let len = GetNumPages (memory w) rte * kPageSize;
              let m = zero_bytes (memory w) obj len;
              Some (w\<lparr>memory := ClearResidentBit m rte\<rparr>)
            }
          }
          else Some w);
       Some (w\<lparr>memory := ClearKernelLockBit (memory w) rte\<rparr>)
     }
     else Some w
   }"

fun reclaim_entries :: "addr list \<Rightarrow> world \<Rightarrow> world option" where
  "reclaim_entries [] w = Some w"
| "reclaim_entries (rte # rtes) w = do { w \<leftarrow> reclaim_entry rte w; reclaim_entries rtes w }"

definition SwapObjectsOut :: "world \<Rightarrow> world option" where
  "SwapObjectsOut w = (if \<not> swapEnabled w then Some w else reclaim_entries (table_entries (recTable w)) w)"

definition swap_in_key :: "env \<Rightarrow> addr \<Rightarrow> world \<Rightarrow> world option" where
  "swap_in_key e stub w =
     (if GetStubFlag (memory w) stub then
        if \<not> ros_Contains w stub then None
        else do {
          let (objOffset, oom) = sm_at 0 stub (objectOffsetMap w);
          let (objSize, osm) = sm_at 0 stub (objectSizeMap w);
          let w = w\<lparr>objectOffsetMap := oom, objectSizeMap := osm\<rparr>;
          m \<leftarrow> LockTableEntry (memory w) stub;
          let w = w\<lparr>memory := m\<rparr>;
          w \<leftarrow>
            (if \<not> GetResidentBit (memory w) (GetTableEntry (memory w) stub)
             then map_option snd (swapInObject e stub objOffset objSize w) else Some w);
          Some (w\<lparr>memory := UnlockTableEntry (memory w) stub\<rparr>)
        }
      else Some w)"

fun swap_in_keys :: "env \<Rightarrow> addr list \<Rightarrow> world \<Rightarrow> world option" where
  "swap_in_keys e [] w = Some w"
| "swap_in_keys e (k # ks) w = do { w \<leftarrow> swap_in_key e k w; swap_in_keys e ks w }"

definition SwapObjectsIn :: "env \<Rightarrow> world \<Rightarrow> world option" where
  "SwapObjectsIn e w = (if \<not> swapEnabled w then Some w else swap_in_keys e (map fst (objectOffsetMap w)) w)"

definition UnlockAllReclamationTableEntries :: "world \<Rightarrow> world" where
  "UnlockAllReclamationTableEntries w = w\<lparr>memory := UnlockAllEntries (recTable w) (memory w)\<rparr>"

section \<open>Notices of the semi-space collector\<close>

definition RecordForwardedObject :: "addr \<Rightarrow> addr \<Rightarrow> world \<Rightarrow> world" where
  "RecordForwardedObject obj forwardAddress w =
     (if \<not> swapEnabled w then w
      else if sm_has obj (objectOffsetMap w)
      then w\<lparr>semiSpaceRemappingTable := sm_put obj forwardAddress (semiSpaceRemappingTable w)\<rparr>
      else w)"

definition SemiSpaceRecordStubMappings :: "world \<Rightarrow> world option" where
  "SemiSpaceRecordStubMappings w =
     (if \<not> swapEnabled w then Some w
      else if stubRTEMap w \<noteq> [] then None
      else Some (w\<lparr>stubRTEMap :=
             fold (\<lambda>obj m. if GetStubFlag (memory w) obj then sm_put obj (GetTableEntry (memory w) obj) m else m)
               (map fst (objectOffsetMap w)) []\<rparr>))"

definition SemiSpaceUpdateDataStructures :: "world \<Rightarrow> world option" where
  "SemiSpaceUpdateDataStructures w =
     (if \<not> swapEnabled w then Some w
      else do {
        w \<leftarrow> replaceDataStructurePointers (semiSpaceRemappingTable w) True w;
        Some (w\<lparr>semiSpaceRemappingTable := []\<rparr>)
      })"

section \<open>The transitions of the heap\<close>

datatype compact_result = kSuccess | kErrorReject | kErrorUnsupported | kErrorVMShuttingDown

text \<open>What \<^verbatim>\<open>Heap::PerformHomogeneousSpaceCompact\<close> asks of the heap before it starts, and the collection it
  then runs, are arguments.\<close>

definition PerformHomogeneousSpaceCompact_swap ::
  "env \<Rightarrow> bool \<Rightarrow> bool \<Rightarrow> bool \<Rightarrow> (world \<Rightarrow> world option) \<Rightarrow> world \<Rightarrow> (compact_result \<times> world) option" where
  "PerformHomogeneousSpaceCompact_swap e rejected supported shutting_down collect w =
     (if rejected then Some (kErrorReject, w)
      else if \<not> supported then Some (kErrorUnsupported, w)
      else if shutting_down then Some (kErrorVMShuttingDown, w)
      else do {
        let w = UnlockAllReclamationTableEntries w;
        w \<leftarrow> CreateStubs e w;
        w \<leftarrow> SwapObjectsOut w;
        let (start_time, w) = NanoTime e w;
        w \<leftarrow> collect w;
        let (end_time, w) = NanoTime e w;
        Some (kSuccess, w)
      })"

datatype ProcessState = kProcessStateJankPerceptible | kProcessStateJankImperceptible

text \<open>The transitions of the collector itself are an argument.\<close>

definition UpdateProcessState ::
  "env \<Rightarrow> (bool \<Rightarrow> world \<Rightarrow> world option) \<Rightarrow> ProcessState \<Rightarrow> ProcessState \<Rightarrow> world \<Rightarrow> world option" where
  "UpdateProcessState e request_transition old_process_state new_process_state w =
     (if old_process_state \<noteq> new_process_state then do {
        let jank_perceptible = (new_process_state = kProcessStateJankPerceptible);
        if jank_perceptible then do {
          let w = UnlockAllReclamationTableEntries w;
          let w = SetInForeground True w;
          w \<leftarrow> SwapObjectsIn e w;
          request_transition True w
        }
        else do {
          w \<leftarrow> request_transition False w;
          Some (SetInForeground False w)
        }
      }
      else Some w)"

end
