(* ===== verification/Swap_Transparency.thy ===== *)
theory Swap_Transparency
  imports Swap_Stubs
begin

text \<open>
  What swapping promises to the program: an object that was written to the swap file and reclaimed reads,
  through its stub, as it did before. The theory relates a stub, its table entry and its object to the
  object's image in the swap file, follows swapping in through \<^verbatim>\<open>swapInObject\<close> and the accessors' preambles, and
  states the contract of the accessors as a locale.
\<close>

section \<open>Layout of a stub and its object\<close>

definition object_extent :: "mem \<Rightarrow> addr \<Rightarrow> nat \<Rightarrow> nat" where
  "object_extent m rte sz = max sz (GetNumPages m rte * kPageSize)"

text \<open>A stub at \<open>stub\<close> whose entry \<open>rte\<close> is not locked by the reclaimer and names the object \<open>obj\<close> of \<open>sz\<close> bytes,
  with references at \<open>offs\<close>; the three do not overlap.\<close>

definition stub_layout :: "classes \<Rightarrow> mem \<Rightarrow> addr \<Rightarrow> addr \<Rightarrow> addr \<Rightarrow> nat list \<Rightarrow> nat \<Rightarrow> bool" where
  "stub_layout ct m stub rte obj offs sz \<longleftrightarrow>
     GetStubFlag m stub \<and> GetTableEntry m stub = rte \<and> GetObjectAddress m rte = obj \<and> obj \<noteq> 0 \<and>
     \<not> GetKernelLockBit m rte \<and> traced ct (GetReference m stub 0) offs sz \<and> kObjectHeaderSize \<le> sz \<and>
     apart stub (GetStubSize (Suc (length offs))) rte sizeof_TableEntry \<and>
     apart stub (GetStubSize (Suc (length offs))) obj (object_extent m rte sz) \<and>
     apart rte sizeof_TableEntry obj (object_extent m rte sz)"

text \<open>What the swap file holds of a stub's object.\<close>

definition on_disk :: "world \<Rightarrow> addr \<Rightarrow> byte list \<Rightarrow> bool" where
  "on_disk w stub snap \<longleftrightarrow>
     (case (opened (swapfile w), map_of (objectOffsetMap w) stub, map_of (objectSizeMap w) stub) of
        (Some path, Some off, Some n) \<Rightarrow>
          stream_good (swapfile w) \<and> 0 \<le> off \<and> n = length snap \<and> file_bytes (filesystem w) path (nat off) n = snap
      | _ \<Rightarrow> False)"

lemma on_disk_memory [simp]: "on_disk (w\<lparr>memory := m\<rparr>) = on_disk w"
  by (auto simp: on_disk_def fun_eq_iff split: option.splits)

definition image_ok :: "byte list \<Rightarrow> bool" where
  "image_ok snap \<longleftrightarrow> kObjectHeaderSize \<le> length snap \<and> snap ! 10 = 0 \<and> \<not> bit (snap ! 8) 7"

lemma load_cong: "(\<And>x. a \<le> x \<Longrightarrow> x < a + n \<Longrightarrow> m' x = m x) \<Longrightarrow> load m' a n = load m a n"
  unfolding load_def by (intro arg_cong [where f = le_nat] read_bytes_cong) simp

lemma layoutD:
  assumes "stub_layout ct m stub rte obj offs sz"
  shows "GetStubFlag m stub" "GetTableEntry m stub = rte" "GetObjectAddress m rte = obj" "Stub_GetObjectAddress m stub = obj"
    and "obj \<noteq> 0" "\<not> GetKernelLockBit m rte" "traced ct (GetReference m stub 0) offs sz" "kObjectHeaderSize \<le> sz"
    and "fields_ok (0 # offs) sz" "apart stub (GetStubSize (Suc (length offs))) rte sizeof_TableEntry"
    and "apart stub (GetStubSize (Suc (length offs))) obj (object_extent m rte sz)"
    and "apart rte sizeof_TableEntry obj (object_extent m rte sz)"
    and "apart stub (GetStubSize (Suc (length offs))) obj sz" "apart rte sizeof_TableEntry obj sz"
  using assms by (auto simp: stub_layout_def Stub_GetObjectAddress_def traced_def object_extent_def apart_def)

definition object_frame :: "addr \<Rightarrow> addr \<Rightarrow> nat \<Rightarrow> mem \<Rightarrow> mem \<Rightarrow> bool" where
  "object_frame rte obj n m m' \<longleftrightarrow>
     (\<forall>x. m' x = m x \<or> x = rte \<or> x = rte + 1 \<or> obj \<le> x \<and> x < obj + n)"

lemma object_frame_refl [simp]: "object_frame rte obj n m m"
  by (simp add: object_frame_def)

lemma object_frame_trans: "object_frame rte obj n m m1 \<Longrightarrow> object_frame rte obj n m1 m2 \<Longrightarrow> object_frame rte obj n m m2"
  unfolding object_frame_def by metis

lemma object_frameI:
  assumes "\<And>x. x \<noteq> rte \<Longrightarrow> x \<noteq> rte + 1 \<Longrightarrow> x < obj \<or> obj + n \<le> x \<Longrightarrow> m' x = m x" "n \<le> n'"
  shows "object_frame rte obj n' m m'"
  unfolding object_frame_def
proof
  fix x show "m' x = m x \<or> x = rte \<or> x = rte + 1 \<or> obj \<le> x \<and> x < obj + n'"
    using assms(1) [of x] assms(2) by linarith
qed

lemma copied_only_outside:
  assumes "copied_only obj offs m m'" "fields_ok offs sz" "kObjectHeaderSize \<le> sz" "x < obj \<or> obj + sz \<le> x"
  shows "m' x = m x"
proof -
  have "\<not> (obj + off \<le> x \<and> x < obj + off + 4)" if "off \<in> set offs" for off
    using assms(2,4) that by (auto simp: fields_ok_def)
  moreover have "x \<noteq> obj + 10" "x \<noteq> obj + 11" using assms(3,4) by (auto simp: kObjectHeaderSize_def)
  ultimately show ?thesis using assms(1) by (auto simp: copied_only_def)
qed

text \<open>The layout does not depend on the object's contents, nor on the flags and the counter of the entry,
  as long as the reclaimer's lock stays open.\<close>

lemma layout_frame:
  assumes lay: "stub_layout ct m stub rte obj offs sz"
    and fr: "object_frame rte obj (object_extent m rte sz) m m'"
    and kl: "\<not> GetKernelLockBit m' rte"
  shows "stub_layout ct m' stub rte obj offs sz"
    and "i < Suc (length offs) \<Longrightarrow> GetReference m' stub i = GetReference m stub i"
proof -
  note ap = layoutD(10-12) [OF lay]
  have st: "m' x = m x" if "stub \<le> x" "x < stub + GetStubSize (Suc (length offs))" for x
    using that ap fr [unfolded object_frame_def, rule_format, of x] by (auto simp: apart_def sizeof_TableEntry_def)
  have en: "m' x = m x" if "rte + 2 \<le> x" "x < rte + 8" for x
    using that ap fr [unfolded object_frame_def, rule_format, of x] by (auto simp: apart_def sizeof_TableEntry_def)
  have "GetStubFlag m' stub = GetStubFlag m stub"
    by (rule GetStubFlag_local) (auto intro!: st simp: GetStubSize_def sizeof_Stub_def)
  moreover have "GetTableEntry m' stub = GetTableEntry m stub"
    unfolding GetTableEntry_def by (rule load_cong) (auto intro!: st simp: GetStubSize_def sizeof_Stub_def)
  moreover have "GetObjectAddress m' rte = GetObjectAddress m rte" "GetNumPages m' rte = GetNumPages m rte"
    unfolding GetObjectAddress_def GetNumPages_def by (auto intro!: load_cong en)
  moreover have refs: "GetReference m' stub i = GetReference m stub i" if "i < Suc (length offs)" for i
    unfolding GetReference_def GetReferenceAddress_def
    using that by (intro load_cong st) (auto simp: GetStubSize_def sizeof_Stub_def)
  then show "i < Suc (length offs) \<Longrightarrow> GetReference m' stub i = GetReference m stub i" .
  moreover have "GetReference m' stub 0 = GetReference m stub 0" by (rule refs) simp
  ultimately show "stub_layout ct m' stub rte obj offs sz"
    using lay kl by (simp add: stub_layout_def object_extent_def)
qed

lemma layout_lock:
  assumes "stub_layout ct m stub rte obj offs sz"
  shows "LockTableEntry m stub = Some (IncrAppLockCounter m rte)"
    and "stub_layout ct (IncrAppLockCounter m rte) stub rte obj offs sz"
    and "i < Suc (length offs) \<Longrightarrow> GetReference (IncrAppLockCounter m rte) stub i = GetReference m stub i"
proof -
  show "LockTableEntry m stub = Some (IncrAppLockCounter m rte)"
    by (simp add: LockTableEntry_def LockFromAppThread_eq layoutD [OF assms])
  have fr: "object_frame rte obj (object_extent m rte sz) m (IncrAppLockCounter m rte)"
    by (simp add: IncrAppLockCounter_def object_frame_def)
  have kl: "\<not> GetKernelLockBit (IncrAppLockCounter m rte) rte" by (simp add: layoutD [OF assms])
  show "stub_layout ct (IncrAppLockCounter m rte) stub rte obj offs sz" by (rule layout_frame [OF assms fr kl])
  show "i < Suc (length offs) \<Longrightarrow> GetReference (IncrAppLockCounter m rte) stub i = GetReference m stub i"
    by (rule layout_frame(2) [OF assms fr kl])
qed

section \<open>Swapping in\<close>

lemma read_from_disk:
  assumes "on_disk w stub snap" "map_of (objectOffsetMap w) stub = Some off"
  shows "fs_read (length snap) (filesystem w) (fs_seekg off (swapfile w)) =
           (snap, (fs_seekg off (swapfile w))\<lparr>position := nat off + length snap\<rparr>)"
    and "fs_seekg (fs_tellp (swapfile w)) ((fs_seekg off (swapfile w))\<lparr>position := nat off + length snap\<rparr>) = swapfile w"
  using assms
  by (auto simp: on_disk_def fs_read_def fs_seekg_def fs_tellp_def stream_good_def stream_fail_def Let_def
      split: option.splits)

text \<open>The memory after swapping in an object with the image \<open>snap\<close>: the object holds the image, with the stub's
  references in its reference fields, and is dirty if that made a difference.\<close>

definition swapped_in :: "mem \<Rightarrow> addr \<Rightarrow> addr \<Rightarrow> addr \<Rightarrow> nat list \<Rightarrow> byte list \<Rightarrow> mem \<Rightarrow> bool" where
  "swapped_in m stub rte obj offs snap m' \<longleftrightarrow>
     (let m0 = write_bytes m obj snap in
      GetResidentBit m' rte \<and> copied_only obj (0 # offs) (SetResidentBit m0 rte) m' \<and>
      (\<forall>i < Suc (length offs). load m' (obj + (0 # offs) ! i) 4 = GetReference m stub i) \<and>
      (GetDirtyBit m' obj \<longleftrightarrow> (\<exists>i < Suc (length offs). load m0 (obj + (0 # offs) ! i) 4 \<noteq> GetReference m stub i)))"

lemma swapInObject_copies:
  assumes lay: "stub_layout (class_table e) (memory w) stub rte obj offs sz"
    and disk: "on_disk w stub snap" "map_of (objectOffsetMap w) stub = Some off" "length snap = sz" "image_ok snap"
    and out: "\<not> GetResidentBit (memory w) rte"
  defines "m0 \<equiv> write_bytes (memory w) obj snap"
  shows "\<exists>m'. swapInObject e stub off sz w = Some (obj, w\<lparr>memory := m'\<rparr>) \<and>
     swapped_in (memory w) stub rte obj offs snap m' \<and> stub_layout (class_table e) m' stub rte obj offs sz"
proof -
  note L = layoutD [OF lay]
  have ext: "sz \<le> object_extent (memory w) rte sz" by (simp add: object_extent_def)
  have rte: "rte < obj \<or> obj + sz \<le> rte" using L(14) by (auto simp: apart_def sizeof_TableEntry_def)
  have out0: "x < obj \<or> obj + sz \<le> x \<Longrightarrow> m0 x = memory w x" for x
    using disk(3) by (auto simp: m0_def intro: write_bytes_out)
  have k0: "\<not> GetKernelLockBit m0 rte" using L(6) out0 rte kernel_lock.get_local [of m0 rte "memory w"] by simp
  have fr0: "object_frame rte obj (object_extent (memory w) rte sz) (memory w) m0"
    using out0 ext by (rule object_frameI)
  note lay0 = layout_frame(1) [OF lay fr0 k0] and refs0 = layout_frame(2) [OF lay fr0 k0]
  have im: "\<not> GetStubFlag m0 obj" "\<not> GetDirtyBit m0 obj"
    using disk(3,4) write_bytes_in [of 8 snap "memory w" obj] write_bytes_in [of 10 snap "memory w" obj]
    by (auto simp: m0_def image_ok_def GetStubFlag_def GetDirtyBit_def header_bit_simps kObjectHeaderSize_def)
  obtain m1 where m1: "CopyRefsInto (class_table e) m0 stub obj = Some m1"
      "\<forall>i < Suc (length offs). load m1 (obj + (0 # offs) ! i) 4 = GetReference m0 stub i" "copied_only obj (0 # offs) m0 m1"
      "GetDirtyBit m1 obj \<longleftrightarrow> GetDirtyBit m0 obj \<or>
        (\<exists>i < Suc (length offs). load m0 (obj + (0 # offs) ! i) 4 \<noteq> GetReference m0 stub i)"
    using CopyRefsInto_copies [OF layoutD(7) [OF lay0] L(8) im(1) L(13)] by (elim exE conjE) (rule that)
  have in_obj: "x < obj \<or> obj + sz \<le> x \<Longrightarrow> m1 x = m0 x" for x
    by (rule copied_only_outside [OF m1(3) L(9,8)])
  let ?m = "SetResidentBit m1 rte"
  have fr1: "object_frame rte obj (object_extent (memory w) rte sz) (memory w) ?m"
    using ext by (intro object_frameI [where n = sz]) (simp_all add: resident.set_frame in_obj out0)
  have "GetKernelLockBit m1 rte = GetKernelLockBit m0 rte" using in_obj [OF rte] by (intro kernel_lock.get_local) simp
  then have k1: "\<not> GetKernelLockBit ?m rte" using k0 by simp
  have "GetTableEntry ?m stub = rte" by (rule layoutD(2) [OF layout_frame(1) [OF lay fr1 k1]])
  moreover have "GetTableEntry ?m stub = GetTableEntry m1 stub"
    unfolding GetTableEntry_def using L(10)
    by (intro load_cong resident.set_frame) (auto simp: apart_def sizeof_TableEntry_def GetStubSize_def sizeof_Stub_def)
  ultimately have te1: "GetTableEntry m1 stub = rte" by simp
  have "swapInObject e stub off sz w = Some (obj, w\<lparr>memory := SetResidentBit m1 rte\<rparr>)"
    using L out im(2) m1(1) te1 read_from_disk [OF disk(1,2)] disk(3) by (simp add: swapInObject_def Let_def flip: m0_def)
  moreover have "copied_only obj (0 # offs) (SetResidentBit m0 rte) (SetResidentBit m1 rte)"
    using m1(3) in_obj [OF rte] by (auto simp: copied_only_def SetResidentBit_def SetBit_def)
  moreover have "load (SetResidentBit m1 rte) (obj + (0 # offs) ! i) 4 = load m1 (obj + (0 # offs) ! i) 4"
    if "i < Suc (length offs)" for i
  proof (rule load_cong)
    have "(0 # offs) ! i \<in> set (0 # offs)" using that by (metis length_Cons nth_mem)
    then have "(0 # offs) ! i + 4 \<le> sz" using L(9) by (auto simp: fields_ok_def)
    then show "SetResidentBit m1 rte x = m1 x" if "obj + (0 # offs) ! i \<le> x" "x < obj + (0 # offs) ! i + 4" for x
      using that rte by (auto intro!: resident.set_frame)
  qed
  moreover have "GetDirtyBit (SetResidentBit m1 rte) obj = GetDirtyBit m1 obj"
    using rte L(8) by (intro dirty_bit.get_local resident.set_frame) (auto simp: kObjectHeaderSize_def)
  moreover have "stub_layout (class_table e) ?m stub rte obj offs sz" by (rule layout_frame(1) [OF lay fr1 k1])
  ultimately show ?thesis using m1(2,4) im(2) refs0 by (intro exI [of _ "SetResidentBit m1 rte"]) (simp add: resident.get_set swapped_in_def flip: m0_def cong: conj_cong)
qed

lemma swapped_in_stub_flag:
  assumes "swapped_in m stub rte obj offs snap m'" "stub_layout ct m stub rte obj offs (length snap)" "image_ok snap"
  shows "\<not> GetStubFlag m' obj"
proof -
  note L = layoutD [OF assms(2)]
  have "m' (obj + 8) = SetResidentBit (write_bytes m obj snap) rte (obj + 8)"
    using assms(1) L(9) by (fastforce simp: swapped_in_def Let_def copied_only_def fields_ok_def kObjectHeaderSize_def)
  also have "\<dots> = write_bytes m obj snap (obj + 8)"
    using L(8,14) by (intro resident.set_frame) (auto simp: apart_def sizeof_TableEntry_def kObjectHeaderSize_def)
  also have "\<dots> = snap ! 8" using L(8) by (intro write_bytes_in) (simp add: kObjectHeaderSize_def)
  finally show ?thesis using assms(3) by (simp add: GetStubFlag_def image_ok_def header_bit_simps)
qed

section \<open>Entering a stub\<close>

lemma stub_enter_resident:
  assumes "stub_layout ct (memory w) stub rte obj offs sz" "GetResidentBit (memory w) rte"
  shows "stub_enter e stub w = Some (w\<lparr>memory := IncrAppLockCounter (memory w) rte\<rparr>)"
  using assms(2) layout_lock(1,2) [OF assms(1)] by (simp add: stub_enter_def layoutD Let_def)

lemma stub_enter_swapped_out:
  assumes lay: "stub_layout (class_table e) (memory w) stub rte obj offs sz"
    and disk: "on_disk w stub snap" "length snap = sz" "image_ok snap"
    and out: "\<not> GetResidentBit (memory w) rte" and on: "swapEnabled w" "ros_Contains w stub"
  shows "\<exists>m'. stub_enter e stub w = Some (w\<lparr>memory := m'\<rparr>) \<and>
     swapped_in (IncrAppLockCounter (memory w) rte) stub rte obj offs snap m' \<and>
     stub_layout (class_table e) m' stub rte obj offs sz"
proof -
  obtain off where off: "map_of (objectOffsetMap w) stub = Some off" "map_of (objectSizeMap w) stub = Some sz"
    using disk(1,2) by (auto simp: on_disk_def split: option.splits)
  let ?w = "w\<lparr>memory := IncrAppLockCounter (memory w) rte\<rparr>"
  have "on_disk ?w stub snap" using disk(1) by simp
  then obtain m' where "swapInObject e stub off sz ?w = Some (obj, ?w\<lparr>memory := m'\<rparr>)"
      "swapped_in (memory ?w) stub rte obj offs snap m'" "stub_layout (class_table e) m' stub rte obj offs sz"
    using swapInObject_copies [of e ?w stub rte obj offs sz snap off] layout_lock(2) [OF lay] off disk out by auto
  moreover have "SwapInOnDemand e stub ?w = map_option snd (swapInObject e stub off sz ?w)"
    using on off by (simp add: SwapInOnDemand_def sm_at_Some ros_Contains_def map_option_case split: option.splits prod.splits)
  ultimately show ?thesis
    using out layout_lock(1,2) [OF lay] by (intro exI [of _ m']) (simp add: stub_enter_def layoutD Let_def)
qed

section \<open>Accessors that return a value\<close>

text \<open>The contract of an accessor with a returning preamble, over its effect \<open>raw\<close> on a real object, which
  changes at most the access bits.\<close>

locale value_accessor =
  fixes access :: "env \<Rightarrow> addr \<Rightarrow> world \<Rightarrow> ('a \<times> world) option"
    and raw :: "env \<Rightarrow> mem \<Rightarrow> addr \<Rightarrow> 'a \<times> mem"
  assumes on_stub: "GetStubFlag (memory w) obj \<Longrightarrow> access e obj w =
      do { w \<leftarrow> stub_enter e obj w;
           (result, w) \<leftarrow> access e (Stub_GetObjectAddress (memory w) obj) w;
           Some (result, stub_leave obj w) }"
    and on_object: "\<not> GetStubFlag (memory w) obj \<Longrightarrow>
      access e obj w = Some (fst (raw e (memory w) obj), w\<lparr>memory := snd (raw e (memory w) obj)\<rparr>)"
    and raw_frame: "x \<noteq> obj + 11 \<Longrightarrow> snd (raw e m obj) x = m x"
begin

lemma through_stub:
  assumes "stub_enter e stub w = Some w1" "GetStubFlag (memory w) stub"
    and lay: "stub_layout ct (memory w1) stub rte obj offs sz" and no: "\<not> GetStubFlag (memory w1) obj"
  shows "access e stub w =
    Some (fst (raw e (memory w1) obj), w1\<lparr>memory := DecrAppLockCounter (snd (raw e (memory w1) obj)) rte\<rparr>)"
proof -
  let ?m = "snd (raw e (memory w1) obj)"
  note L = layoutD [OF lay]
  have fr: "object_frame rte obj (object_extent (memory w1) rte sz) (memory w1) ?m"
    unfolding object_frame_def using L(8) raw_frame [of _ obj e "memory w1"]
    by (intro allI, rename_tac x, case_tac "x = obj + 11") (auto simp: object_extent_def kObjectHeaderSize_def less_max_iff_disj)
  have "?m rte = memory w1 rte"
    using L(8,14) by (intro raw_frame) (auto simp: apart_def sizeof_TableEntry_def kObjectHeaderSize_def)
  then have "\<not> GetKernelLockBit ?m rte" using L(6) kernel_lock.get_local [of ?m rte "memory w1"] by simp
  then have "GetTableEntry ?m stub = rte" by (rule layoutD(2) [OF layout_frame(1) [OF lay fr]])
  then show ?thesis
    using assms(1,2) no L(4) on_object [OF no] by (simp add: on_stub stub_leave_def UnlockTableEntry_def UnlockFromAppThread_def)
qed

end

lemma mark_read_frame: "x \<noteq> obj + 11 \<Longrightarrow> mark_read m obj x = m x"
  by (simp add: mark_read_def read_bit.set_frame)

lemma raw_SizeOf_frame: "x \<noteq> obj + 11 \<Longrightarrow> snd (raw_SizeOf ct m obj) x = m x"
  by (simp add: raw_SizeOf_def raw_GetClass_def raw_GetFieldObject_def raw_GetField_def Array_SizeOf_def String_SizeOf_def int_to_size_def
      Let_def mark_read_frame)

lemmas raw_accessor_defs = raw_GetField_def raw_GetFieldObject_def Let_def mark_read_frame

interpretation get_field: value_accessor "\<lambda>e obj w. GetField e obj n off w" "\<lambda>e m obj. raw_GetField n m obj off" for n off
  by unfold_locales (simp_all add: GetField.simps raw_accessor_defs)

interpretation get_boolean: value_accessor "\<lambda>e obj w. GetFieldBoolean e obj off w" "\<lambda>e m obj. raw_GetField 1 m obj off" for off
  by unfold_locales (simp_all add: GetFieldBoolean.simps get_field.on_object get_field.raw_frame)

interpretation get_byte: value_accessor "\<lambda>e obj w. GetFieldByte e obj off w" "\<lambda>e m obj. raw_GetField 1 m obj off" for off
  by unfold_locales (simp_all add: GetFieldByte.simps get_field.on_object get_field.raw_frame)

interpretation get_char: value_accessor "\<lambda>e obj w. GetFieldChar e obj off w" "\<lambda>e m obj. raw_GetField 2 m obj off" for off
  by unfold_locales (simp_all add: GetFieldChar.simps get_field.on_object get_field.raw_frame)

interpretation get_short: value_accessor "\<lambda>e obj w. GetFieldShort e obj off w" "\<lambda>e m obj. raw_GetField 2 m obj off" for off
  by unfold_locales (simp_all add: GetFieldShort.simps get_field.on_object get_field.raw_frame)

interpretation get_32: value_accessor "\<lambda>e obj w. GetField32 e obj off w" "\<lambda>e m obj. raw_GetField 4 m obj off" for off
  by unfold_locales (simp_all add: GetField32.simps get_field.on_object get_field.raw_frame)

interpretation get_64: value_accessor "\<lambda>e obj w. GetField64 e obj off w" "\<lambda>e m obj. raw_GetField 8 m obj off" for off
  by unfold_locales (simp_all add: GetField64.simps get_field.on_object get_field.raw_frame)

interpretation get_object: value_accessor "\<lambda>e obj w. GetFieldObject e obj off w" "\<lambda>e m obj. raw_GetFieldObject m obj off" for off
  by unfold_locales (simp_all add: GetFieldObject.simps raw_accessor_defs)

interpretation get_size: value_accessor Object_SizeOf "\<lambda>e m obj. raw_SizeOf (class_table e) m obj"
  by unfold_locales (simp_all add: Object_SizeOf.simps raw_SizeOf_frame split: prod.splits)

section \<open>An image in step with its object\<close>

text \<open>The image agrees with the object, the bytes of the access and dirty bits apart, and the stub's
  references are the object's.\<close>

definition in_sync :: "mem \<Rightarrow> addr \<Rightarrow> addr \<Rightarrow> nat list \<Rightarrow> byte list \<Rightarrow> bool" where
  "in_sync m stub obj offs snap \<longleftrightarrow>
     (\<forall>x < length snap. x < 9 \<or> 12 \<le> x \<longrightarrow> m (obj + x) = snap ! x) \<and>
     (\<forall>i < Suc (length offs). load m (obj + (0 # offs) ! i) 4 = GetReference m stub i)"

lemma read_bytes_load: "read_bytes m a n = le_bytes n (load m a n)"
  using le_bytes_le_nat [of "read_bytes m a n"] by (simp add: load_def)

lemma load_inj: "load m a n = load m' b n \<Longrightarrow> i < n \<Longrightarrow> m (a + i) = m' (b + i)"
  using nth_read_bytes [of i n m a] nth_read_bytes [of i n m' b] by (simp add: read_bytes_load del: nth_read_bytes)

lemma copied_only_cases:
  assumes "copied_only obj offs m m'" "x < obj + 10 \<or> obj + 12 \<le> x"
  obtains "m' x = m x" | off where "off \<in> set offs" "obj + off \<le> x" "x < obj + off + 4"
  using assms(1) [unfolded copied_only_def, rule_format, of x] assms(2) by auto

lemma swapped_in_outside:
  assumes inn: "swapped_in m stub rte obj offs snap m'" and lay: "stub_layout ct m stub rte obj offs (length snap)"
    and x: "x \<noteq> rte" "x < obj \<or> obj + length snap \<le> x"
  shows "m' x = m x"
proof -
  have co: "copied_only obj (0 # offs) (SetResidentBit (write_bytes m obj snap) rte) m'" using inn by (simp add: swapped_in_def Let_def)
  show ?thesis using copied_only_outside [OF co layoutD(9,8) [OF lay] x(2)] x by (simp add: resident.set_frame write_bytes_out)
qed

lemma swapped_in_refs:
  assumes inn: "swapped_in m stub rte obj offs snap m'" and lay: "stub_layout ct m stub rte obj offs (length snap)"
    and kl: "\<not> GetKernelLockBit m' rte"
  shows "i < Suc (length offs) \<Longrightarrow> GetReference m' stub i = GetReference m stub i"
proof -
  have "object_frame rte obj (object_extent m rte (length snap)) m m'"
    using swapped_in_outside [OF inn lay] by (intro object_frameI [where n = "length snap"]) (auto simp: object_extent_def)
  then show "i < Suc (length offs) \<Longrightarrow> GetReference m' stub i = GetReference m stub i" by (rule layout_frame(2) [OF lay _ kl])
qed

lemma swapped_in_sync:
  assumes inn: "swapped_in m stub rte obj offs snap m'" and lay: "stub_layout ct m stub rte obj offs (length snap)"
    and kl: "\<not> GetKernelLockBit m' rte"
    and sync: "in_sync M stub obj offs snap" "\<forall>i < Suc (length offs). GetReference m stub i = GetReference M stub i"
  shows "in_sync m' stub obj offs snap" and "\<not> GetDirtyBit m' obj"
proof -
  note L = layoutD [OF lay]
  let ?m0 = "write_bytes m obj snap"
  have image: "M (obj + x) = snap ! x" if "x < length snap" "x < 9 \<or> 12 \<le> x" for x
    using sync(1) that unfolding in_sync_def by blast
  have rf: "load M (obj + (0 # offs) ! i) 4 = GetReference m stub i" if "i < Suc (length offs)" for i
    using sync that unfolding in_sync_def by simp
  have m0: "?m0 (obj + x) = snap ! x" if "x < length snap" for x using that by (rule write_bytes_in)
  have fld: "f \<in> set (0 # offs) \<Longrightarrow> (f = 0 \<or> 16 \<le> f) \<and> f + 4 \<le> length snap" for f
    using L(9) by (auto simp: fields_ok_def kObjectHeaderSize_def)
  have "load ?m0 (obj + (0 # offs) ! i) 4 = load M (obj + (0 # offs) ! i) 4" if "i < Suc (length offs)" for i
  proof (rule load_cong)
    fix x assume x: "obj + (0 # offs) ! i \<le> x" "x < obj + (0 # offs) ! i + 4"
    have f: "(0 # offs) ! i \<in> set (0 # offs)" using that by (metis length_Cons nth_mem)
    have le: "obj \<le> x" using x(1) by simp
    have "x - obj < length snap \<and> (x - obj < 9 \<or> 12 \<le> x - obj)" using x fld [OF f] le by arith
    then show "?m0 x = M x" using m0 [of "x - obj"] image [of "x - obj"] le by simp
  qed
  then show "\<not> GetDirtyBit m' obj" using inn rf by (auto simp: swapped_in_def Let_def)
  have "copied_only obj (0 # offs) (SetResidentBit ?m0 rte) m'" using inn by (simp add: swapped_in_def Let_def)
  then have "m' (obj + x) = snap ! x" if x: "x < length snap" "x < 9 \<or> 12 \<le> x" for x
  proof (rule copied_only_cases [of obj "0 # offs" "SetResidentBit ?m0 rte" m' "obj + x"])
    show "obj + x < obj + 10 \<or> obj + 12 \<le> obj + x" using x(2) by auto
    assume "m' (obj + x) = SetResidentBit ?m0 rte (obj + x)"
    moreover have "SetResidentBit ?m0 rte (obj + x) = ?m0 (obj + x)"
      using L(14) x(1) by (intro resident.set_frame) (auto simp: apart_def sizeof_TableEntry_def)
    ultimately show ?thesis using m0 x by simp
  next
    fix f assume f: "f \<in> set (0 # offs)" "obj + f \<le> obj + x" "obj + x < obj + f + 4"
    then obtain i where i: "i < Suc (length offs)" "f = (0 # offs) ! i" by (metis in_set_conv_nth length_Cons)
    have "load m' (obj + f) 4 = load M (obj + f) 4" using inn i rf by (simp add: swapped_in_def Let_def)
    then show ?thesis using load_inj [of m' "obj + f" 4 M "obj + f" "x - f"] image [OF x] f by simp
  qed
  then show "in_sync m' stub obj offs snap"
    using inn swapped_in_refs [OF inn lay kl] by (simp add: in_sync_def swapped_in_def Let_def)
qed

section \<open>Reclaiming\<close>

lemma checks_local:
  assumes "\<And>x. x \<in> {rte + 1, obj + 9, obj + 10, obj + 11} \<Longrightarrow> m' x = m x" "GetObjectAddress m' rte = obj" "GetObjectAddress m rte = obj"
    and "GetOccupiedBit m' rte = GetOccupiedBit m rte" "GetResidentBit m' rte = GetResidentBit m rte"
  shows "doKernelReclamationChecks m' rte = doKernelReclamationChecks m rte"
proof -
  have "GetAppLockCounter m' rte = GetAppLockCounter m rte" "GetDirtyBit m' obj = GetDirtyBit m obj"
      "GetWriteShiftRegister m' obj = GetWriteShiftRegister m obj" "GetWriteBit m' obj = GetWriteBit m obj"
    using assms(1) by (simp_all add: GetAppLockCounter_def GetDirtyBit_def GetWriteShiftRegister_def GetWriteBit_def)
  then show ?thesis using assms(2-) by (simp add: doKernelReclamationChecks_def Let_def)
qed

definition reclaimed :: "mem \<Rightarrow> addr \<Rightarrow> addr \<Rightarrow> mem" where
  "reclaimed m rte obj =
     ClearKernelLockBit (ClearResidentBit (zero_bytes (SetKernelLockBit m rte) obj (GetNumPages m rte * kPageSize)) rte) rte"

lemma Clear_Set_kernel_lock: "\<not> GetKernelLockBit m rte \<Longrightarrow> ClearKernelLockBit (SetKernelLockBit m rte) rte = m"
  by (rule ext, rename_tac x, case_tac "x = rte") (auto simp: entry_bit_defs bit_simps intro!: bit_eqI)

lemma reclaim_entry_eq:
  assumes lay: "stub_layout ct (memory w) stub rte obj offs sz" and sp: "swappedIn_Contains w obj = Some True"
  shows "reclaim_entry rte w =
    (case doKernelReclamationChecks (memory w) rte of
       None \<Rightarrow> None
     | Some go \<Rightarrow> Some (if go then w\<lparr>memory := reclaimed (memory w) rte obj\<rparr> else w))"
proof -
  note L = layoutD [OF lay]
  let ?m = "SetKernelLockBit (memory w) rte"
  have ld: "load ?m (rte + k) n = load (memory w) (rte + k) n" if "0 < k" for k n
    using that by (intro load_cong kernel_lock.set_frame) simp
  then have addr: "GetObjectAddress ?m rte = obj" "GetNumPages ?m rte = GetNumPages (memory w) rte"
    using L(3) ld [of 4 4] ld [of 2 2] by (simp_all add: GetObjectAddress_def GetNumPages_def)
  have "doKernelReclamationChecks ?m rte = doKernelReclamationChecks (memory w) rte"
    using L(3,8,14) addr(1)
    by (intro checks_local [where obj = obj])
       (auto simp: kernel_lock.set_frame apart_def sizeof_TableEntry_def kObjectHeaderSize_def)
  then show ?thesis
    using addr sp L(6) by (auto simp: reclaim_entry_def reclaimed_def Let_def swappedIn_Contains_def Clear_Set_kernel_lock split: option.splits)
qed

lemma reclaimed_facts:
  assumes lay: "stub_layout ct m stub rte obj offs sz"
  shows "stub_layout ct (reclaimed m rte obj) stub rte obj offs sz" "\<not> GetResidentBit (reclaimed m rte obj) rte"
    and "i < Suc (length offs) \<Longrightarrow> GetReference (reclaimed m rte obj) stub i = GetReference m stub i"
    and "obj \<le> x \<Longrightarrow> x < obj + GetNumPages m rte * kPageSize \<Longrightarrow> reclaimed m rte obj x = 0"
    and "GetAppLockCounter (reclaimed m rte obj) rte = GetAppLockCounter m rte"
proof -
  note L = layoutD [OF lay]
  let ?n = "GetNumPages m rte * kPageSize"
  have at: "reclaimed m rte obj x = (if obj \<le> x \<and> x < obj + ?n then 0 else m x)" if "x \<noteq> rte" for x
    using that by (simp add: reclaimed_def kernel_lock.clear_frame resident.clear_frame kernel_lock.set_frame zero_bytes_at)
  have fr: "object_frame rte obj (object_extent m rte sz) m (reclaimed m rte obj)"
    by (rule object_frameI [where n = ?n]) (auto simp: at object_extent_def)
  have kl: "\<not> GetKernelLockBit (reclaimed m rte obj) rte" by (simp add: reclaimed_def kernel_lock.get_clear)
  show "stub_layout ct (reclaimed m rte obj) stub rte obj offs sz" by (rule layout_frame(1) [OF lay fr kl])
  show "i < Suc (length offs) \<Longrightarrow> GetReference (reclaimed m rte obj) stub i = GetReference m stub i"
    by (rule layout_frame(2) [OF lay fr kl])
  show "\<not> GetResidentBit (reclaimed m rte obj) rte" by (simp add: reclaimed_def resident.get_clear)
  show "GetAppLockCounter (reclaimed m rte obj) rte = GetAppLockCounter m rte"
    using L(12) by (auto simp: GetAppLockCounter_def at apart_def sizeof_TableEntry_def object_extent_def)
  assume "obj \<le> x" "x < obj + ?n"
  then show "reclaimed m rte obj x = 0" using L(12) by (subst at) (auto simp: apart_def sizeof_TableEntry_def object_extent_def)
qed

section \<open>Reading through a stub\<close>

lemma DecrAppLockCounter_frame: "x \<noteq> rte + 1 \<Longrightarrow> DecrAppLockCounter m rte x = m x"
  by (simp add: DecrAppLockCounter_def)

text \<open>What a read through a stub leaves behind of an object in memory.\<close>

lemma in_sync_frame:
  assumes "in_sync m stub obj offs snap" "stub_layout ct m stub rte obj offs (length snap)"
    and "\<And>x. x \<noteq> obj + 9 \<Longrightarrow> x \<noteq> obj + 10 \<Longrightarrow> x \<noteq> obj + 11 \<Longrightarrow> x \<noteq> rte \<Longrightarrow> x \<noteq> rte + 1 \<Longrightarrow> m' x = m x" "\<not> GetKernelLockBit m' rte"
  shows "in_sync m' stub obj offs snap" "stub_layout ct m' stub rte obj offs (length snap)"
proof -
  note L = layoutD [OF assms(2)]
  have fr: "object_frame rte obj (object_extent m rte (length snap)) m m'"
    using assms(3) L(8) by (intro object_frameI [where n = 16]) (auto simp: object_extent_def kObjectHeaderSize_def)
  note F = layout_frame [OF assms(2) fr assms(4)]
  show "stub_layout ct m' stub rte obj offs (length snap)" by (rule F)
  have same: "m' (obj + x) = m (obj + x)" if "x < length snap" "x < 9 \<or> 12 \<le> x" for x
    using that L(14) by (intro assms(3)) (auto simp: apart_def sizeof_TableEntry_def)
  have "load m' (obj + (0 # offs) ! i) 4 = load m (obj + (0 # offs) ! i) 4" if "i < Suc (length offs)" for i
  proof (rule load_cong)
    have "(0 # offs) ! i \<in> set (0 # offs)" using that by (metis length_Cons nth_mem)
    then have f: "((0 # offs) ! i = 0 \<or> 16 \<le> (0 # offs) ! i) \<and> (0 # offs) ! i + 4 \<le> length snap"
      using L(9) by (auto simp: fields_ok_def kObjectHeaderSize_def)
    fix x assume x: "obj + (0 # offs) ! i \<le> x" "x < obj + (0 # offs) ! i + 4"
    then have "x - obj < length snap \<and> (x - obj < 9 \<or> 12 \<le> x - obj)" "obj \<le> x" using f by arith+
    then show "m' x = m x" using same [of "x - obj"] by simp
  qed
  then show "in_sync m' stub obj offs snap" using assms(1) F(2) same by (simp add: in_sync_def)
qed

lemma load_image:
  assumes "\<And>x. x < len \<Longrightarrow> x < 9 \<or> 12 \<le> x \<Longrightarrow> m' (obj + x) = m (obj + x)" "off + n \<le> len" "off + n \<le> 9 \<or> 12 \<le> off"
  shows "load m' (obj + off) n = load m (obj + off) n"
proof (rule load_cong)
  fix x assume x: "obj + off \<le> x" "x < obj + off + n"
  then have "x - obj < len \<and> (x - obj < 9 \<or> 12 \<le> x - obj)" "obj \<le> x" using assms(2,3) by arith+
  then show "m' x = m x" using assms(1) [of "x - obj"] by simp
qed

lemma read_swapped_out:
  assumes lay: "stub_layout (class_table e) (memory w) stub rte obj offs sz" and on: "swapEnabled w" "ros_Contains w stub"
    and disk: "on_disk w stub snap" "length snap = sz" "image_ok snap" and out: "\<not> GetResidentBit (memory w) rte"
    and sync: "in_sync M stub obj offs snap" "\<forall>i < Suc (length offs). GetReference (memory w) stub i = GetReference M stub i"
    and fld: "off + n \<le> sz" "off + n \<le> 9 \<or> 12 \<le> off"
  shows "\<exists>m'. GetField e stub n off w = Some (load M (obj + off) n, w\<lparr>memory := m'\<rparr>) \<and> GetResidentBit m' rte \<and>
    \<not> GetDirtyBit m' obj \<and> GetAppLockCounter m' rte = GetAppLockCounter (memory w) rte \<and>
    in_sync m' stub obj offs snap \<and> stub_layout (class_table e) m' stub rte obj offs sz"
proof -
  note L = layoutD [OF lay] and K = layout_lock [OF lay]
  have K2: "stub_layout (class_table e) (IncrAppLockCounter (memory w) rte) stub rte obj offs (length snap)" using K(2) disk(2) by simp
  obtain m' where m': "stub_enter e stub w = Some (w\<lparr>memory := m'\<rparr>)"
      "swapped_in (IncrAppLockCounter (memory w) rte) stub rte obj offs snap m'"
      "stub_layout (class_table e) m' stub rte obj offs sz"
    using stub_enter_swapped_out [OF lay disk out on] by blast
  have sync1: "in_sync m' stub obj offs snap" and clean: "\<not> GetDirtyBit m' obj"
    using swapped_in_sync [OF m'(2) K2 layoutD(6) [OF m'(3)] sync(1)] K(3) sync(2) by auto
  let ?m = "DecrAppLockCounter (mark_read m' obj) rte"
  have g: "GetField e stub n off w = Some (load (mark_read m' obj) (obj + off) n, w\<lparr>memory := ?m\<rparr>)"
    using get_field.through_stub [OF m'(1) L(1), of "class_table e" rte obj offs sz n off] m'(3)
      swapped_in_stub_flag [OF m'(2) K2 disk(3)] by (simp add: raw_GetField_def Let_def)
  have at: "?m x = m' x" if "x \<noteq> obj + 11" "x \<noteq> rte + 1" for x
    using that by (simp add: DecrAppLockCounter_frame mark_read_frame)
  have rte: "rte \<noteq> obj + 11" "obj + 10 \<noteq> rte + 1" "rte + 1 < obj \<or> obj + sz \<le> rte + 1" "rte + 1 \<noteq> obj + 11"
    using L(8,14) by (auto simp: apart_def sizeof_TableEntry_def kObjectHeaderSize_def)
  have kl: "\<not> GetKernelLockBit ?m rte" "GetResidentBit ?m rte" "\<not> GetDirtyBit ?m obj"
    using layoutD(6) [OF m'(3)] m'(2) clean at [of rte] at [of "obj + 10"] rte
      kernel_lock.get_local [of ?m rte m'] resident.get_local [of ?m rte m'] dirty_bit.get_local [of ?m obj m']
    by (auto simp: swapped_in_def Let_def)
  have "in_sync ?m stub obj offs snap" "stub_layout (class_table e) ?m stub rte obj offs sz"
    using in_sync_frame [OF sync1 _ _ kl(1), of "class_table e"] m'(3) disk(2) at by auto
  moreover have "load (mark_read m' obj) (obj + off) n = load M (obj + off) n"
    using sync(1) sync1 disk(2) by (intro load_image [OF _ fld]) (auto simp: in_sync_def mark_read_frame)
  moreover have "m' (rte + 1) = memory w (rte + 1) + 1"
    using swapped_in_outside [OF m'(2) K2, of "rte + 1"] rte(3) disk(2) by (simp add: IncrAppLockCounter_def)
  then have "GetAppLockCounter ?m rte = GetAppLockCounter (memory w) rte"
    using rte(4) by (simp add: GetAppLockCounter_def DecrAppLockCounter_def mark_read_frame)
  ultimately show ?thesis using g kl by (intro exI [of _ ?m]) simp
qed

section \<open>Properties of swapping\<close>

text \<open>C1. Swapping out and in is invisible to readers. Take a stub whose object is in memory and whose image in the
  swap file is in step with it. When the reclaimer finds the object clean, cold and unlocked, \<^verbatim>\<open>SwapObjectsOut\<close>
  gives its pages back, and nothing but zeros is left of it. A later read of any field through the stub
  (the access and dirty bits apart) brings the object back and returns the value the field had before;
  the object is again resident, clean and in step with its image, and its entry is unlocked.\<close>

theorem swap_out_in_transparent:
  assumes lay: "stub_layout (class_table e) (memory w) stub rte obj offs sz" and on: "swapEnabled w" "ros_Contains w stub"
    and disk: "on_disk w stub snap" "length snap = sz" "image_ok snap" "in_sync (memory w) stub obj offs snap"
    and chk: "doKernelReclamationChecks (memory w) rte = Some True" "swappedIn_Contains w obj = Some True"
    and fld: "off + n \<le> sz" "off + n \<le> 9 \<or> 12 \<le> off"
  shows "\<exists>w1 w2. reclaim_entry rte w = Some w1 \<and> \<not> GetResidentBit (memory w1) rte \<and>
    (\<forall>x. obj \<le> x \<and> x < obj + GetNumPages (memory w) rte * kPageSize \<longrightarrow> memory w1 x = 0) \<and>
    GetField e stub n off w1 = Some (load (memory w) (obj + off) n, w2) \<and>
    GetResidentBit (memory w2) rte \<and> \<not> GetDirtyBit (memory w2) obj \<and> GetAppLockCounter (memory w2) rte = 0 \<and>
    in_sync (memory w2) stub obj offs snap \<and> on_disk w2 stub snap"
proof -
  let ?w1 = "w\<lparr>memory := reclaimed (memory w) rte obj\<rparr>"
  note R = reclaimed_facts [OF lay]
  have r: "reclaim_entry rte w = Some ?w1" by (simp add: reclaim_entry_eq [OF lay chk(2)] chk(1))
  have ctr: "GetAppLockCounter (memory w) rte = 0"
    using chk(1) by (auto simp: doKernelReclamationChecks_def Let_def word_gt_0 split: if_splits)
  obtain m' where "GetField e stub n off ?w1 = Some (load (memory w) (obj + off) n, ?w1\<lparr>memory := m'\<rparr>)" "GetResidentBit m' rte"
      "\<not> GetDirtyBit m' obj" "GetAppLockCounter m' rte = 0" "in_sync m' stub obj offs snap"
    using read_swapped_out [of e ?w1 stub rte obj offs sz snap "memory w" off n] R(1-3,5) on disk fld ctr
    by (auto simp: ros_Contains_def)
  then show ?thesis
    using r R(2,4) disk(1) by (intro exI [of _ ?w1] exI [of _ "?w1\<lparr>memory := m'\<rparr>"]) simp
qed

text \<open>A stub at 1000 with its entry at 2000 and a resident, clean object of class 200 at 65536, whose image is at the
  start of the swap file.\<close>

definition demo_env :: env where
  "demo_env = \<lparr>class_table = demo_classes, ros_place = (\<lambda>_ _. Some 3000), ros_slot_size = (\<lambda>n. n), temp_addr = 1, nano_time = (\<lambda>k. k),
     process_id = 7, proc_cmdline = ''app'', mapped_table = Some 2000, mapped_space = Some 65536, mapped_infos = Some 1024,
     next_task_id = (\<lambda>_. 1), sendfile_moves = (\<lambda>n. n), stat_junk = 0, uninit_bytes = (\<lambda>n. replicate n 0)\<rparr>"

definition swap_mem :: mem where
  "swap_mem = (\<lambda>_. 0)(1000 := 0xD0, 1001 := 7, 1008 := 0x80, 1010 := 3, 1016 := 200, 2000 := 5, 2002 := 1, 2006 := 1, 65536 := 200)"

definition demo_image :: "byte list" where
  "demo_image = 200 # replicate 4095 0"

definition demo_world :: world where
  "demo_world = \<lparr>memory = swap_mem, pid = 7, remappingTable = [], semiSpaceRemappingTable = [], createStubSet = [], stubRTEMap = [],
     creatingStubs = False, bgMarkSweepCounter = 0, freedObjects = 0, freedSize = 0, swapfileObjects = 1, swapfileSize = 4096,
     appInForeground = True, swapEnabled = True, swappedInSpace = Some demo_space, recTable = \<lparr>base_address = 2000, num_entries = 1\<rparr>,
     swapfile = \<lparr>opened = Some ''swap'', position = 4096, eofbit = False, failbit = False, badbit = False\<rparr>,
     objectOffsetMap = [(1000, 0)], objectSizeMap = [(1000, 4096)], writeQueue = [], writeSet = [],
     filesystem = \<lparr>files = [''swap'' \<mapsto> demo_image], device = (\<lambda>_. True), device_ops = 0\<rparr>,
     ros = \<lparr>ros_begin = 512, ros_limit = 4096, ros_slots = [(1000, 32)]\<rparr>, los = LargeObjectMapSpace_Create, task_processor = None,
     clock_reads = 0, gc_requests = [], heap_roots = [1000], bytes_freed = 0,
     card_table = \<lparr>map_begin = 0, map_end = 0, biased_begin = 100000, card_offset = 0\<rparr>\<rparr>"

lemma le_nat_append: "le_nat (xs @ ys) = le_nat xs + 256 ^ length xs * le_nat ys"
  by (induction xs) (simp_all add: algebra_simps)

lemma load_add: "load m a (n + k) = load m a n + 256 ^ n * load m (a + n) k"
proof -
  have "read_bytes m a (n + k) = read_bytes m a n @ read_bytes m (a + n) k"
    by (rule nth_equalityI) (auto simp: nth_append)
  then show ?thesis by (simp add: load_def le_nat_append)
qed

lemma load_8: "load m a 8 = load m a 4 + 256 ^ 4 * load m (a + 4) 4"
  using load_add [of m a 4 4] by simp

lemma swap_mem_fields:
  "GetStubFlag swap_mem 1000" "GetTableEntry swap_mem 1000 = 2000" "GetObjectAddress swap_mem 2000 = 65536"
  "\<not> GetKernelLockBit swap_mem 2000" "GetNumPages swap_mem 2000 = 1" "GetReference swap_mem 1000 0 = 200"
  "GetReference swap_mem 1000 1 = 0" "GetReference swap_mem 1000 2 = 0"
  by (simp_all add: swap_mem_def GetStubFlag_def header_bit_simps GetTableEntry_def GetObjectAddress_def GetNumPages_def
      GetReference_def GetReferenceAddress_def sizeof_Stub_def load_eval load_8 entry_bit_defs bit_simps)

lemma demo_layout: "stub_layout demo_classes swap_mem 1000 2000 65536 [16, 20] 4096"
  using demo_traced
  by (simp add: stub_layout_def swap_mem_fields object_extent_def kPageSize_def kObjectHeaderSize_def apart_def GetStubSize_def
      sizeof_Stub_def sizeof_TableEntry_def)

lemma demo_on_disk: "on_disk demo_world 1000 demo_image" "image_ok demo_image" "length demo_image = 4096"
  by (simp_all add: on_disk_def demo_world_def stream_good_def file_bytes_def demo_image_def image_ok_def kObjectHeaderSize_def)

lemma demo_in_sync: "in_sync swap_mem 1000 65536 [16, 20] demo_image"
proof -
  have "swap_mem (65536 + x) = demo_image ! x" if "x < length demo_image" for x
    using that by (cases x) (auto simp: swap_mem_def demo_image_def)
  moreover have "load swap_mem (65536 + [0, 16, 20] ! i) 4 = GetReference swap_mem 1000 i" if "i < 3" for i
    using that by (auto simp: less_Suc_eq numeral_3_eq_3 swap_mem_def load_eval GetReference_def GetReferenceAddress_def sizeof_Stub_def)
  ultimately show ?thesis by (auto simp: in_sync_def)
qed

lemma demo_checks: "doKernelReclamationChecks swap_mem 2000 = Some True" "swappedIn_Contains demo_world 65536 = Some True"
  by (simp_all add: doKernelReclamationChecks_def swap_mem_fields)
     (simp_all add: swap_mem_def objectIsCold_def GetWriteShiftRegister_def GetBits8_def GetWriteBit_def GetDirtyBit_def
      GetAppLockCounter_def entry_bit_defs bit_simps swappedIn_Contains_def demo_world_def Contains_def demo_space_def kAlignment_def kPageSize_def)

theorem swap_out_in_transparent_witness:
  "\<exists>w1 w2. reclaim_entry 2000 demo_world = Some w1 \<and> memory w1 65536 = 0 \<and> GetField demo_env 1000 4 0 w1 = Some (200, w2)"
proof -
  have w: "class_table demo_env = demo_classes" "memory demo_world = swap_mem" "swapEnabled demo_world" "ros_Contains demo_world 1000"
    by (simp_all add: demo_env_def demo_world_def ros_Contains_def)
  have "load swap_mem 65536 4 = 200" by (simp add: swap_mem_def load_eval)
  then show ?thesis
    using swap_out_in_transparent [of demo_env demo_world 1000 2000 65536 "[16, 20]" 4096 demo_image 0 4]
      demo_layout demo_on_disk demo_in_sync demo_checks w swap_mem_fields(5) by (fastforce simp: kPageSize_def)
qed

section \<open>Writing an image\<close>

lemma raw_SizeOf_ignored: "GetIgnoreReadFlag m obj \<Longrightarrow> snd (raw_SizeOf ct m obj) = m"
  by (simp add: raw_SizeOf_def raw_GetClass_def raw_GetFieldObject_def raw_GetField_def Array_SizeOf_def String_SizeOf_def int_to_size_def
      Let_def mark_read_ignored)

lemma load_header_byte: "load (m(obj + 11 := b)) obj 4 = load m obj 4" "load (m(obj + 11 := b)) (obj + 16) 4 = load m (obj + 16) 4"
  by (simp_all add: load_byte_out)

lemma load_mark_read: "load (mark_read m obj) obj 4 = load m obj 4" "load (mark_read m obj) (obj + 16) 4 = load m (obj + 16) 4"
  by (simp_all add: mark_read_def SetReadBit_def load_header_byte)

lemma raw_SizeOf_cong:
  "load m' obj 4 = load m obj 4 \<Longrightarrow> load m' (obj + 16) 4 = load m (obj + 16) 4 \<Longrightarrow> fst (raw_SizeOf ct m' obj) = fst (raw_SizeOf ct m obj)"
  by (simp add: raw_SizeOf_def raw_GetClass_def raw_GetFieldObject_def raw_GetField_def Array_SizeOf_def String_SizeOf_def int_to_size_def
      Let_def load_mark_read)

lemma ClearIgnore_SetIgnore: "ClearIgnoreReadFlag (SetIgnoreReadFlag m p) p = ClearIgnoreReadFlag m p"
  by (simp add: ClearIgnoreReadFlag_def SetIgnoreReadFlag_def ClearBits8_SetBits8)

lemma ClearIgnore_idem: "ClearIgnoreReadFlag (ClearIgnoreReadFlag m p) p = ClearIgnoreReadFlag m p"
  by (simp add: ClearIgnoreReadFlag_def ClearBits8_idem)

lemma space_of_memory [simp]: "objectInSwappableSpace (w\<lparr>memory := m\<rparr>) = objectInSwappableSpace w"
  by (simp add: fun_eq_iff objectInSwappableSpace_def ros_Contains_def swappedIn_Contains_def)

text \<open>The snapshot of a real object is taken with the ignore-read flag and the dirty bit cleared.\<close>

definition snapshot_mem :: "mem \<Rightarrow> addr \<Rightarrow> mem" where
  "snapshot_mem m obj = ClearDirtyBit (ClearIgnoreReadFlag m obj) obj"

lemma write_snapshot_eq:
  assumes no: "\<not> GetStubFlag (memory w) obj" and size: "fst (raw_SizeOf (class_table e) (memory w) obj) = sz"
    and key: "\<not> sm_has obj (objectOffsetMap w)" and st: "stub \<noteq> 0"
  shows "write_snapshot e stub obj w =
    Some (write_again stub (read_bytes (snapshot_mem (memory w) obj) obj sz) (w\<lparr>memory := snapshot_mem (memory w) obj\<rparr>))"
proof -
  let ?m = "SetIgnoreReadFlag (memory w) obj"
  have ns: "\<not> GetStubFlag ?m obj" using no by (simp add: GetStubFlag_def SetIgnoreReadFlag_def)
  have "raw_SizeOf (class_table e) ?m obj = (sz, ?m)"
    using raw_SizeOf_ignored [OF ignore_read.get_set] size
      raw_SizeOf_cong [of ?m obj "memory w" "class_table e"] by (simp add: SetIgnoreReadFlag_def load_header_byte prod_eq_iff)
  then have "Object_SizeOf e obj (w\<lparr>memory := ?m\<rparr>) = Some (sz, w\<lparr>memory := ?m\<rparr>)"
    using get_size.on_object [of "w\<lparr>memory := ?m\<rparr>" obj e] ns by simp
  then show ?thesis
    using key st by (simp add: write_snapshot_def Let_def ClearIgnore_SetIgnore snapshot_mem_def)
qed

lemma writeToSwapFile_eq:
  assumes lay: "stub_layout ct (memory w) stub rte obj offs sz" and no: "\<not> GetStubFlag (memory w) obj" and st: "stub \<noteq> 0"
    and size: "fst (raw_SizeOf (class_table e) (memory w) obj) = sz" and key: "\<not> sm_has obj (objectOffsetMap w)"
    and sp: "objectInSwappableSpace w obj = Some True"
    and large: "objectIsLarge sz" and ok: "load (memory w) obj 4 \<noteq> 0" "\<not> GetNoSwapFlag (memory w) obj"
  defines "m1 \<equiv> snapshot_mem (IncrAppLockCounter (memory w) rte) obj"
  shows "writeToSwapFile e stub w =
    (let (result, ioError, w') = write_again stub (read_bytes m1 obj sz) (w\<lparr>memory := m1\<rparr>)
     in Some (result, ioError, w'\<lparr>memory := UnlockTableEntry (memory w') stub\<rparr>))"
proof -
  note L = layoutD [OF lay] and K = layout_lock [OF lay]
  let ?m0 = "IncrAppLockCounter (memory w) rte"
  let ?mi = "SetIgnoreReadFlag ?m0 obj" and ?mc = "ClearIgnoreReadFlag ?m0 obj"
  have at: "?m0 (obj + x) = memory w (obj + x)" if "x < sz" for x
    using that L(14) by (auto simp: IncrAppLockCounter_def apart_def sizeof_TableEntry_def)
  have ld: "load ?m0 (obj + off) n = load (memory w) (obj + off) n" if "off + n \<le> sz" for off n
    using that L(14) by (intro load_cong) (auto simp: IncrAppLockCounter_def apart_def sizeof_TableEntry_def)
  have big: "20 \<le> sz" using large by (simp add: objectIsLarge_def)
  have flags: "\<not> GetStubFlag ?m0 obj" "\<not> GetNoSwapFlag ?m0 obj"
    using no ok(2) at [of 8] big by (simp_all add: GetStubFlag_def GetNoSwapFlag_def)
  have cls: "load ?m0 obj 4 = load (memory w) obj 4" using ld [of 0 4] big by simp
  have size0: "fst (raw_SizeOf (class_table e) ?mc obj) = sz"
    using size raw_SizeOf_cong [of ?mc obj "memory w" "class_table e"] ld [of 16 4] big cls
    by (simp add: ClearIgnoreReadFlag_def load_header_byte)
  have fi: "\<not> GetStubFlag ?mi obj" "load ?mi obj 4 = load (memory w) obj 4"
    using flags cls by (simp_all add: GetStubFlag_def SetIgnoreReadFlag_def load_header_byte)
  have g: "GetClass e obj (w\<lparr>memory := ?mi\<rparr>) = Some (load (memory w) obj 4, w\<lparr>memory := ?mi\<rparr>)"
    using get_object.on_object [of "w\<lparr>memory := ?mi\<rparr>" obj e 0] fi
    by (simp add: GetClass_def raw_GetFieldObject_def Let_def mark_read_ignored ignore_read.get_set)
  have f2: "\<not> GetStubFlag ?mc obj" "\<not> GetNoSwapFlag ?mc obj"
    using flags by (simp_all add: GetStubFlag_def GetNoSwapFlag_def ClearIgnoreReadFlag_def)
  have "write_snapshot e stub obj (w\<lparr>memory := ?mc\<rparr>) = Some (write_again stub (read_bytes m1 obj sz) (w\<lparr>memory := m1\<rparr>))"
    using write_snapshot_eq [of "w\<lparr>memory := ?mc\<rparr>" obj e sz stub] f2(1) size0 key st
    by (simp add: m1_def snapshot_mem_def ClearIgnore_idem)
  then show ?thesis
    using K(1) layoutD(4,5) [OF K(2)] L(1) sp ok g f2 st
    by (simp add: writeToSwapFile_def Let_def ClearIgnore_SetIgnore split: prod.splits)
qed

text \<open>Overwriting an image in place.\<close>

definition images_apart :: "world \<Rightarrow> addr \<Rightarrow> addr \<Rightarrow> bool" where
  "images_apart w j k \<longleftrightarrow>
     (case (map_of (objectOffsetMap w) j, map_of (objectSizeMap w) j, map_of (objectOffsetMap w) k, map_of (objectSizeMap w) k) of
        (Some p, Some a, Some q, Some b) \<Rightarrow> apart (nat q) b (nat p) a
      | _ \<Rightarrow> False)"

lemma write_again_ok:
  assumes disk: "on_disk w stub old" "length old = length new" "new \<noteq> []"
    and dev: "device (filesystem w) (device_ops (filesystem w))"
  shows "\<exists>fs. write_again stub new w = (SWAPFILE_WRITE_OK, False, w\<lparr>filesystem := fs\<rparr>) \<and>
    on_disk (w\<lparr>filesystem := fs\<rparr>) stub new \<and>
    (\<forall>k img. on_disk w k img \<longrightarrow> images_apart w stub k \<longrightarrow> on_disk (w\<lparr>filesystem := fs\<rparr>) k img)"
proof -
  obtain path off where P: "opened (swapfile w) = Some path" "map_of (objectOffsetMap w) stub = Some off"
      "map_of (objectSizeMap w) stub = Some (length new)" "stream_good (swapfile w)" "0 \<le> off"
      "file_bytes (filesystem w) path (nat off) (length new) = old"
    using disk(1,2) by (auto simp: on_disk_def split: option.splits)
  obtain xs where xs: "files (filesystem w) path = Some xs"
    using P(6) disk(2,3) by (cases "files (filesystem w) path") (auto simp: file_bytes_def)
  let ?fs = "(filesystem w)\<lparr>device_ops := Suc (device_ops (filesystem w)), files := (files (filesystem w))(path \<mapsto> splice xs (nat off) new)\<rparr>"
  have "write_again stub new w = (SWAPFILE_WRITE_OK, False, w\<lparr>filesystem := ?fs\<rparr>)"
    using P xs dev
    by (simp add: write_again_def sm_at_Some Let_def fs_tellp_def fs_seekp_def fs_write_def tick_def stream_good_def stream_fail_def
        checkStreamError_def)
  moreover have "on_disk (w\<lparr>filesystem := ?fs\<rparr>) stub new"
    using P by (simp add: on_disk_def file_bytes_def take_drop_splice)
  moreover have "on_disk (w\<lparr>filesystem := ?fs\<rparr>) k img" if k: "on_disk w k img" "images_apart w stub k" for k img
  proof -
    obtain q where q: "map_of (objectOffsetMap w) k = Some q" "map_of (objectSizeMap w) k = Some (length img)" "0 \<le> q"
        "take (length img) (drop (nat q) xs) = img"
      using k(1) P(1) xs by (auto simp: on_disk_def file_bytes_def split: option.splits)
    have "apart (nat q) (length img) (nat off) (length new)" using k(2) q P by (simp add: images_apart_def)
    moreover have "length (take (length img) (drop (nat q) xs)) = length img" by (simp only: q(4))
    then have "nat q + length img \<le> length xs \<or> img = []" by (cases img) auto
    ultimately have "take (length img) (drop (nat q) (splice xs (nat off) new)) = img"
      using take_drop_splice_apart [of "nat q" "length img" "nat off" new xs] q(4) by auto
    then show ?thesis using q P by (simp add: on_disk_def file_bytes_def)
  qed
  ultimately show ?thesis by (intro exI [of _ ?fs]) blast
qed

lemma on_disk_memory_filesystem [simp]: "on_disk (w\<lparr>memory := m, filesystem := fs\<rparr>) = on_disk (w\<lparr>filesystem := fs\<rparr>)"
  by (auto simp: on_disk_def fun_eq_iff split: option.splits)

lemma images_apart_memory [simp]: "images_apart (w\<lparr>memory := m\<rparr>) = images_apart w"
  by (simp add: images_apart_def fun_eq_iff)

text \<open>The memory while the snapshot is taken, and after the entry has been unlocked.\<close>

lemma snapshot_facts:
  assumes lay: "stub_layout ct m stub rte obj offs sz" and no: "\<not> GetStubFlag m obj"
    and fresh: "\<forall>i < Suc (length offs). load m (obj + (0 # offs) ! i) 4 = GetReference m stub i"
  defines "m1 \<equiv> snapshot_mem (IncrAppLockCounter m rte) obj"
  shows "x \<noteq> obj + 10 \<Longrightarrow> x \<noteq> obj + 11 \<Longrightarrow> DecrAppLockCounter m1 rte x = m x" "GetTableEntry m1 stub = rte"
    and "\<not> GetDirtyBit (DecrAppLockCounter m1 rte) obj" "image_ok (read_bytes m1 obj sz)"
    and "in_sync (DecrAppLockCounter m1 rte) stub obj offs (read_bytes m1 obj sz)"
proof -
  let ?m2 = "DecrAppLockCounter m1 rte"
  note L = layoutD [OF lay]
  have big: "16 \<le> sz" using L(8) by (simp add: kObjectHeaderSize_def)
  have rte: "rte + 1 \<noteq> obj + 10" "rte + 1 \<noteq> obj + 11" "rte \<noteq> obj + 10" "rte \<noteq> obj + 11"
    using L(14) big by (auto simp: apart_def sizeof_TableEntry_def)
  have at: "?m2 x = m x" if "x \<noteq> obj + 10" "x \<noteq> obj + 11" for x
    using that rte by (simp add: m1_def snapshot_mem_def ClearDirtyBit_def ClearIgnoreReadFlag_def IncrAppLockCounter_def DecrAppLockCounter_def)
  then show "x \<noteq> obj + 10 \<Longrightarrow> x \<noteq> obj + 11 \<Longrightarrow> ?m2 x = m x" .
  have at1: "m1 x = m x" if "x \<noteq> obj + 10" "x \<noteq> obj + 11" "x \<noteq> rte + 1" for x
    using that by (simp add: m1_def snapshot_mem_def ClearDirtyBit_def ClearIgnoreReadFlag_def IncrAppLockCounter_def)
  have kl: "\<not> GetKernelLockBit m1 rte" "\<not> GetKernelLockBit ?m2 rte"
    using L(6) at [of rte] at1 [of rte] rte kernel_lock.get_local [of m1 rte m] kernel_lock.get_local [of ?m2 rte m]
    by simp_all
  have fr: "object_frame rte obj (object_extent m rte sz) m m1" "object_frame rte obj (object_extent m rte sz) m ?m2"
    using big by (auto intro!: object_frameI [where n = 16] at at1 simp: object_extent_def simp del: One_nat_def)
  show "GetTableEntry m1 stub = rte" by (rule layoutD(2) [OF layout_frame(1) [OF lay fr(1) kl(1)]])
  have "m1 (obj + 10) = 0" by (simp add: m1_def snapshot_mem_def ClearDirtyBit_def)
  then show "\<not> GetDirtyBit ?m2 obj" "image_ok (read_bytes m1 obj sz)"
    using big at1 [of "obj + 8"] no rte L(14)
    by (auto simp: GetDirtyBit_def DecrAppLockCounter_frame image_ok_def kObjectHeaderSize_def GetStubFlag_def header_bit_simps apart_def
        sizeof_TableEntry_def)
  show "in_sync ?m2 stub obj offs (read_bytes m1 obj sz)"
    unfolding in_sync_def
  proof (intro conjI allI impI)
    fix x assume "x < length (read_bytes m1 obj sz)" "x < 9 \<or> 12 \<le> x"
    then show "?m2 (obj + x) = read_bytes m1 obj sz ! x"
      using at [of "obj + x"] at1 [of "obj + x"] L(14) by (auto simp: apart_def sizeof_TableEntry_def)
  next
    fix i assume i: "i < Suc (length offs)"
    then have "(0 # offs) ! i \<in> set (0 # offs)" by (metis length_Cons nth_mem)
    then have "(0 # offs) ! i + 4 \<le> sz" "(0 # offs) ! i + 4 \<le> 9 \<or> 12 \<le> (0 # offs) ! i"
      using L(9) by (auto simp: fields_ok_def kObjectHeaderSize_def)
    then have "load ?m2 (obj + (0 # offs) ! i) 4 = load m (obj + (0 # offs) ! i) 4"
      by (intro load_image [where len = sz] at) auto
    then show "load ?m2 (obj + (0 # offs) ! i) 4 = GetReference ?m2 stub i"
      using fresh i layout_frame(2) [OF lay fr(2) kl(2) i] by simp
  qed
qed

text \<open>C2. Writing a stub's object puts it in step with the swap file. When the object is resident, large, has a class and may be
  swapped, has an image in the file, and the device carries out the write, \<^verbatim>\<open>writeToSwapFile\<close> reports success; the object is
  clean and its image agrees with it byte for byte (the bytes of the access bits apart); memory changes in no
  byte but the two with the access and dirty bits; the entry is unlocked again; and the images of other
  objects that do not overlap it are kept.\<close>

theorem writeToSwapFile_in_sync:
  assumes lay: "stub_layout (class_table e) (memory w) stub rte obj offs sz" and no: "\<not> GetStubFlag (memory w) obj" and st: "stub \<noteq> 0"
    and size: "fst (raw_SizeOf (class_table e) (memory w) obj) = sz" "objectIsLarge sz" and key: "\<not> sm_has obj (objectOffsetMap w)"
    and sp: "objectInSwappableSpace w obj = Some True" and ok: "load (memory w) obj 4 \<noteq> 0" "\<not> GetNoSwapFlag (memory w) obj"
    and disk: "on_disk w stub old" "length old = sz" and dev: "device (filesystem w) (device_ops (filesystem w))"
    and fresh: "\<forall>i < Suc (length offs). load (memory w) (obj + (0 # offs) ! i) 4 = GetReference (memory w) stub i"
  shows "\<exists>w' snap. writeToSwapFile e stub w = Some (SWAPFILE_WRITE_OK, False, w') \<and>
    on_disk w' stub snap \<and> length snap = sz \<and> image_ok snap \<and> in_sync (memory w') stub obj offs snap \<and>
    \<not> GetDirtyBit (memory w') obj \<and> (\<forall>x. x \<noteq> obj + 10 \<and> x \<noteq> obj + 11 \<longrightarrow> memory w' x = memory w x) \<and>
    (\<forall>k img. on_disk w k img \<longrightarrow> images_apart w stub k \<longrightarrow> on_disk w' k img)"
proof -
  let ?m1 = "snapshot_mem (IncrAppLockCounter (memory w) rte) obj"
  let ?snap = "read_bytes ?m1 obj sz" and ?w1 = "w\<lparr>memory := ?m1\<rparr>" and ?m2 = "DecrAppLockCounter ?m1 rte"
  note S = snapshot_facts [OF lay no fresh]
  have "?snap \<noteq> []" using size(2) by (auto simp: objectIsLarge_def simp flip: length_greater_0_conv)
  then obtain fs where fs: "write_again stub ?snap ?w1 = (SWAPFILE_WRITE_OK, False, ?w1\<lparr>filesystem := fs\<rparr>)"
      "on_disk (?w1\<lparr>filesystem := fs\<rparr>) stub ?snap"
      "\<forall>k img. on_disk ?w1 k img \<longrightarrow> images_apart ?w1 stub k \<longrightarrow> on_disk (?w1\<lparr>filesystem := fs\<rparr>) k img"
    using write_again_ok [of ?w1 stub old ?snap] disk dev by auto
  have "writeToSwapFile e stub w = Some (SWAPFILE_WRITE_OK, False, w\<lparr>memory := ?m2, filesystem := fs\<rparr>)"
    using writeToSwapFile_eq [OF lay no st size(1) key sp size(2) ok] fs(1) S(2)
    by (simp add: UnlockTableEntry_def UnlockFromAppThread_def)
  then show ?thesis
    using fs(2,3) S(1,3-5) by (intro exI [of _ "w\<lparr>memory := ?m2, filesystem := fs\<rparr>"] exI [of _ ?snap]) simp
qed

lemma swap_mem_object:
  "fst (raw_SizeOf demo_classes swap_mem 65536) = 4096"
  "\<not> GetStubFlag swap_mem 65536" "\<not> GetNoSwapFlag swap_mem 65536" "load swap_mem 65536 4 \<noteq> 0"
  "GetAppLockCounter swap_mem 2000 = 0" "GetOccupiedBit swap_mem 2000" "GetResidentBit swap_mem 2000"
  "objectIsCold (GetWriteShiftRegister swap_mem 65536) (GetWriteBit swap_mem 65536)"
  "\<forall>i < Suc (length [16, 20]). load swap_mem (65536 + (0 # [16, 20]) ! i) 4 = GetReference swap_mem 1000 i"
proof -
  show "fst (raw_SizeOf demo_classes swap_mem 65536) = 4096"
    by (simp add: raw_SizeOf_def raw_GetClass_def raw_GetFieldObject_def load_mark_read Let_def)
       (simp add: swap_mem_def load_eval demo_classes_def demo_class_def IsArrayClass_def IsStringClass_def kClassFlagNormal_def)
qed (use demo_in_sync in \<open>simp_all add: swap_mem_def GetStubFlag_def GetNoSwapFlag_def header_bit_simps load_eval GetAppLockCounter_def
    entry_bit_defs bit_simps objectIsCold_def GetWriteShiftRegister_def GetBits8_def GetWriteBit_def in_sync_def\<close>)

theorem writeToSwapFile_in_sync_witness:
  "\<exists>w' snap. writeToSwapFile demo_env 1000 demo_world = Some (SWAPFILE_WRITE_OK, False, w') \<and> on_disk w' 1000 snap \<and>
     in_sync (memory w') 1000 65536 [16, 20] snap"
proof -
  have w: "class_table demo_env = demo_classes" "memory demo_world = swap_mem" "objectOffsetMap demo_world = [(1000, 0)]"
      "device (filesystem demo_world) (device_ops (filesystem demo_world))"
    by (simp_all add: demo_env_def demo_world_def)
  have "objectInSwappableSpace demo_world 65536 = Some True"
    using demo_checks(2) by (simp add: objectInSwappableSpace_def)
  then show ?thesis
    using writeToSwapFile_in_sync [of demo_env demo_world 1000 2000 65536 "[16, 20]" 4096 demo_image] demo_layout demo_on_disk w swap_mem_object
    by (auto simp: objectIsLarge_def sm_has_def)
qed

section \<open>Accessors that return nothing\<close>

text \<open>The contract of an accessor with a preamble that does not return: after the call on the object the body
  runs on the stub as well.\<close>

locale void_accessor =
  fixes access :: "env \<Rightarrow> addr \<Rightarrow> world \<Rightarrow> world option"
    and body :: "env \<Rightarrow> addr \<Rightarrow> world \<Rightarrow> world option"
  assumes unfold: "access e obj w =
      do { w \<leftarrow> (if GetStubFlag (memory w) obj
                then do { w \<leftarrow> stub_enter e obj w;
                          w \<leftarrow> access e (Stub_GetObjectAddress (memory w) obj) w;
                          Some (stub_leave obj w) }
                else Some w);
           body e obj w }"
begin

lemma on_object: "\<not> GetStubFlag (memory w) obj \<Longrightarrow> access e obj w = body e obj w"
  by (subst unfold) simp

lemma runs_on_stub:
  assumes "GetStubFlag (memory w) stub" "stub_enter e stub w = Some w1" "Stub_GetObjectAddress (memory w1) stub = obj"
    and "\<not> GetStubFlag (memory w1) obj" "body e obj w1 = Some w2"
  shows "access e stub w = body e stub (stub_leave stub w2)"
  using assms on_object [OF assms(4)] by (subst unfold) simp

end

interpretation set_field: void_accessor "\<lambda>e obj w. SetField e obj n off v w"
    "\<lambda>e obj w. Some (w\<lparr>memory := raw_SetField n (memory w) obj off v\<rparr>)" for n off v
  by unfold_locales (rule SetField.simps)

interpretation set_boolean: void_accessor "\<lambda>e obj w. SetFieldBoolean e obj off v w" "\<lambda>e obj w. SetField e obj 1 off v w" for off v
  by unfold_locales (rule SetFieldBoolean.simps)

interpretation set_byte: void_accessor "\<lambda>e obj w. SetFieldByte e obj off v w" "\<lambda>e obj w. SetField e obj 1 off v w" for off v
  by unfold_locales (rule SetFieldByte.simps)

interpretation set_char: void_accessor "\<lambda>e obj w. SetFieldChar e obj off v w" "\<lambda>e obj w. SetField e obj 2 off v w" for off v
  by unfold_locales (rule SetFieldChar.simps)

interpretation set_short: void_accessor "\<lambda>e obj w. SetFieldShort e obj off v w" "\<lambda>e obj w. SetField e obj 2 off v w" for off v
  by unfold_locales (rule SetFieldShort.simps)

interpretation set_32: void_accessor "\<lambda>e obj w. SetField32 e obj off v w" "\<lambda>e obj w. SetField e obj 4 off v w" for off v
  by unfold_locales (rule SetField32.simps)

interpretation set_64: void_accessor "\<lambda>e obj w. SetField64 e obj off v w" "\<lambda>e obj w. SetField e obj 8 off v w" for off v
  by unfold_locales (rule SetField64.simps)

interpretation set_64_volatile: void_accessor "\<lambda>e obj w. SetField64Volatile e obj off v w" "\<lambda>e obj w. SetField64 e obj off v w" for off v
  by unfold_locales (rule SetField64Volatile.simps)

lemma raw_SetField_frame:
  "x \<noteq> obj + 10 \<Longrightarrow> x \<noteq> obj + 11 \<Longrightarrow> x < obj + off \<or> obj + off + n \<le> x \<Longrightarrow> raw_SetField n m obj off v x = m x"
  by (simp add: raw_SetField_def dirty_bit.set_frame write_bit.set_frame store_byte_out)

lemma load_raw_SetField:
  assumes "off + n \<le> 10 \<or> 12 \<le> off"
  shows "load (raw_SetField n m obj off v) (obj + off) n = v mod 256 ^ n"
proof -
  have "load (raw_SetField n m obj off v) (obj + off) n = load (store m (obj + off) n v) (obj + off) n"
    using assms by (intro load_cong) (auto simp: raw_SetField_def dirty_bit.set_frame write_bit.set_frame)
  then show ?thesis by (simp add: mem_simps)
qed

text \<open>A store into the object through the stub, up to the unlocking of the entry.\<close>

lemma store_in_object:
  fixes v :: nat
  assumes lay: "stub_layout ct m stub rte obj offs sz" and off: "12 \<le> off" "off + n \<le> sz"
  defines "m1 \<equiv> raw_SetField n (IncrAppLockCounter m rte) obj off v"
  shows "stub_layout ct m1 stub rte obj offs sz" "stub_layout ct (DecrAppLockCounter m1 rte) stub rte obj offs sz"
    and "GetResidentBit m rte \<Longrightarrow> GetResidentBit (DecrAppLockCounter m1 rte) rte"
    and "\<not> GetStubFlag m obj \<Longrightarrow> \<not> GetStubFlag (DecrAppLockCounter m1 rte) obj"
    and "x < obj \<or> obj + sz \<le> x \<Longrightarrow> DecrAppLockCounter m1 rte x = m x"
    and "load (DecrAppLockCounter m1 rte) (obj + off) n = v mod 256 ^ n"
proof -
  note L = layoutD [OF lay]
  let ?m2 = "DecrAppLockCounter m1 rte"
  have big: "16 \<le> sz" using L(8) by (simp add: kObjectHeaderSize_def)
  have rte: "rte + 1 < obj \<or> obj + sz \<le> rte + 1" "rte < obj \<or> obj + sz \<le> rte"
    using L(14) by (auto simp: apart_def sizeof_TableEntry_def)
  have out1: "m1 x = m x" if "x < obj \<or> obj + sz \<le> x" "x \<noteq> rte + 1" for x
    using that big off by (auto simp: m1_def IncrAppLockCounter_def intro!: raw_SetField_frame [THEN trans])
  have "m1 (rte + 1) = m (rte + 1) + 1"
    using rte(1) big off by (auto simp: m1_def IncrAppLockCounter_def intro!: raw_SetField_frame [THEN trans])
  then have out: "?m2 x = m x" if "x < obj \<or> obj + sz \<le> x" for x
    using that out1 by (cases "x = rte + 1") (auto simp: DecrAppLockCounter_def)
  then show "x < obj \<or> obj + sz \<le> x \<Longrightarrow> ?m2 x = m x" .
  have fr: "object_frame rte obj (object_extent m rte sz) m m1" "object_frame rte obj (object_extent m rte sz) m ?m2"
    using out out1 by (auto intro!: object_frameI [where n = sz] simp: object_extent_def simp del: One_nat_def)
  have kl: "\<not> GetKernelLockBit m1 rte" "\<not> GetKernelLockBit ?m2 rte"
    using L(6) out [OF rte(2)] out1 [OF rte(2)] kernel_lock.get_local [of m1 rte m] kernel_lock.get_local [of ?m2 rte m] by simp_all
  show "stub_layout ct m1 stub rte obj offs sz" by (rule layout_frame(1) [OF lay fr(1) kl(1)])
  show "stub_layout ct ?m2 stub rte obj offs sz" by (rule layout_frame(1) [OF lay fr(2) kl(2)])
  show "GetResidentBit m rte \<Longrightarrow> GetResidentBit ?m2 rte"
    using out [OF rte(2)] resident.get_local [of ?m2 rte m] by simp
  have "?m2 (obj + 8) = m (obj + 8)"
    using big off rte by (auto simp: m1_def DecrAppLockCounter_def IncrAppLockCounter_def intro!: raw_SetField_frame [THEN trans])
  then show "\<not> GetStubFlag m obj \<Longrightarrow> \<not> GetStubFlag ?m2 obj" by (simp add: GetStubFlag_def)
  have "load ?m2 (obj + off) n = load m1 (obj + off) n"
    using off rte(1) by (intro load_cong) (auto simp: DecrAppLockCounter_def)
  then show "load ?m2 (obj + off) n = v mod 256 ^ n" using off by (simp add: m1_def load_raw_SetField)
qed

lemma SetField_through_stub:
  fixes v :: nat
  assumes lay: "stub_layout ct (memory w) stub rte obj offs sz" and res: "GetResidentBit (memory w) rte"
    and no: "\<not> GetStubFlag (memory w) obj" and off: "12 \<le> off" "off + n \<le> sz"
  defines "m1 \<equiv> DecrAppLockCounter (raw_SetField n (IncrAppLockCounter (memory w) rte) obj off v) rte"
  shows "SetField e stub n off v w = Some (w\<lparr>memory := raw_SetField n m1 stub off v\<rparr>)"
proof -
  let ?m0 = "IncrAppLockCounter (memory w) rte"
  let ?w1 = "w\<lparr>memory := ?m0\<rparr>" and ?w2 = "w\<lparr>memory := raw_SetField n ?m0 obj off v\<rparr>"
  have "?m0 (obj + 8) = memory w (obj + 8)"
    using layoutD(8,14) [OF lay] by (auto simp: IncrAppLockCounter_def apart_def sizeof_TableEntry_def kObjectHeaderSize_def)
  then have "\<not> GetStubFlag (memory ?w1) obj" using no by (simp add: GetStubFlag_def)
  then have "SetField e stub n off v w = Some ((stub_leave stub ?w2)\<lparr>memory := raw_SetField n (memory (stub_leave stub ?w2)) stub off v\<rparr>)"
    using set_field.runs_on_stub [of w stub e ?w1 obj n off v ?w2] stub_enter_resident [OF lay res, of e] layoutD(1) [OF lay]
      layoutD(4) [OF layout_lock(2) [OF lay]] by simp
  moreover have "memory (stub_leave stub ?w2) = m1"
    using layoutD(2) [OF store_in_object(1) [OF lay off, where v = v]]
    by (simp add: stub_leave_def UnlockTableEntry_def UnlockFromAppThread_def m1_def)
  ultimately show ?thesis by (simp add: stub_leave_def)
qed

lemma SetField32_through_stub:
  assumes lay: "stub_layout ct (memory w) stub rte obj offs sz" and res: "GetResidentBit (memory w) rte"
    and no: "\<not> GetStubFlag (memory w) obj" and off: "12 \<le> off" "off + 4 \<le> sz"
  shows "\<exists>m1. SetField32 e stub off v w = Some (w\<lparr>memory := raw_SetField 4 m1 stub off v\<rparr>) \<and>
    stub_layout ct m1 stub rte obj offs sz \<and> load m1 (obj + off) 4 = v mod 256 ^ 4 \<and>
    (\<forall>x. x < obj \<or> obj + sz \<le> x \<longrightarrow> m1 x = memory w x)"
proof -
  let ?ml = "IncrAppLockCounter (memory w) rte"
  let ?m = "raw_SetField 4 ?ml obj off v"
  let ?w1 = "w\<lparr>memory := ?ml\<rparr>" and ?w2 = "w\<lparr>memory := ?m\<rparr>" and ?w3 = "w\<lparr>memory := DecrAppLockCounter ?m rte\<rparr>"
  note S = store_in_object [OF lay off, where v = v]
  have "?ml (obj + 8) = memory w (obj + 8)"
    using layoutD(8,14) [OF lay] by (auto simp: IncrAppLockCounter_def apart_def sizeof_TableEntry_def kObjectHeaderSize_def)
  then have ns: "\<not> GetStubFlag (memory ?w1) obj" using no by (simp add: GetStubFlag_def)
  have "stub_leave stub ?w2 = ?w3"
    using layoutD(2) [OF S(1)] by (simp add: stub_leave_def UnlockTableEntry_def UnlockFromAppThread_def)
  then have eq: "SetField32 e stub off v w = SetField e stub 4 off v ?w3"
    using set_32.runs_on_stub [of w stub e ?w1 obj off v ?w2] stub_enter_resident [OF lay res, of e] layoutD(1) [OF lay]
      layoutD(4) [OF layout_lock(2) [OF lay]] ns set_field.on_object [OF ns, of e 4 off v] by simp
  have lay3: "stub_layout ct (memory ?w3) stub rte obj offs sz" "GetResidentBit (memory ?w3) rte" "\<not> GetStubFlag (memory ?w3) obj"
    using S(2-4) res no by simp_all
  note S3 = store_in_object [OF lay3(1) off, where v = v]
  show ?thesis
    unfolding eq SetField_through_stub [OF lay3 off, of e v]
    using S3(2,6) S3(5) S(5) by (intro exI [of _ "DecrAppLockCounter (raw_SetField 4 (IncrAppLockCounter (memory ?w3) rte) obj off v) rte"]) simp
qed

lemma bit_le_unat: "bit x n \<Longrightarrow> 2 ^ n \<le> unat x" for x :: "'a :: len word"
proof (rule ccontr)
  assume b: "bit x n" and "\<not> 2 ^ n \<le> unat x"
  then have "take_bit n (unat x) = unat x" by (simp add: take_bit_nat_eq_self)
  then have "\<not> bit (unat x) n" by (metis bit_take_bit_iff less_irrefl)
  then show False using b by (simp add: bit_unsigned_iff bit_imp_le_length)
qed

text \<open>C12. The preamble of a void accessor does not return, so a store through a stub also overwrites the stub. Setting the 32-bit
  field at offset 16 + 4 * i of a resident object through its stub writes the field, as it should; but the same store then hits
  the stub, where reference i becomes the value that was stored, and the access bits land on the stub's count of references,
  whose low byte becomes 1 and whose high byte gets bit 2: at least 1025 references.\<close>

theorem SetField32_overwrites_stub:
  assumes lay: "stub_layout ct (memory w) stub rte obj offs sz" and res: "GetResidentBit (memory w) rte"
    and no: "\<not> GetStubFlag (memory w) obj" and i: "i < Suc (length offs)" "20 + 4 * i \<le> sz"
  shows "\<exists>w'. SetField32 e stub (16 + 4 * i) v w = Some w' \<and> load (memory w') (obj + (16 + 4 * i)) 4 = v mod 2 ^ 32 \<and>
    GetReference (memory w') stub i = v mod 2 ^ 32 \<and>
    GetNumRefs (memory w') stub = 1 + 256 * unat (SetBits8 (memory w (stub + 11)) 2 1) \<and> 1025 \<le> GetNumRefs (memory w') stub"
proof -
  let ?off = "16 + 4 * i"
  note L = layoutD [OF lay]
  obtain m1 where m1: "SetField32 e stub ?off v w = Some (w\<lparr>memory := raw_SetField 4 m1 stub ?off v\<rparr>)"
      "load m1 (obj + ?off) 4 = v mod 256 ^ 4" "\<forall>x. x < obj \<or> obj + sz \<le> x \<longrightarrow> m1 x = memory w x"
    using SetField32_through_stub [OF lay res no, of ?off e v] i by auto
  let ?m = "raw_SetField 4 m1 stub ?off v"
  have st: "x < obj \<or> obj + sz \<le> x" if "stub \<le> x" "x < stub + 20 + 4 * i" for x
    using that L(13) i by (auto simp: apart_def GetStubSize_def sizeof_Stub_def)
  have "load ?m (obj + ?off) 4 = load m1 (obj + ?off) 4"
    using L(13) i by (intro load_cong raw_SetField_frame) (auto simp: apart_def GetStubSize_def sizeof_Stub_def)
  moreover have "GetReference ?m stub i = v mod 256 ^ 4"
    using load_raw_SetField [of ?off 4 m1 stub v] by (simp add: GetReference_def GetReferenceAddress_def sizeof_Stub_def mult.commute add.assoc)
  moreover have "m1 (stub + 11) = memory w (stub + 11)" using m1(3) st [of "stub + 11"] by auto
  then have bytes: "?m (stub + 10) = 1" "?m (stub + 11) = SetBits8 (memory w (stub + 11)) 2 1"
    by (simp_all add: raw_SetField_def SetDirtyBit_def SetWriteBit_def store_byte_out)
  then have "GetNumRefs ?m stub = 1 + 256 * unat (SetBits8 (memory w (stub + 11)) 2 1)"
    using load_eval(2) [of ?m "stub + 10"] by (simp add: GetNumRefs_def add.commute [of 11])
  moreover have "4 \<le> unat (SetBits8 (memory w (stub + 11)) 2 1)" using bit_le_unat [of "SetBits8 (memory w (stub + 11)) 2 1" 2] by (simp add: bit_SetBits8)
  ultimately show ?thesis using m1(1,2) by (intro exI [of _ "w\<lparr>memory := ?m\<rparr>"]) simp
qed

theorem SetField32_overwrites_stub_witness:
  "\<exists>w'. SetField32 demo_env 1000 16 77 demo_world = Some w' \<and> load (memory w') 65552 4 = 77 \<and> GetReference (memory w') 1000 0 = 77"
proof -
  have "memory demo_world = swap_mem" by (simp add: demo_world_def)
  then show ?thesis
    using swap_mem_object SetField32_overwrites_stub [of demo_classes demo_world 1000 2000 65536 "[16, 20]" 4096 0 demo_env 77] demo_layout by auto
qed

lemma snapshot_checks:
  assumes lay: "stub_layout ct m stub rte obj offs sz" and no: "\<not> GetStubFlag m obj"
    and fresh: "\<forall>i < Suc (length offs). load m (obj + (0 # offs) ! i) 4 = GetReference m stub i"
    and cold: "objectIsCold (GetWriteShiftRegister m obj) (GetWriteBit m obj)" "GetAppLockCounter m rte = 0"
      "GetOccupiedBit m rte" "GetResidentBit m rte"
  defines "m2 \<equiv> DecrAppLockCounter (snapshot_mem (IncrAppLockCounter m rte) obj) rte"
  shows "stub_layout ct m2 stub rte obj offs sz" "doKernelReclamationChecks m2 rte = Some True"
    and "GetNumPages m2 rte = GetNumPages m rte"
proof -
  note L = layoutD [OF lay] and S = snapshot_facts [OF lay no fresh, folded m2_def]
  have big: "16 \<le> sz" using L(8) by (simp add: kObjectHeaderSize_def)
  have en: "m2 (rte + k) = m (rte + k)" if "k < 12" for k
    using that L(14) big by (intro S(1)) (auto simp: apart_def sizeof_TableEntry_def)
  have "object_frame rte obj (object_extent m rte sz) m m2"
    using big S(1) by (intro object_frameI [where n = 16]) (auto simp: object_extent_def)
  moreover have rte: "m2 rte = m rte" "m2 (rte + 1) = m (rte + 1)" using en [of 0] en [of 1] by simp_all
  then have "\<not> GetKernelLockBit m2 rte" using L(6) kernel_lock.get_local [of m2 rte m] by simp
  ultimately show lay2: "stub_layout ct m2 stub rte obj offs sz" by (rule layout_frame(1) [OF lay])
  show "GetNumPages m2 rte = GetNumPages m rte"
    unfolding GetNumPages_def
  proof (rule load_cong)
    fix x assume "rte + 2 \<le> x" "x < rte + 2 + 2"
    then show "m2 x = m x" using en [of "x - rte"] by simp
  qed
  have "m2 (obj + 11) = ClearBits8 (m (obj + 11)) 0 1" "m2 (obj + 9) = m (obj + 9)"
    using L(14) big S(1) [of "obj + 9"]
    by (auto simp: m2_def snapshot_mem_def ClearDirtyBit_def ClearIgnoreReadFlag_def IncrAppLockCounter_def DecrAppLockCounter_def
        apart_def sizeof_TableEntry_def)
  then have "GetWriteBit m2 obj = GetWriteBit m obj" "GetWriteShiftRegister m2 obj = GetWriteShiftRegister m obj"
    by (simp_all add: GetWriteBit_def GetWriteShiftRegister_def header_bit_simps)
  moreover have "GetOccupiedBit m2 rte" "GetResidentBit m2 rte" "GetAppLockCounter m2 rte = 0"
    using cold(2-4) rte occupied.get_local [of m2 rte m] resident.get_local [of m2 rte m] by (simp_all add: GetAppLockCounter_def)
  ultimately show "doKernelReclamationChecks m2 rte = Some True"
    using S(3) cold(1) layoutD(3,5) [OF lay2] by (simp add: doKernelReclamationChecks_def)
qed

lemma write_again_absent:
  assumes "map_of (objectOffsetMap w) stub = None" "map_of (objectSizeMap w) stub = None" "new \<noteq> []"
  shows "write_again stub new w = (SWAPFILE_WRITE_RESIZED, False,
    w\<lparr>objectOffsetMap := sm_put stub 0 (objectOffsetMap w), objectSizeMap := sm_put stub 0 (objectSizeMap w)\<rparr>)"
  using assms by (simp add: write_again_def sm_at_None Let_def)

text \<open>C13. An object that gets its stub before it was ever written is lost. \<^verbatim>\<open>CreateStubs\<close> takes every candidate, written or not, and
  empties the write queue. When the write task comes to such a stub, \<^verbatim>\<open>writeToSwapFile\<close> looks its image up in the two maps, which
  creates entries with offset and size 0, and reports a resized object: nothing is written, although the dirty bit is already
  cleared. A cold and unlocked object then passes the reclaimer's checks, and every byte of it becomes zero while the file
  holds no image of it.\<close>

theorem unwritten_object_is_lost:
  assumes lay: "stub_layout (class_table e) (memory w) stub rte obj offs sz" and no: "\<not> GetStubFlag (memory w) obj" and st: "stub \<noteq> 0"
    and size: "fst (raw_SizeOf (class_table e) (memory w) obj) = sz" "objectIsLarge sz" and key: "\<not> sm_has obj (objectOffsetMap w)"
    and sp: "swappedIn_Contains w obj = Some True" and ok: "load (memory w) obj 4 \<noteq> 0" "\<not> GetNoSwapFlag (memory w) obj"
    and new: "map_of (objectOffsetMap w) stub = None" "map_of (objectSizeMap w) stub = None" "sm_wf (objectSizeMap w)"
    and fresh: "\<forall>i < Suc (length offs). load (memory w) (obj + (0 # offs) ! i) 4 = GetReference (memory w) stub i"
    and cold: "objectIsCold (GetWriteShiftRegister (memory w) obj) (GetWriteBit (memory w) obj)" "GetAppLockCounter (memory w) rte = 0"
      "GetOccupiedBit (memory w) rte" "GetResidentBit (memory w) rte" "sz \<le> GetNumPages (memory w) rte * kPageSize"
  shows "\<exists>w1 w2. writeToSwapFile e stub w = Some (SWAPFILE_WRITE_RESIZED, False, w1) \<and> filesystem w1 = filesystem w \<and>
    map_of (objectSizeMap w1) stub = Some 0 \<and> \<not> GetDirtyBit (memory w1) obj \<and>
    reclaim_entry rte w1 = Some w2 \<and> (\<forall>x. obj \<le> x \<and> x < obj + sz \<longrightarrow> memory w2 x = 0)"
proof -
  let ?m1 = "snapshot_mem (IncrAppLockCounter (memory w) rte) obj"
  let ?snap = "read_bytes ?m1 obj sz"
  let ?m2 = "DecrAppLockCounter ?m1 rte"
  let ?w1 = "w\<lparr>memory := ?m2, objectOffsetMap := sm_put stub 0 (objectOffsetMap w), objectSizeMap := sm_put stub 0 (objectSizeMap w)\<rparr>"
  note S = snapshot_facts [OF lay no fresh] and L = layoutD [OF lay]
  have sp': "objectInSwappableSpace w obj = Some True" using sp by (simp add: objectInSwappableSpace_def)
  have "?snap \<noteq> []" using size(2) by (auto simp: objectIsLarge_def simp flip: length_greater_0_conv)
  then have w: "writeToSwapFile e stub w = Some (SWAPFILE_WRITE_RESIZED, False, ?w1)"
    using writeToSwapFile_eq [OF lay no st size(1) key sp' size(2) ok] S(2) write_again_absent [of "w\<lparr>memory := ?m1\<rparr>" stub ?snap] new
    by (simp add: UnlockTableEntry_def UnlockFromAppThread_def)
  have lay2: "stub_layout (class_table e) (memory ?w1) stub rte obj offs sz"
    and chk: "doKernelReclamationChecks ?m2 rte = Some True" and np: "GetNumPages ?m2 rte = GetNumPages (memory w) rte"
    using snapshot_checks [OF lay no fresh cold(1-4)] by simp_all
  have "reclaim_entry rte ?w1 = Some (?w1\<lparr>memory := reclaimed ?m2 rte obj\<rparr>)"
    using reclaim_entry_eq [OF lay2] sp chk by (simp add: swappedIn_Contains_def)
  then show ?thesis
    using w S(3) new(3) reclaimed_facts(4) [OF lay2] np cold(5) by (intro exI [of _ ?w1] exI conjI) (auto simp: smap_simps)
qed

definition unwritten_world :: world where
  "unwritten_world = demo_world\<lparr>objectOffsetMap := [], objectSizeMap := []\<rparr>"

theorem unwritten_object_is_lost_witness:
  "\<exists>w1 w2. writeToSwapFile demo_env 1000 unwritten_world = Some (SWAPFILE_WRITE_RESIZED, False, w1) \<and>
     reclaim_entry 2000 w1 = Some w2 \<and> memory w2 65536 = 0"
proof -
  have w: "class_table demo_env = demo_classes" "memory unwritten_world = swap_mem" "objectOffsetMap unwritten_world = []"
      "objectSizeMap unwritten_world = []"
    by (simp_all add: demo_env_def unwritten_world_def demo_world_def)
  have "swappedIn_Contains unwritten_world 65536 = Some True"
    using demo_checks(2) by (simp add: swappedIn_Contains_def unwritten_world_def)
  then show ?thesis
    using unwritten_object_is_lost [of demo_env unwritten_world 1000 2000 65536 "[16, 20]" 4096] demo_layout w swap_mem_fields(5) swap_mem_object
    by (fastforce simp: objectIsLarge_def sm_has_def kPageSize_def)
qed

end
