(* ===== verification/Swap_Compaction.thy ===== *)
theory Swap_Compaction
  imports Swap_Transparency
begin

text \<open>
  What compaction of the swap file keeps: \<^verbatim>\<open>CompactSwapFile\<close> copies the images of all keys, one behind the other, into a
  new file and puts it in the place of the old one.
\<close>

section \<open>Compaction\<close>

text \<open>The state of the copying loop: \<open>xs\<close> is the old file, \<open>acc\<close> what the new one holds so far.\<close>

definition copying :: "string \<Rightarrow> string \<Rightarrow> byte list \<Rightarrow> nat smap \<Rightarrow> byte list \<Rightarrow> compaction \<Rightarrow> bool" where
  "copying old new xs sizes acc c \<longleftrightarrow>
     \<not> c_ioError c \<and> (\<forall>n. device (c_fs c) n) \<and> files (c_fs c) old = Some xs \<and> files (c_fs c) new = Some acc \<and>
     stream_good (c_old c) \<and> opened (c_old c) = Some old \<and>
     stream_good (c_new c) \<and> opened (c_new c) = Some new \<and> position (c_new c) = length acc \<and> c_sizes c = sizes \<and> sm_wf (c_offsets c) \<and>
     to_int (c_objects c) = c_objects c \<and> to_int (c_bytes c) = c_bytes c"

lemma splice_append: "splice acc (length acc) bs = acc @ bs"
  by (simp add: splice_def)

lemma compact_object_ok:
  assumes c: "copying old new xs sizes acc c" and ne: "old \<noteq> new"
    and ent: "0 \<le> off" "map_of sizes k = Some n" "n \<le> length xs - nat off"
  shows "\<exists>c'. compact_object e (k, off) c = c' \<and> copying old new xs sizes (acc @ take n (drop (nat off) xs)) c' \<and>
    c_offsets c' = sm_put k (int (length acc)) (c_offsets c) \<and>
    files (c_fs c') = (files (c_fs c))(new \<mapsto> acc @ take n (drop (nat off) xs)) \<and>
    c_objects c' = to_int (c_objects c + 1) \<and> c_bytes c' = to_int (c_bytes c + int n)"
  using c ne ent unfolding copying_def
  by (elim conjE) (simp add: compact_object_def sm_at_Some Let_def fs_seekg_def fs_read_def fs_write_def fs_tellp_def tick_def
      stream_good_def stream_fail_def checkStreamError_def file_bytes_def splice_append min_absorb2)

lemma compact_object_short:
  assumes "copying old new xs sizes acc c" and "0 \<le> off" "map_of sizes k = Some n" "length xs - nat off < n"
  shows "c_ioError (compact_object e (k, off) c)"
proof -
  have c: "c_sizes c = sizes" "files (c_fs c) old = Some xs" "stream_good (c_old c)" "opened (c_old c) = Some old"
    using assms(1) by (simp_all add: copying_def)
  obtain bytes s where read: "fs_read n (c_fs c) (fs_seekg off (c_old c)) = (bytes, s)" by fastforce
  have "failbit s"
    using read c(2-4) assms(2,4) by (auto simp: fs_read_def fs_seekg_def stream_good_def stream_fail_def file_bytes_def Let_def split: if_splits)
  then show ?thesis
    using c(1) assms(3) read by (simp add: compact_object_def sm_at_Some checkStreamError_def stream_fail_def split: prod.split)
qed

lemma compact_from_stop: "c_ioError c \<Longrightarrow> compact_from e ents c = c"
  by (cases ents) simp_all

text \<open>An entry is within the old file when all bytes of its image are.\<close>

definition entry_within :: "nat smap \<Rightarrow> nat \<Rightarrow> addr \<times> int \<Rightarrow> bool" where
  "entry_within sizes len = (\<lambda>(k, off). \<exists>n. map_of sizes k = Some n \<and> n \<le> len - nat off)"

lemma compact_from_short:
  assumes "copying old new xs sizes acc c" "old \<noteq> new"
    and "\<forall>(k, off) \<in> set ents. 0 \<le> off \<and> map_of sizes k \<noteq> None" "\<exists>ent \<in> set ents. \<not> entry_within sizes (length xs) ent"
  shows "c_ioError (compact_from e ents c)"
  using assms
proof (induction ents arbitrary: c acc)
  case (Cons ent ents)
  obtain k off where ent: "ent = (k, off)" by force
  obtain n where n: "0 \<le> off" "map_of sizes k = Some n" using Cons.prems(3) by (auto simp: ent)
  have go: "\<not> c_ioError c" using Cons.prems(1) by (simp add: copying_def)
  show ?case
  proof (cases "n \<le> length xs - nat off")
    case True
    then have "entry_within sizes (length xs) ent" using n by (simp add: entry_within_def ent)
    moreover have "copying old new xs sizes (acc @ take n (drop (nat off) xs)) (compact_object e ent c)"
      using compact_object_ok [OF Cons.prems(1,2) n True, of e] by (auto simp: ent)
    ultimately show ?thesis using Cons.IH Cons.prems(2-4) go by auto
  next
    case False
    then have "c_ioError (compact_object e ent c)"
      using compact_object_short [OF Cons.prems(1) n, of e] by (simp add: ent)
    then show ?thesis using go by (simp add: compact_from_stop)
  qed
qed simp

lemma compact_from_ok:
  assumes "copying old new xs sizes acc c" "old \<noteq> new" "distinct (map fst ents)"
    and "\<forall>(k, off) \<in> set ents. 0 \<le> off \<and> (\<exists>n. map_of sizes k = Some n \<and> n \<le> length xs - nat off)"
  shows "\<exists>more. copying old new xs sizes (acc @ more) (compact_from e ents c) \<and>
    files (c_fs (compact_from e ents c)) = (files (c_fs c))(new \<mapsto> acc @ more) \<and>
    (\<forall>(k, off) \<in> set ents. \<exists>p. map_of (c_offsets (compact_from e ents c)) k = Some (int p) \<and>
       take (the (map_of sizes k)) (drop p (acc @ more)) = take (the (map_of sizes k)) (drop (nat off) xs)) \<and>
    (\<forall>k. k \<notin> fst ` set ents \<longrightarrow> map_of (c_offsets (compact_from e ents c)) k = map_of (c_offsets c) k) \<and>
    c_objects (compact_from e ents c) = to_int (c_objects c + int (length ents)) \<and>
    c_bytes (compact_from e ents c) = to_int (c_bytes c + int (length more))"
  using assms
proof (induction ents arbitrary: c acc)
  case Nil
  then show ?case by (intro exI [of _ "[]"]) (auto simp: copying_def)
next
  case (Cons ent ents)
  obtain k off where ent: "ent = (k, off)" by force
  obtain n where n: "0 \<le> off" "map_of sizes k = Some n" "n \<le> length xs - nat off" using Cons.prems(4) by (auto simp: ent)
  let ?img = "take n (drop (nat off) xs)"
  obtain c' where c': "compact_object e (k, off) c = c'" "copying old new xs sizes (acc @ ?img) c'"
      "c_offsets c' = sm_put k (int (length acc)) (c_offsets c)"
      "files (c_fs c') = (files (c_fs c))(new \<mapsto> acc @ ?img)" "c_objects c' = to_int (c_objects c + 1)" "c_bytes c' = to_int (c_bytes c + int n)"
    using compact_object_ok [OF Cons.prems(1,2) n, of e] by blast
  have cf: "compact_from e (ent # ents) c = compact_from e ents c'" using Cons.prems(1) c'(1) by (simp add: ent copying_def)
  have wf: "sm_wf (c_offsets c)" using Cons.prems(1) by (simp add: copying_def)
  have len: "length ?img = n" using n(3) by simp
  have d: "distinct (map fst ents)" "k \<notin> fst ` set ents" using Cons.prems(3) by (auto simp: ent)
  have "\<forall>(k, off) \<in> set ents. 0 \<le> off \<and> (\<exists>n. map_of sizes k = Some n \<and> n \<le> length xs - nat off)" using Cons.prems(4) by simp
  from Cons.IH [OF c'(2) Cons.prems(2) d(1) this] obtain more where more:
      "copying old new xs sizes ((acc @ ?img) @ more) (compact_from e ents c')"
      "files (c_fs (compact_from e ents c')) = (files (c_fs c'))(new \<mapsto> (acc @ ?img) @ more)"
      "\<forall>(k, off) \<in> set ents. \<exists>p. map_of (c_offsets (compact_from e ents c')) k = Some (int p) \<and>
         take (the (map_of sizes k)) (drop p ((acc @ ?img) @ more)) = take (the (map_of sizes k)) (drop (nat off) xs)"
      "\<forall>k. k \<notin> fst ` set ents \<longrightarrow> map_of (c_offsets (compact_from e ents c')) k = map_of (c_offsets c') k"
      "c_objects (compact_from e ents c') = to_int (c_objects c' + int (length ents))"
      "c_bytes (compact_from e ents c') = to_int (c_bytes c' + int (length more))"
    by (elim exE conjE)
  have here: "map_of (c_offsets (compact_from e ents c')) k = Some (int (length acc))"
    using more(4) d(2) c'(3) wf by (simp add: smap_simps)
  show ?case
    unfolding cf
  proof (intro exI [of _ "?img @ more"] conjI)
    show "\<forall>(k, off) \<in> set (ent # ents). \<exists>p. map_of (c_offsets (compact_from e ents c')) k = Some (int p) \<and>
       take (the (map_of sizes k)) (drop p (acc @ ?img @ more)) = take (the (map_of sizes k)) (drop (nat off) xs)"
      using more(3) here n(2) len by (auto simp: ent)
    show "\<forall>k'. k' \<notin> fst ` set (ent # ents) \<longrightarrow> map_of (c_offsets (compact_from e ents c')) k' = map_of (c_offsets c) k'"
      using more(4) c'(3) wf by (auto simp: ent smap_simps)
  qed (use more(1,2,5,6) c'(4-6) len in \<open>simp_all add: add.assoc\<close>)
qed

lemma copyFile_ok:
  assumes "\<forall>n. device fs n" "files fs from = Some xs" "from \<noteq> to"
  shows "\<exists>fs'. copyFile e from to fs = (False, fs') \<and>
    files fs' = (files fs)(to \<mapsto> take (sendfile_bytes e (length xs)) xs) \<and> device fs' = device fs"
  using assms by (auto simp: copyFile_def fs_remove_def tick_def Let_def fun_eq_iff)

lemma swapfile_paths_distinct:
  "swapfilePath e \<noteq> oldSwapfilePath e" "swapfilePath e \<noteq> newSwapfilePath e" "oldSwapfilePath e \<noteq> newSwapfilePath e"
  by (simp_all add: swapfilePath_def oldSwapfilePath_def newSwapfilePath_def)

lemma on_disk_entry:
  assumes "on_disk w k img" "opened (swapfile w) = Some path" "files (filesystem w) path = Some xs"
  obtains off where "map_of (objectOffsetMap w) k = Some off" "0 \<le> off" "map_of (objectSizeMap w) k = Some (length img)"
    "take (length img) (drop (nat off) xs) = img" "length img \<le> length xs - nat off"
proof -
  obtain off where off: "map_of (objectOffsetMap w) k = Some off" "0 \<le> off" "map_of (objectSizeMap w) k = Some (length img)"
      "take (length img) (drop (nat off) xs) = img"
    using assms by (auto simp: on_disk_def file_bytes_def split: option.splits)
  moreover have "length (take (length img) (drop (nat off) xs)) = length img" by (simp only: off(4))
  then have "length img \<le> length xs - nat off" by simp
  ultimately show thesis by (rule that)
qed

lemma CompactSwapFile_start:
  assumes en: "swapEnabled w" and dev: "\<forall>n. device (filesystem w) n"
    and op: "opened (swapfile w) = Some (swapfilePath e)" "files (filesystem w) (swapfilePath e) = Some xs"
  defines "ys \<equiv> take (sendfile_bytes e (length xs)) xs"
  shows "\<exists>c s. copying (oldSwapfilePath e) (newSwapfilePath e) ys (objectSizeMap w) [] c \<and> files (c_fs c) (swapfilePath e) = Some xs \<and>
    c_offsets c = [] \<and> c_objects c = 0 \<and> c_bytes c = 0 \<and> opened s = Some (swapfilePath e) \<and>
    CompactSwapFile_copy e w =
      (let c = compact_from e (objectOffsetMap w) c
       in Some (c, w\<lparr>freedObjects := 0, freedSize := 0, swapfileObjects := c_objects c, swapfileSize := c_bytes c,
              filesystem := c_fs c, swapfile := s, objectSizeMap := c_sizes c\<rparr>))"
proof -
  let ?sp = "swapfilePath e" and ?op = "oldSwapfilePath e" and ?np = "newSwapfilePath e"
  note P = swapfile_paths_distinct [of e]
  obtain fs1 where fs1: "copyFile e ?sp ?op (filesystem w) = (False, fs1)" "files fs1 = (files (filesystem w))(?op \<mapsto> ys)"
      "device fs1 = device (filesystem w)"
    using copyFile_ok [OF dev op(2) P(1), of e] unfolding ys_def by blast
  let ?fs2 = "fs1\<lparr>device_ops := Suc (device_ops fs1)\<rparr>"
  let ?fs3 = "?fs2\<lparr>device_ops := Suc (device_ops ?fs2)\<rparr>"
  let ?fs4 = "?fs3\<lparr>device_ops := Suc (device_ops ?fs3), files := (files ?fs3)(?np \<mapsto> [])\<rparr>"
  let ?s = "closed_stream\<lparr>opened := Some ?sp, position := length xs\<rparr>"
  let ?c = "\<lparr>c_ioError = False, c_fs = ?fs4, c_old = closed_stream\<lparr>opened := Some ?op\<rparr>, c_new = closed_stream\<lparr>opened := Some ?np\<rparr>,
       c_offsets = [], c_sizes = objectSizeMap w, c_objects = 0, c_bytes = 0\<rparr>"
  have o1: "openFileAppend ?sp fs1 (fs_close (swapfile w)) = (?fs2, ?s)"
    using dev fs1 op P by (simp add: openFileAppend_def fs_open_def fs_close_def tick_def)
  have o2: "fs_open InOnly ?op ?fs2 closed_stream = (?fs3, closed_stream\<lparr>opened := Some ?op\<rparr>)"
    using dev fs1 P by (simp add: fs_open_def tick_def closed_stream_def)
  have o3: "openFile ?np ?fs3 closed_stream = (?fs4, closed_stream\<lparr>opened := Some ?np\<rparr>)"
    using dev fs1 P by (simp add: openFile_def fs_open_def tick_def closed_stream_def stream_fail_def)
  have io: "(checkStreamError (closed_stream\<lparr>opened := Some ?op\<rparr>) \<or> checkStreamError (closed_stream\<lparr>opened := Some ?np\<rparr>)) = False"
    by (simp add: checkStreamError_def stream_fail_def closed_stream_def)
  have inv: "copying ?op ?np ys (objectSizeMap w) [] ?c" "files (c_fs ?c) ?sp = Some xs"
    using dev fs1 P op by (simp_all add: copying_def closed_stream_def stream_good_def to_int_def)
  have "CompactSwapFile_copy e w =
      (let c = compact_from e (objectOffsetMap w) ?c
       in Some (c, w\<lparr>freedObjects := 0, freedSize := 0, swapfileObjects := c_objects c, swapfileSize := c_bytes c,
              filesystem := c_fs c, swapfile := ?s, objectSizeMap := c_sizes c\<rparr>))"
    unfolding CompactSwapFile_copy_def Let_def fs1(1) prod.case o1 o2 o3 io using en by simp
  then show ?thesis using inv by (intro exI [of _ ?c] exI [of _ ?s] conjI) simp_all
qed

text \<open>The second part, once every image was copied.\<close>

lemma CompactSwapFile_install_ok:
  assumes "copying old (newSwapfilePath e) ys sizes new c" and "files (c_fs c) (swapfilePath e) \<noteq> None"
    and "filesystem w = c_fs c" and "opened (swapfile w) = Some (swapfilePath e)"
  shows "\<exists>w'. CompactSwapFile_install e c w = (False, w') \<and> files (filesystem w') (swapfilePath e) = Some new \<and>
    objectOffsetMap w' = c_offsets c \<and> stream_good (swapfile w') \<and> opened (swapfile w') = Some (swapfilePath e) \<and>
    w' = w\<lparr>objectOffsetMap := c_offsets c, filesystem := filesystem w', swapfile := swapfile w'\<rparr>"
  using assms swapfile_paths_distinct [of e]
  by (auto simp: CompactSwapFile_install_def Let_def copying_def fs_remove_def fs_rename_def openFileAppend_def fs_open_def fs_close_def
      tick_def checkStreamError_def stream_fail_def stream_good_def closed_stream_def)

lemma on_disk_within:
  assumes "sm_wf (objectOffsetMap w)" and "\<forall>k \<in> fst ` set (objectOffsetMap w). \<exists>img. on_disk w k img"
    and "opened (swapfile w) = Some path" "files (filesystem w) path = Some xs" and "(k, off) \<in> set (objectOffsetMap w)"
  shows "0 \<le> off \<and> map_of (objectSizeMap w) k \<noteq> None"
proof -
  obtain img where img: "on_disk w k img" using assms(2,5) by force
  have "map_of (objectOffsetMap w) k = Some off" using assms(5) sm_wf_distinct [OF assms(1)] by simp
  then show ?thesis by (rule_tac on_disk_entry [OF img assms(3,4)]) simp
qed

text \<open>When every image lies within the copied part of the file, the copying loop takes all of them over.\<close>

lemma compaction_copies:
  assumes c: "copying old new (take m xs) (objectSizeMap w) [] c" "old \<noteq> new" "c_offsets c = []" "c_objects c = 0" "c_bytes c = 0"
    and wf: "sm_wf (objectOffsetMap w)" and disk: "\<forall>k \<in> fst ` set (objectOffsetMap w). \<exists>img. on_disk w k img"
    and op: "opened (swapfile w) = Some path" "files (filesystem w) path = Some xs"
    and within: "\<forall>ent \<in> set (objectOffsetMap w). entry_within (objectSizeMap w) (length (take m xs)) ent"
  obtains acc where "copying old new (take m xs) (objectSizeMap w) acc (compact_from e (objectOffsetMap w) c)"
    "files (c_fs (compact_from e (objectOffsetMap w) c)) = (files (c_fs c))(new \<mapsto> acc)"
    "\<forall>k img. on_disk w k img \<longrightarrow> (\<exists>p. map_of (c_offsets (compact_from e (objectOffsetMap w) c)) k = Some (int p) \<and>
       map_of (objectSizeMap w) k = Some (length img) \<and> take (length img) (drop p acc) = img)"
    "\<forall>k. sm_has k (c_offsets (compact_from e (objectOffsetMap w) c)) = sm_has k (objectOffsetMap w)"
    "c_objects (compact_from e (objectOffsetMap w) c) = to_int (int (length (objectOffsetMap w)))"
    "c_bytes (compact_from e (objectOffsetMap w) c) = to_int (int (length acc))"
proof -
  let ?ents = "objectOffsetMap w" and ?c = "compact_from e (objectOffsetMap w) c"
  have ents: "\<forall>(k, off) \<in> set ?ents. 0 \<le> off \<and> (\<exists>n. map_of (objectSizeMap w) k = Some n \<and> n \<le> length (take m xs) - nat off)"
    using within on_disk_within [OF wf disk op] unfolding entry_within_def by fast
  obtain acc where acc: "copying old new (take m xs) (objectSizeMap w) acc ?c"
      "files (c_fs ?c) = (files (c_fs c))(new \<mapsto> acc)"
      "\<forall>(k, off) \<in> set ?ents. \<exists>p. map_of (c_offsets ?c) k = Some (int p) \<and>
         take (the (map_of (objectSizeMap w) k)) (drop p acc) = take (the (map_of (objectSizeMap w) k)) (drop (nat off) (take m xs))"
      "\<forall>k. k \<notin> fst ` set ?ents \<longrightarrow> map_of (c_offsets ?c) k = None"
      "c_objects ?c = to_int (int (length ?ents))" "c_bytes ?c = to_int (int (length acc))"
    using compact_from_ok [OF c(1,2) sm_wf_distinct [OF wf] ents, of e, unfolded c(3-5) append_Nil map_of.simps add_0]
    by (elim exE conjE) (rule that)
  have img: "\<exists>p. map_of (c_offsets ?c) k = Some (int p) \<and> map_of (objectSizeMap w) k = Some (length img) \<and>
      take (length img) (drop p acc) = img" if k: "on_disk w k img" for k img
  proof (rule on_disk_entry [OF k op])
    fix off assume off: "map_of ?ents k = Some off" "map_of (objectSizeMap w) k = Some (length img)" "take (length img) (drop (nat off) xs) = img"
    have le: "length img \<le> length (take m xs) - nat off" using bspec [OF ents map_of_SomeD [OF off(1)]] off(2) by simp
    have "take (length img) (drop (nat off) (take m xs)) = take (min (length img) (m - nat off)) (drop (nat off) xs)"
      by (simp add: drop_take min.commute)
    also have "min (length img) (m - nat off) = length img" using le by (auto simp: min_def split: if_splits)
    finally show ?thesis using bspec [OF acc(3) map_of_SomeD [OF off(1)]] off(2,3) by auto
  qed
  have keys: "sm_has k (c_offsets ?c) = sm_has k ?ents" for k
  proof (cases "map_of ?ents k")
    case None
    then show ?thesis using acc(4) by (simp add: sm_has_def map_of_eq_None_iff)
  next
    case (Some off)
    then show ?thesis using bspec [OF acc(3) map_of_SomeD [OF Some]] by (auto simp: sm_has_def)
  qed
  show thesis using acc(1,2,5,6) img keys by (intro that) blast+
qed


text \<open>Ten bytes of garbage before the image.\<close>

definition garbage_world :: world where
  "garbage_world = demo_world\<lparr>
     swapfile := \<lparr>opened = Some (swapfilePath demo_env), position = 4106, eofbit = False, failbit = False, badbit = False\<rparr>,
     objectOffsetMap := [(1000, 10)],
     filesystem := \<lparr>files = [swapfilePath demo_env \<mapsto> replicate 10 1 @ demo_image], device = (\<lambda>_. True), device_ops = 0\<rparr>\<rparr>"


end
