(* ===== verification/Swap_Invariants.thy ===== *)
theory Swap_Invariants
  imports Swap_Compaction
begin

text \<open>
  What the swap code keeps at all times: the agreement of the write queue with its set and of the two maps of the swap file,
  through any sequence of the operations; what a free of the collector removes; and that the loop of the write task ends.
\<close>

section \<open>What the operations keep\<close>

text \<open>The queue holds no object twice and no null pointer, and the set beside it holds the same objects.
  The two maps of the swap file have the same keys.\<close>

definition queue_ok :: "world \<Rightarrow> bool" where
  "queue_ok w \<longleftrightarrow>
     distinct (writeQueue w) \<and> set (writeSet w) = set (writeQueue w) \<and> ss_wf (writeSet w) \<and> 0 \<notin> set (writeQueue w)"

definition same_keys :: "int smap \<Rightarrow> nat smap \<Rightarrow> bool" where
  "same_keys oom osm \<longleftrightarrow> sm_wf oom \<and> sm_wf osm \<and> dom (map_of oom) = dom (map_of osm)"

definition books_ok :: "world \<Rightarrow> bool" where
  "books_ok w \<longleftrightarrow> queue_ok w \<and> same_keys (objectOffsetMap w) (objectSizeMap w)"

text \<open>The same, with the agreement of the maps only where \<open>K\<close> says so.\<close>

definition books :: "bool \<Rightarrow> world \<Rightarrow> bool" where
  "books K w \<longleftrightarrow> queue_ok w \<and> (K \<longrightarrow> same_keys (objectOffsetMap w) (objectSizeMap w))"

lemma books_ok_iff: "books_ok w \<longleftrightarrow> books True w"
  by (simp add: books_ok_def books_def)

text \<open>The operations below leave the queue alone, and the keys of the two maps equal.\<close>

definition keeps :: "world \<Rightarrow> world \<Rightarrow> bool" where
  "keeps w w' \<longleftrightarrow>
     writeQueue w' = writeQueue w \<and> writeSet w' = writeSet w \<and>
     (same_keys (objectOffsetMap w) (objectSizeMap w) \<longrightarrow> same_keys (objectOffsetMap w') (objectSizeMap w'))"

lemma keeps_refl [simp]: "keeps w w"
  by (simp add: keeps_def)

lemma keeps_trans [trans]: "keeps w w1 \<Longrightarrow> keeps w1 w2 \<Longrightarrow> keeps w w2"
  by (simp add: keeps_def)

lemma keeps_ok: "keeps w w' \<Longrightarrow> books K w \<Longrightarrow> books K w'"
  by (simp add: keeps_def books_def queue_ok_def)

lemma keeps_update [simp]:
  "keeps w (w'\<lparr>memory := m\<rparr>) = keeps w w'" "keeps (w\<lparr>memory := m\<rparr>) w' = keeps w w'"
  "keeps w (w'\<lparr>swapfile := s\<rparr>) = keeps w w'" "keeps w (w'\<lparr>filesystem := fs\<rparr>) = keeps w w'"
  "keeps w (w'\<lparr>swappedInSpace := sp\<rparr>) = keeps w w'" "keeps w (w'\<lparr>clock_reads := k\<rparr>) = keeps w w'"
  "keeps w (w'\<lparr>swapfileObjects := n\<rparr>) = keeps w w'" "keeps w (w'\<lparr>swapfileSize := n\<rparr>) = keeps w w'"
  "keeps w (w'\<lparr>createStubSet := cs\<rparr>) = keeps w w'" "keeps w (w'\<lparr>stubRTEMap := rm\<rparr>) = keeps w w'"
  "keeps w (w'\<lparr>semiSpaceRemappingTable := t\<rparr>) = keeps w w'" "keeps w (w'\<lparr>freedObjects := f\<rparr>) = keeps w w'"
  "keeps w (w'\<lparr>freedSize := f\<rparr>) = keeps w w'" "keeps w (w'\<lparr>appInForeground := b\<rparr>) = keeps w w'"
  "keeps w (w'\<lparr>bgMarkSweepCounter := c\<rparr>) = keeps w w'"
  by (simp_all add: keeps_def)

lemma same_keys_at:
  "same_keys oom osm \<Longrightarrow> same_keys (snd (sm_at d k oom)) (snd (sm_at d' k osm))"
  by (auto simp: same_keys_def sm_at_def smap_simps split: option.splits)

lemma same_keys_put: "same_keys oom osm \<Longrightarrow> same_keys (sm_put k v oom) (sm_put k v' osm)"
  by (simp add: same_keys_def smap_simps)

lemma same_keys_erase: "same_keys oom osm \<Longrightarrow> same_keys (sm_erase k oom) (sm_erase k osm)"
  by (auto simp: same_keys_def smap_simps)

lemma same_keys_erases: "same_keys oom osm \<Longrightarrow> same_keys (fold sm_erase ks oom) (fold sm_erase ks osm)"
  by (induction ks arbitrary: oom osm) (simp_all add: same_keys_erase)

lemma same_keys_at_id: "same_keys oom osm \<Longrightarrow> sm_has k oom \<Longrightarrow> snd (sm_at d k osm) = osm"
  by (auto simp: same_keys_def sm_has_iff sm_at_def dom_map_of_conv_image_fst map_of_eq_None_iff split: option.splits)

lemma keeps_at [dest]:
  "keeps (w\<lparr>objectOffsetMap := snd (sm_at d k (objectOffsetMap w)), objectSizeMap := snd (sm_at d' k (objectSizeMap w))\<rparr>) w'
     \<Longrightarrow> keeps w w'"
  by (simp add: keeps_def same_keys_at)

lemmas keeps_at_update [simp] = keeps_at [OF keeps_refl]

section \<open>Bringing objects back and reading them\<close>

lemma swapInObject_keeps: "swapInObject e stub off sz w = Some (obj, w') \<Longrightarrow> keeps w w'"
  by (auto simp: swapInObject_def Let_def bind_eq_Some_conv split: if_splits prod.splits)

lemma SwapInOnDemand_keeps: "SwapInOnDemand e stub w = Some w' \<Longrightarrow> keeps w w'"
  by (auto simp: SwapInOnDemand_def Let_def bind_eq_Some_conv case_prod_beta split: if_splits
      dest!: swapInObject_keeps)

lemma stub_enter_keeps: "stub_enter e stub w = Some w' \<Longrightarrow> keeps w w'"
  by (auto simp: stub_enter_def Let_def bind_eq_Some_conv split: if_splits dest!: SwapInOnDemand_keeps)

lemma stub_leave_keeps [simp]: "keeps w (stub_leave stub w') = keeps w w'"
  by (simp add: stub_leave_def)

lemma GetFieldObject_keeps: "GetFieldObject e obj off w = Some (r, w') \<Longrightarrow> keeps w w'"
  by (rule GetFieldObject.raw_induct [where P = "\<lambda>e obj off w y. keeps w (snd y)", of e obj off w "(r, w')", simplified])
     (auto simp: bind_eq_Some_conv split: if_splits prod.splits dest!: stub_enter_keeps intro: keeps_trans)

lemma Object_SizeOf_keeps: "Object_SizeOf e obj w = Some (r, w') \<Longrightarrow> keeps w w'"
  by (rule Object_SizeOf.raw_induct [where P = "\<lambda>e obj w y. keeps w (snd y)", of e obj w "(r, w')", simplified])
     (auto simp: bind_eq_Some_conv Let_def split: if_splits prod.splits dest!: stub_enter_keeps intro: keeps_trans)

lemma GetClass_keeps: "GetClass e obj w = Some (r, w') \<Longrightarrow> keeps w w'"
  by (auto simp: GetClass_def dest: GetFieldObject_keeps)

section \<open>Writing\<close>

lemma write_first_keeps: "write_first k bs w = (err, w') \<Longrightarrow> keeps w w'"
  by (auto simp: write_first_def keeps_def same_keys_put split: prod.splits)

lemma write_again_keeps: "write_again k bs w = (r, err, w') \<Longrightarrow> keeps w w'"
  by (auto simp: write_again_def case_prod_beta Let_def split: if_splits)

lemma write_snapshot_keeps: "write_snapshot e stub obj w = Some (r, err, w') \<Longrightarrow> keeps w w'"
  by (auto simp: write_snapshot_def Let_def bind_eq_Some_conv split: if_splits prod.splits
      dest!: Object_SizeOf_keeps write_first_keeps write_again_keeps intro: keeps_trans)

lemma writeToSwapFile_keeps: "writeToSwapFile e obj w = Some (r, err, w') \<Longrightarrow> keeps w w'"
  by (auto simp: writeToSwapFile_def Let_def bind_eq_Some_conv split: if_splits
      dest!: GetClass_keeps write_snapshot_keeps intro: keeps_trans)

lemma enqueue_write_ok: "queue_ok w \<Longrightarrow> k \<noteq> 0 \<Longrightarrow> queue_ok (enqueue_write k w)"
  by (auto simp: queue_ok_def enqueue_write_def set_insort_insert)

lemma enqueue_write_maps [simp]:
  "objectOffsetMap (enqueue_write k w) = objectOffsetMap w" "objectSizeMap (enqueue_write k w) = objectSizeMap w"
  by (simp_all add: enqueue_write_def)

lemma books_ok_update [simp]:
  "books K (w\<lparr>memory := m\<rparr>) = books K w" "books K (w\<lparr>createStubSet := cs\<rparr>) = books K w"
  "books K (w\<lparr>freedObjects := f\<rparr>) = books K w" "books K (w\<lparr>clock_reads := k\<rparr>) = books K w"
  by (simp_all add: books_def queue_ok_def)

lemma books_ok_enqueue: "books K w \<Longrightarrow> k \<noteq> 0 \<Longrightarrow> books K (enqueue_write k w)"
  by (simp add: books_def enqueue_write_ok)

lemma ensures_space: "(\<And>b. P b) \<Longrightarrow> ensures (objectInSwappableSpace w obj) P"
  by (simp add: ensures_def)

lemma Object_SizeOf_ensures: "books K w \<Longrightarrow> (\<And>sz w'. books K w' \<Longrightarrow> P (sz, w')) \<Longrightarrow> ensures (Object_SizeOf e obj w) P"
  by (auto simp: ensures_def dest!: Object_SizeOf_keeps keeps_ok)

lemma update_object_books: "books K w \<Longrightarrow> ensures (update_object e stub obj w) (books K)"
  unfolding update_object_def shouldExcludeObjectAndMembers_def
  by (auto simp: Let_def split: prod.splits intro!: Object_SizeOf_ensures ensures_space books_ok_enqueue)

lemma examined_object_books: "books K w \<Longrightarrow> ensures (examined_object obj w) (\<lambda>(stub, obj', w'). books K w')"
  by (auto simp: examined_object_def Let_def) (simp add: ensures_def)

lemma CheckAndUpdate_books: "books K w \<Longrightarrow> ensures (CheckAndUpdate e p obj w) (books K)"
  by (auto simp: CheckAndUpdate_def split: option.splits intro!: ensures_mono [OF examined_object_books] ensures_mono [OF update_object_books])

lemma dequeue_books: "books K w \<Longrightarrow> writeQueue w = obj # rest
    \<Longrightarrow> books K (w\<lparr>writeQueue := rest, writeSet := removeAll obj (writeSet w)\<rparr>)"
  by (auto simp: books_def queue_ok_def)

lemma writeToSwapFile_ensures:
  "books K w \<Longrightarrow> (\<And>r err w'. books K w' \<Longrightarrow> P (r, err, w')) \<Longrightarrow> ensures (writeToSwapFile e obj w) P"
  by (auto simp: ensures_def dest!: writeToSwapFile_keeps keeps_ok)

lemma write_round_books: "books K w \<Longrightarrow> ensures (write_round e t st w) (\<lambda>(d, err, st', w'). books K w')"
  by (auto simp: write_round_def Let_def NanoTime_def dequeue_books split: list.splits intro!: writeToSwapFile_ensures)

section \<open>Freeing and renaming\<close>

abbreviation keys_ok :: "world \<Rightarrow> bool" where
  "keys_ok w \<equiv> same_keys (objectOffsetMap w) (objectSizeMap w)"

lemma keeps_keys: "keeps w w' \<Longrightarrow> keys_ok w \<Longrightarrow> keys_ok w'"
  by (simp add: keeps_def)

lemma swappedIn_Free_keeps: "swappedIn_Free obj w = Some w' \<Longrightarrow> keeps w w'"
  by (auto simp: swappedIn_Free_def bind_eq_Some_conv split: option.splits if_splits)

lemma free_stub_object_keeps: "free_stub_object stub w = Some w' \<Longrightarrow> keeps w w'"
  by (auto simp: free_stub_object_def Let_def bind_eq_Some_conv split: if_splits dest!: swappedIn_Free_keeps)

lemma drop_records_books: "books K w \<Longrightarrow> books K (drop_records obj w)"
  by (auto simp: drop_records_def Let_def books_def queue_ok_def same_keys_erase)

lemma drop_records_keys: "keys_ok w \<Longrightarrow> keys_ok (drop_records obj w)"
  by (auto simp: drop_records_def Let_def same_keys_erase)

lemma GcRecordFree_cases: "GcRecordFree obj w = Some w' \<Longrightarrow> w' = w \<or> keeps (drop_records obj w) w'"
  by (auto simp: GcRecordFree_def Let_def bind_eq_Some_conv split: if_splits dest!: free_stub_object_keeps)

lemma GcRecordFree_books: "books K w \<Longrightarrow> ensures (GcRecordFree obj w) (books K)"
  using keeps_ok [OF _ drop_records_books] by (auto simp: ensures_def dest!: GcRecordFree_cases)

lemma GcRecordFree_keys: "keys_ok w \<Longrightarrow> ensures (GcRecordFree obj w) keys_ok"
  using keeps_keys [OF _ drop_records_keys] by (auto simp: ensures_def dest!: GcRecordFree_cases)

lemma replace_pointer_keys: "same_keys oom osm \<Longrightarrow> ensures (replace_pointer p (oom, osm)) (\<lambda>(oom, osm). same_keys oom osm)"
  by (auto simp: replace_pointer_def same_keys_erase same_keys_put split: option.splits prod.splits)

lemma replace_pointers_keys: "same_keys oom osm \<Longrightarrow> ensures (replace_pointers ps (oom, osm)) (\<lambda>(oom, osm). same_keys oom osm)"
  by (induction ps arbitrary: oom osm) (auto intro!: ensures_mono [OF replace_pointer_keys])

lemma free_untouched_stubs_keeps: "free_untouched_stubs t ps w = Some w' \<Longrightarrow> keeps w w'"
proof (induction ps arbitrary: w)
  case (Cons p ps)
  from Cons.prems obtain w1 where "free_untouched_stubs t ps w1 = Some w'" and first: "keeps w w1"
    by (cases p) (auto simp: bind_eq_Some_conv Let_def split: if_splits dest!: swappedIn_Free_keeps)
  from keeps_trans [OF first Cons.IH [OF this(1)]] show ?case .
qed simp

lemma replaceDataStructurePointers_keeps:
  assumes "replaceDataStructurePointers t b w = Some w'"
  shows "keeps w w'"
proof -
  from assms obtain ks oom osm where maps: "replace_pointers t (objectOffsetMap w, objectSizeMap w) = Some (oom, osm)"
    and rest: "w' = w\<lparr>objectOffsetMap := oom, objectSizeMap := osm\<rparr> \<or>
      (\<exists>w1. free_untouched_stubs t (stubRTEMap w)
         (w\<lparr>objectOffsetMap := fold sm_erase ks oom, objectSizeMap := fold sm_erase ks osm\<rparr>) = Some w1 \<and> w' = w1\<lparr>stubRTEMap := []\<rparr>)"
    by (auto simp: replaceDataStructurePointers_def Let_def bind_eq_Some_conv split: if_splits)
  have keys: "same_keys oom osm" if "keys_ok w"
    using ensuresD [OF replace_pointers_keys [OF that] maps] by simp
  from rest show ?thesis
  proof (elim disjE exE conjE)
    fix w1
    assume "free_untouched_stubs t (stubRTEMap w)
      (w\<lparr>objectOffsetMap := fold sm_erase ks oom, objectSizeMap := fold sm_erase ks osm\<rparr>) = Some w1" "w' = w1\<lparr>stubRTEMap := []\<rparr>"
    with free_untouched_stubs_keeps [OF this(1)] show ?thesis
      by (simp add: keeps_def same_keys_erases keys)
  qed (simp add: keeps_def keys)
qed

section \<open>Stubs\<close>

lemma Object_SizeOf_keys: "keys_ok w \<Longrightarrow> (\<And>sz w'. keys_ok w' \<Longrightarrow> P (sz, w')) \<Longrightarrow> ensures (Object_SizeOf e obj w) P"
  by (auto simp: ensures_def dest!: Object_SizeOf_keeps keeps_keys)

lemma free_original_keys:
  assumes "keys_ok w"
  shows "ensures (FreeFromRosAllocSpace e obj w) keys_ok" and "ensures (FreeFromLargeObjectSpace e obj w) keys_ok"
  using assms
  by (auto simp: FreeFromRosAllocSpace_def FreeFromLargeObjectSpace_def Let_def
      intro!: Object_SizeOf_keys ensures_mono [OF GcRecordFree_keys]) (auto simp: ensures_def)

lemma ros_Alloc_keys: "keys_ok w \<Longrightarrow> ensures (ros_Alloc e n w) (\<lambda>(a, w'). keys_ok w')"
  by (simp add: ros_Alloc_def split: option.split)

lemma swappedIn_Alloc_keys: "keys_ok w \<Longrightarrow> ensures (swappedIn_Alloc e n w) (\<lambda>(a, w'). keys_ok w')"
  by (simp add: swappedIn_Alloc_def Let_def split: option.split prod.split)

lemma create_stub_keys: "keys_ok w \<Longrightarrow> ensures (create_stub e obj w) keys_ok"
  unfolding create_stub_def
  apply (auto simp: Let_def split: prod.splits intro!: ensures_space Object_SizeOf_keys
      ensures_mono [OF free_original_keys(1)] ensures_mono [OF free_original_keys(2)]
      ensures_mono [OF ros_Alloc_keys] ensures_mono [OF swappedIn_Alloc_keys]
      ensures_any [where r = "GetStubSize_of a b c" for a b c] ensures_any [where r = "CreateEntry a b" for a b]
      ensures_any [where r = "LockTableEntry a b" for a b] ensures_any [where r = "PopulateFrom a b c d" for a b c d])
  done

lemma create_stubs_keys: "keys_ok w \<Longrightarrow> ensures (create_stubs e objs w) keys_ok"
  by (induction objs arbitrary: w) (auto intro!: ensures_mono [OF create_stub_keys])

lemma patchStubReferences_keys: "keys_ok w \<Longrightarrow> ensures (patchStubReferences e w) keys_ok"
  by (auto simp: patchStubReferences_def ensures_def bind_eq_Some_conv Let_def dest!: replaceDataStructurePointers_keeps keeps_keys)

lemma CreateStubs_books: "books K w \<Longrightarrow> ensures (CreateStubs e w) (books K)"
proof (cases K)
  case True
  assume "books K w"
  then show ?thesis
    using True by (auto simp: CreateStubs_def Let_def books_def queue_ok_def
        intro!: ensures_mono [OF create_stubs_keys] ensures_mono [OF patchStubReferences_keys])
next
  case False
  assume "books K w"
  then show ?thesis
    using False by (auto simp: CreateStubs_def Let_def books_def queue_ok_def intro!: ensures_any)
qed

section \<open>Reclaiming and returning\<close>

lemma reclaim_entry_keeps: "reclaim_entry rte w = Some w' \<Longrightarrow> keeps w w'"
  by (auto simp: reclaim_entry_def Let_def bind_eq_Some_conv split: if_splits)

lemma reclaim_entries_keeps: "reclaim_entries rtes w = Some w' \<Longrightarrow> keeps w w'"
  by (induction rtes arbitrary: w) (auto simp: bind_eq_Some_conv dest!: reclaim_entry_keeps intro: keeps_trans)

lemma SwapObjectsOut_keeps: "SwapObjectsOut w = Some w' \<Longrightarrow> keeps w w'"
  by (auto simp: SwapObjectsOut_def dest: reclaim_entries_keeps split: if_splits)

lemma swap_in_key_keeps: "swap_in_key e k w = Some w' \<Longrightarrow> keeps w w'"
  by (auto simp: swap_in_key_def Let_def bind_eq_Some_conv case_prod_beta split: if_splits dest!: swapInObject_keeps)

lemma swap_in_keys_keeps: "swap_in_keys e ks w = Some w' \<Longrightarrow> keeps w w'"
  by (induction ks arbitrary: w) (auto simp: bind_eq_Some_conv dest!: swap_in_key_keeps intro: keeps_trans)

lemma SwapObjectsIn_keeps: "SwapObjectsIn e w = Some w' \<Longrightarrow> keeps w w'"
  by (auto simp: SwapObjectsIn_def dest: swap_in_keys_keeps split: if_splits)

lemma SemiSpace_keeps:
  "keeps w (RecordForwardedObject obj new w)"
  "SemiSpaceRecordStubMappings w = Some w' \<Longrightarrow> keeps w w'"
  "SemiSpaceUpdateDataStructures w = Some w' \<Longrightarrow> keeps w w'"
  by (auto simp: RecordForwardedObject_def SemiSpaceRecordStubMappings_def SemiSpaceUpdateDataStructures_def
      bind_eq_Some_conv split: if_splits dest!: replaceDataStructurePointers_keeps)

section \<open>The swap file\<close>

lemma compact_object_maps:
  assumes "fst entry \<in> dom (map_of (c_sizes c))"
  shows "c_sizes (compact_object e entry c) = c_sizes c"
    and "c_offsets (compact_object e entry c) = sm_put (fst entry) (fs_tellp (c_new c)) (c_offsets c)"
proof -
  have "snd (sm_at 0 (fst entry) (c_sizes c)) = c_sizes c" using assms by (auto simp: sm_at_def split: option.splits)
  then show "c_sizes (compact_object e entry c) = c_sizes c"
    and "c_offsets (compact_object e entry c) = sm_put (fst entry) (fs_tellp (c_new c)) (c_offsets c)"
    by (auto simp: compact_object_def Let_def case_prod_beta)
qed

lemma compact_from_maps:
  assumes "fst ` set es \<subseteq> dom (map_of (c_sizes c))" and "sm_wf (c_offsets c)"
  shows "c_sizes (compact_from e es c) = c_sizes c \<and> sm_wf (c_offsets (compact_from e es c)) \<and>
    (\<not> c_ioError (compact_from e es c) \<longrightarrow>
       dom (map_of (c_offsets (compact_from e es c))) = dom (map_of (c_offsets c)) \<union> fst ` set es)"
  using assms
proof (induction es arbitrary: c)
  case (Cons entry es)
  have known: "fst entry \<in> dom (map_of (c_sizes c))" using Cons.prems(1) by simp
  show ?case
  proof (cases "c_ioError c")
    case False
    with Cons.IH [of "compact_object e entry c"] Cons.prems show ?thesis
      by (auto simp: compact_object_maps [OF known] smap_simps)
  qed (use Cons.prems in simp)
qed simp

text \<open>The first part of a compaction leaves the queue and the maps alone; the second one replaces the map of offsets.\<close>

lemma CompactSwapFile_copy_maps:
  assumes "CompactSwapFile_copy e w = Some (c, w')"
  shows "writeQueue w' = writeQueue w" "writeSet w' = writeSet w" "objectOffsetMap w' = objectOffsetMap w"
    "keys_ok w \<Longrightarrow> objectSizeMap w' = objectSizeMap w"
    "keys_ok w \<Longrightarrow> sm_wf (c_offsets c)"
    "keys_ok w \<Longrightarrow> \<not> c_ioError c \<Longrightarrow> dom (map_of (c_offsets c)) = dom (map_of (objectOffsetMap w))"
proof -
  obtain c0 where c0: "c_offsets c0 = []" "c_sizes c0 = objectSizeMap w" "c = compact_from e (objectOffsetMap w) c0"
    and w': "objectSizeMap w' = c_sizes c"
      "writeQueue w' = writeQueue w" "writeSet w' = writeSet w" "objectOffsetMap w' = objectOffsetMap w"
    by (rule that [OF _ _ _ _ _ _ _], insert assms) (auto simp: CompactSwapFile_copy_def Let_def case_prod_beta split: if_splits)
  show "writeQueue w' = writeQueue w" "writeSet w' = writeSet w" "objectOffsetMap w' = objectOffsetMap w" using w' by simp_all
  assume "keys_ok w"
  then have "fst ` set (objectOffsetMap w) \<subseteq> dom (map_of (c_sizes c0))" "sm_wf (c_offsets c0)"
    by (auto simp: same_keys_def c0 dom_map_of_conv_image_fst)
  from compact_from_maps [OF this, of e] show "objectSizeMap w' = objectSizeMap w" "sm_wf (c_offsets c)"
    "\<not> c_ioError c \<Longrightarrow> dom (map_of (c_offsets c)) = dom (map_of (objectOffsetMap w))"
    by (simp_all add: c0 w'(1) dom_map_of_conv_image_fst)
qed

lemma CompactSwapFile_install_maps:
  assumes "CompactSwapFile_install e c w = (err, w')"
  shows "writeQueue w' = writeQueue w" "writeSet w' = writeSet w" "objectOffsetMap w' = c_offsets c"
    "objectSizeMap w' = objectSizeMap w" "c_ioError c \<Longrightarrow> err"
  using assms by (auto simp: CompactSwapFile_install_def Let_def case_prod_beta)

lemma validate_object_sizes: "fst entry \<in> dom (map_of (v_sizes v)) \<Longrightarrow> v_sizes (validate_object fs entry v) = v_sizes v"
  by (auto simp: validate_object_def Let_def case_prod_beta sm_at_def)

lemma validate_sizes: "fst ` set es \<subseteq> dom (map_of (v_sizes v)) \<Longrightarrow> v_sizes (fold (validate_object fs) es v) = v_sizes v"
  by (induction es arbitrary: v) (simp_all add: validate_object_sizes)

lemma validateSwapFile_keeps: "keeps w (snd (validateSwapFile w))"
  by (auto simp: validateSwapFile_def Let_def keeps_def same_keys_def validate_sizes dom_map_of_conv_image_fst [symmetric])

lemma InitIfNecessary_books: "books K w \<Longrightarrow> ensures (InitIfNecessary e w) (books K)"
  by (auto simp: InitIfNecessary_def Let_def books_def queue_ok_def same_keys_def add_write_task_def NanoTime_def
      split: option.splits prod.splits)

section \<open>Every sequence of operations\<close>

text \<open>One operation of the swap code, in any order the threads of the runtime call them; \<open>Elsewhere\<close> is anything
  that leaves the queue and the maps alone, the application's own writes among it. A compaction is two steps, with any
  operations of other threads between them: the state holds the compaction that is under way. Its first step reaches from
  the reset of the counters to the release of the lock on the maps; in the window before that lock is taken another thread
  can only free objects, which the maps and the queue cannot tell from a free before the compaction.\<close>

inductive swap_step :: "env \<Rightarrow> world \<times> compaction option \<Rightarrow> world \<times> compaction option \<Rightarrow> bool" for e where
  Check: "CheckAndUpdate e partial obj w = Some w' \<Longrightarrow> swap_step e (w, p) (w', p)"
| Write: "write_round e startTime st w = Some (isDone, ioError, st', w') \<Longrightarrow> swap_step e (w, p) (w', p)"
| Copy: "CompactSwapFile_copy e w = Some (c, w') \<Longrightarrow> swap_step e (w, None) (w', Some c)"
| Install: "CompactSwapFile_install e c w = (ioError, w') \<Longrightarrow> swap_step e (w, Some c) (w', None)"
| Validate: "swap_step e (w, p) (snd (validateSwapFile w), p)"
| Init: "InitIfNecessary e w = Some w' \<Longrightarrow> swap_step e (w, p) (w', p)"
| Demand: "stub_enter e stub w = Some w' \<Longrightarrow> swap_step e (w, p) (w', p)"
| Freed: "GcRecordFree obj w = Some w' \<Longrightarrow> swap_step e (w, p) (w', p)"
| Stubs: "CreateStubs e w = Some w' \<Longrightarrow> swap_step e (w, p) (w', p)"
| Out: "SwapObjectsOut w = Some w' \<Longrightarrow> swap_step e (w, p) (w', p)"
| Back: "SwapObjectsIn e w = Some w' \<Longrightarrow> swap_step e (w, p) (w', p)"
| Forward: "swap_step e (w, p) (RecordForwardedObject obj new w, p)"
| Mappings: "SemiSpaceRecordStubMappings w = Some w' \<Longrightarrow> swap_step e (w, p) (w', p)"
| Update: "SemiSpaceUpdateDataStructures w = Some w' \<Longrightarrow> swap_step e (w, p) (w', p)"
| Elsewhere: "writeQueue w' = writeQueue w \<Longrightarrow> writeSet w' = writeSet w \<Longrightarrow> objectOffsetMap w' = objectOffsetMap w \<Longrightarrow>
    objectSizeMap w' = objectSizeMap w \<Longrightarrow> swap_step e (w, p) (w', p)"

text \<open>A step is undisturbed unless it ends a compaction with an I/O error, or changes which objects have an offset
  while a compaction is under way.\<close>

fun undisturbed :: "env \<Rightarrow> world \<times> compaction option \<Rightarrow> world \<times> compaction option \<Rightarrow> bool" where
  "undisturbed e (w, Some c) (w', None) \<longleftrightarrow> \<not> fst (CompactSwapFile_install e c w)"
| "undisturbed e (w, Some c) (w', Some c') \<longleftrightarrow> (\<forall>k. sm_has k (objectOffsetMap w') \<longleftrightarrow> sm_has k (objectOffsetMap w))"
| "undisturbed e (w, None) s' \<longleftrightarrow> True"

text \<open>The operations other than the two parts of a compaction.\<close>

lemma swap_step_cases:
  assumes "swap_step e (w, p) (w', p')"
  obtains (other) "p' = p" "\<And>K. books K w \<Longrightarrow> books K w'"
    | (copy) c where "p = None" "p' = Some c" "CompactSwapFile_copy e w = Some (c, w')"
    | (install) c err where "p = Some c" "p' = None" "CompactSwapFile_install e c w = (err, w')"
  using assms
proof cases
  case Write
  then show thesis by (intro other) (auto dest: ensuresD [OF write_round_books])
next
  case Elsewhere
  then show thesis by (intro other) (auto simp: books_def queue_ok_def)
qed (use copy install in \<open>blast | (intro other, simp, auto intro: keeps_ok [OF validateSwapFile_keeps] keeps_ok [OF stub_enter_keeps]
      keeps_ok [OF SwapObjectsOut_keeps] keeps_ok [OF SwapObjectsIn_keeps] keeps_ok [OF SemiSpace_keeps(1)]
      keeps_ok [OF SemiSpace_keeps(2)] keeps_ok [OF SemiSpace_keeps(3)]
      ensuresD [OF CheckAndUpdate_books] ensuresD [OF InitIfNecessary_books] ensuresD [OF GcRecordFree_books]
      ensuresD [OF CreateStubs_books])\<close>)

text \<open>The offsets of a compaction that is under way and met no error have the keys of the map they are to replace.\<close>

definition swap_inv :: "bool \<Rightarrow> world \<times> compaction option \<Rightarrow> bool" where
  "swap_inv K = (\<lambda>(w, p). books K w \<and>
     (K \<longrightarrow> (\<forall>c. p = Some c \<longrightarrow> \<not> c_ioError c \<longrightarrow>
       sm_wf (c_offsets c) \<and> dom (map_of (c_offsets c)) = dom (map_of (objectOffsetMap w)))))"

lemma sm_has_dom: "(\<forall>k. sm_has k m = sm_has k m') \<longleftrightarrow> dom (map_of m) = dom (map_of m')"
  by (auto simp: sm_has_def dom_def set_eq_iff)

lemma swap_step_inv:
  assumes "swap_step e s s'" and "swap_inv K s" and und: "K \<Longrightarrow> undisturbed e s s'"
  shows "swap_inv K s'"
proof -
  obtain w p w' p' where s: "s = (w, p)" "s' = (w', p')" by (cases s; cases s')
  have books: "books K w" using assms(2) by (simp add: swap_inv_def s)
  from assms(1) [unfolded s] show ?thesis
  proof (cases rule: swap_step_cases)
    case other
    have "dom (map_of (objectOffsetMap w')) = dom (map_of (objectOffsetMap w))" if "K" "p = Some c" for c
      using und that other(1) by (simp add: s sm_has_dom)
    then show ?thesis using other assms(2) by (simp add: swap_inv_def s)
  next
    case (copy c)
    note m = CompactSwapFile_copy_maps [OF copy(3)]
    have "keys_ok w" if K using that books by (simp add: books_def)
    then show ?thesis using m books copy(2) by (auto simp: swap_inv_def s books_def queue_ok_def)
  next
    case (install c err)
    note m = CompactSwapFile_install_maps [OF install(3)]
    have "\<not> c_ioError c" if K using und that install m(5) by (auto simp: s)
    then show ?thesis using m(1-4) assms(2) install(1,2) by (auto simp: swap_inv_def s books_def queue_ok_def same_keys_def)
  qed
qed


definition busy_world :: world where
  "busy_world = demo_world\<lparr>objectOffsetMap := [(600, 4096), (1000, 0)], objectSizeMap := [(600, 256), (1000, 4096)],
     writeQueue := [1000, 600], writeSet := [600, 1000]\<rparr>"

lemma busy_books: "books_ok busy_world"
  by (auto simp: busy_world_def books_ok_def queue_ok_def same_keys_def ss_wf_def)

lemma busy_free: "GcRecordFree 600 busy_world = Some (drop_records 600 busy_world)"
  by (simp add: GcRecordFree_def drop_records_def busy_world_def demo_world_def swappedIn_Contains_def Contains_def demo_space_def
      GetStubFlag_def swap_mem_def header_bit_simps Let_def)


section \<open>What a free leaves behind\<close>

text \<open>What is left of the two maps and the queue, and how the garbage counters grow.\<close>

definition forgotten :: "addr \<Rightarrow> world \<Rightarrow> world" where
  "forgotten obj w = w\<lparr>
     writeQueue := removeAll obj (writeQueue w), writeSet := removeAll obj (writeSet w),
     createStubSet := removeAll obj (createStubSet w),
     objectOffsetMap := sm_erase obj (objectOffsetMap w), objectSizeMap := sm_erase obj (objectSizeMap w),
     freedObjects := (if sm_has obj (objectSizeMap w) then to_int (freedObjects w + 1) else freedObjects w),
     freedSize := (case map_of (objectSizeMap w) obj of Some n \<Rightarrow> to_long (freedSize w + int n) | None \<Rightarrow> freedSize w)\<rparr>"

lemma drop_records_forgotten:
  assumes "books_ok w"
  shows "drop_records obj w = forgotten obj w"
proof -
  have keys: "map_of (objectOffsetMap w) obj = None \<longleftrightarrow> map_of (objectSizeMap w) obj = None"
    using assms by (metis books_ok_def same_keys_def domIff)
  have queue: "remove1 obj (writeQueue w) = removeAll obj (writeQueue w)" "obj \<notin> set (writeQueue w) \<Longrightarrow> obj \<notin> set (writeSet w)"
    using assms by (simp_all add: books_ok_def queue_ok_def distinct_remove1_removeAll)
  show ?thesis
    using keys queue
    by (cases "map_of (objectSizeMap w) obj"; cases "obj \<in> set (writeQueue w)")
       (auto simp: drop_records_def forgotten_def Let_def sm_has_def sm_at_def sm_erase_absent)
qed

lemma free_stub_object_frame:
  "free_stub_object stub w = Some w' \<Longrightarrow> w' = w\<lparr>memory := memory w', swappedInSpace := swappedInSpace w'\<rparr>"
  by (auto simp: free_stub_object_def swappedIn_Free_def Let_def bind_eq_Some_conv split: if_splits option.splits)

lemma GcRecordFree_forgotten:
  assumes "books_ok w" "swapEnabled w" "\<not> creatingStubs w" "swappedIn_Contains w obj = Some False"
    and "GcRecordFree obj w = Some w'"
  shows "w' = (forgotten obj w)\<lparr>memory := memory w', swappedInSpace := swappedInSpace w'\<rparr> \<and>
    (\<not> GetStubFlag (memory w) obj \<longrightarrow> memory w' = memory w \<and> swappedInSpace w' = swappedInSpace w)"
proof -
  have "memory (forgotten obj w) = memory w" "swappedInSpace (forgotten obj w) = swappedInSpace w" by (simp_all add: forgotten_def)
  moreover have "w' = (if GetStubFlag (memory w) obj then w' else forgotten obj w)"
    and "GetStubFlag (memory w) obj \<Longrightarrow> free_stub_object obj (forgotten obj w) = Some w'"
    using assms(2-5) \<open>memory (forgotten obj w) = memory w\<close>
    by (auto simp: GcRecordFree_def Let_def drop_records_forgotten [OF assms(1)] split: if_splits)
  ultimately have "w' = (forgotten obj w)\<lparr>memory := memory w', swappedInSpace := swappedInSpace w'\<rparr>"
    using free_stub_object_frame [of obj "forgotten obj w" w'] by (cases "GetStubFlag (memory w) obj") auto
  moreover have "memory w' = memory w \<and> swappedInSpace w' = swappedInSpace w" if "\<not> GetStubFlag (memory w) obj"
    using that \<open>w' = (if _ then _ else _)\<close> by (simp add: forgotten_def)
  ultimately show ?thesis by simp
qed

text \<open>C6. When the collector frees an object outside of the swapped-in space, nothing of the swap code still refers to it: it leaves
  the queue, the two sets and both maps, which keep their other entries, and the garbage counters grow by one object and
  the length of its image if it had one. No other variable changes, except that freeing a stub may change the memory and the
  swapped-in space.\<close>

theorem GcRecordFree_forgets:
  assumes "books_ok w" "swapEnabled w" "\<not> creatingStubs w" "swappedIn_Contains w obj = Some False"
    and "GcRecordFree obj w = Some w'"
  shows "w' = w\<lparr>
      writeQueue := removeAll obj (writeQueue w), writeSet := removeAll obj (writeSet w),
      createStubSet := removeAll obj (createStubSet w),
      objectOffsetMap := sm_erase obj (objectOffsetMap w), objectSizeMap := sm_erase obj (objectSizeMap w),
      freedObjects := (if sm_has obj (objectSizeMap w) then to_int (freedObjects w + 1) else freedObjects w),
      freedSize := (case map_of (objectSizeMap w) obj of Some n \<Rightarrow> to_long (freedSize w + int n) | None \<Rightarrow> freedSize w),
      memory := memory w', swappedInSpace := swappedInSpace w'\<rparr> \<and>
    (\<not> GetStubFlag (memory w) obj \<longrightarrow> memory w' = memory w \<and> swappedInSpace w' = swappedInSpace w)"
  using GcRecordFree_forgotten [OF assms] unfolding forgotten_def by simp

theorem GcRecordFree_forgets_witness:
  "\<exists>w'. GcRecordFree 600 busy_world = Some w' \<and> writeQueue w' = [1000] \<and> freedSize w' = 256 \<and> objectSizeMap w' = [(1000, 4096)]"
proof -
  have "swapEnabled busy_world" "\<not> creatingStubs busy_world" "swappedIn_Contains busy_world 600 = Some False"
    by (simp_all add: busy_world_def demo_world_def swappedIn_Contains_def Contains_def demo_space_def)
  note f = conjunct1 [OF GcRecordFree_forgets [OF busy_books this busy_free]]
  have "writeQueue (drop_records 600 busy_world) = [1000]" "freedSize (drop_records 600 busy_world) = 256"
      "objectSizeMap (drop_records 600 busy_world) = [(1000, 4096)]"
    by (subst f, simp add: busy_world_def demo_world_def sm_erase_def to_long_def)+
  then show ?thesis using busy_free by auto
qed

section \<open>The write loop ends\<close>

text \<open>The loop with a bound on its rounds.\<close>

datatype 'a run = Out_Of_Rounds | Fatal | Returned 'a

fun write_run :: "env \<Rightarrow> nat \<Rightarrow> nat \<Rightarrow> write_stats \<Rightarrow> world \<Rightarrow> (bool \<times> write_stats \<times> world) run" where
  "write_run e startTime 0 st w = Out_Of_Rounds"
| "write_run e startTime (Suc n) st w =
     (case write_round e startTime st w of
        None \<Rightarrow> Fatal
      | Some (isDone, ioError, st, w) \<Rightarrow> if isDone then Returned (ioError, st, w) else write_run e startTime n st w)"

lemma writeToSwapFile_queue: "writeToSwapFile e obj w = Some (r, err, w') \<Longrightarrow> writeQueue w' = writeQueue w"
  using writeToSwapFile_keeps by (simp add: keeps_def)

lemma write_round_dequeues:
  assumes "write_round e t st w = Some (isDone, err, st', w')"
  shows "writeQueue w' = tl (writeQueue w) \<and> (writeQueue w = [] \<longrightarrow> isDone)"
proof -
  have "ensures (write_round e t st w) (\<lambda>(isDone, err, st', w'). writeQueue w' = tl (writeQueue w) \<and> (writeQueue w = [] \<longrightarrow> isDone))"
    by (cases "writeQueue w") (auto simp: write_round_def Let_def NanoTime_def, auto simp: ensures_def dest!: writeToSwapFile_queue)
  from ensuresD [OF this assms] show ?thesis by simp
qed

text \<open>C5. The write task ends: its loop runs at most one round more than the queue has objects, and within these rounds it either
  returns or stops at a failed check; it never goes on for ever.\<close>

theorem write_loop_terminates:
  "write_run e startTime (Suc (length (writeQueue w))) st w \<noteq> Out_Of_Rounds \<and>
   write_loop e startTime st w =
     (case write_run e startTime (Suc (length (writeQueue w))) st w of Returned r \<Rightarrow> Some r | _ \<Rightarrow> None)"
proof (induction "length (writeQueue w)" arbitrary: st w)
  case 0
  then show ?case
    using write_round_dequeues [of e startTime st w]
    by (subst (1) write_loop.simps) (auto split: option.splits dest: write_round_dequeues)
next
  case (Suc n)
  show ?case
  proof (cases "write_round e startTime st w")
    case (Some y)
    obtain isDone err st' w' where y: "y = (isDone, err, st', w')" by (cases y)
    have n: "length (writeQueue w') = n"
      using write_round_dequeues [OF Some [unfolded y]] Suc.hyps(2) by simp
    show ?thesis
      using Suc.hyps(1) [of w' st'] n Some y by (subst (1) write_loop.simps) (auto simp flip: Suc.hyps(2))
  qed (subst write_loop.simps, simp)
qed

section \<open>Errors\<close>

lemma device_fails:
  assumes "device fs = (\<lambda>_. False)"
  shows "device (fst (fs_open mode path fs s)) = (\<lambda>_. False)" "opened s = None \<Longrightarrow> failbit (snd (fs_open mode path fs s))"
    "opened s = None \<Longrightarrow> opened (snd (fs_open mode path fs s)) = None"
  using assms by (simp_all add: fs_open_def tick_def)

lemma fs_remove_device: "device (snd (fs_remove path fs)) = device fs"
  by (simp add: fs_remove_def tick_def)

lemma copyFile_device: "device (snd (copyFile e src dst fs)) = device fs"
  by (simp add: copyFile_def tick_def Let_def case_prod_beta fs_remove_device)

text \<open>C8. A compaction that cannot open its files forgets where the images are: on a failing device the map of offsets is
  empty afterwards, while the map of sizes still has every object. The file itself is untouched, but no image in it can be
  found again.\<close>

theorem CompactSwapFile_error_drops_offsets:
  assumes "swapEnabled w" and "device (filesystem w) = (\<lambda>_. False)"
  shows "\<exists>w'. CompactSwapFile e w = Some (True, w') \<and> objectOffsetMap w' = [] \<and> objectSizeMap w' = objectSizeMap w"
proof -
  have stop: "compact_from e es c = c" if "c_ioError c" for es c
    using that by (cases es) simp_all
  show ?thesis
    using assms
    by (simp add: CompactSwapFile_def CompactSwapFile_copy_def CompactSwapFile_install_def Let_def case_prod_beta stop checkStreamError_def stream_fail_def device_fails
        copyFile_device openFileAppend_def closed_stream_def)
qed

theorem CompactSwapFile_error_drops_offsets_witness:
  "\<exists>w'. CompactSwapFile demo_env (demo_world\<lparr>filesystem := \<lparr>files = [''swap'' \<mapsto> demo_image], device = (\<lambda>_. False), device_ops = 0\<rparr>\<rparr>) = Some (True, w')
     \<and> objectOffsetMap w' = [] \<and> objectSizeMap w' = [(1000, 4096)]"
  using CompactSwapFile_error_drops_offsets
    [of "demo_world\<lparr>filesystem := \<lparr>files = [''swap'' \<mapsto> demo_image], device = (\<lambda>_. False), device_ops = 0\<rparr>\<rparr>" demo_env]
  by (simp add: demo_world_def)

section \<open>A free between the two parts of a compaction\<close>

lemma CompactSwapFile_copy_frame:
  assumes "CompactSwapFile_copy e w = Some (c, w')"
  shows "swapEnabled w'" "creatingStubs w' = creatingStubs w" "swappedIn_Contains w' = swappedIn_Contains w"
  using assms by (auto simp: CompactSwapFile_copy_def Let_def case_prod_beta swappedIn_Contains_def fun_eq_iff split: if_splits)

text \<open>A compaction undoes a free that comes between its two parts: if the collector frees an object after its image was copied
  and before the new map of offsets is put in place, the object has an offset again afterwards, but no size.\<close>

lemma compaction_undoes_free:
  assumes "books_ok w" and "CompactSwapFile_copy e w = Some (c, w1)" "\<not> c_ioError c" and "sm_has k (objectOffsetMap w)"
    and "\<not> creatingStubs w" "swappedIn_Contains w k = Some False" and "GcRecordFree k w1 = Some w2"
    and "CompactSwapFile_install e c w2 = (err, w3)"
  shows "\<not> sm_has k (objectOffsetMap w2) \<and> \<not> sm_has k (objectSizeMap w2) \<and>
    sm_has k (objectOffsetMap w3) \<and> \<not> sm_has k (objectSizeMap w3)"
proof -
  have keys: "keys_ok w" using assms(1) by (simp add: books_ok_def)
  note copy = CompactSwapFile_copy_maps [OF assms(2)] and frame = CompactSwapFile_copy_frame [OF assms(2)]
  have "books_ok w1" using assms(1) keys copy by (simp add: books_ok_def queue_ok_def)
  from GcRecordFree_forgotten [OF this frame(1) _ _ assms(7)] assms(5,6) frame(2,3)
  have w2: "w2 = (forgotten k w1)\<lparr>memory := memory w2, swappedInSpace := swappedInSpace w2\<rparr>" by simp
  have "objectOffsetMap w2 = sm_erase k (objectOffsetMap w1)" "objectSizeMap w2 = sm_erase k (objectSizeMap w1)"
    using arg_cong [OF w2, of objectOffsetMap] arg_cong [OF w2, of objectSizeMap] by (simp_all add: forgotten_def)
  moreover have "sm_has k (c_offsets c)" using copy(6) [OF keys assms(3)] assms(4) by (auto simp: sm_has_def)
  ultimately show ?thesis using CompactSwapFile_install_maps [OF assms(8)] by (simp add: smap_simps)
qed

text \<open>An object with 256 bytes of image behind ten bytes of garbage.\<close>

definition race_world :: world where
  "race_world = garbage_world\<lparr>objectOffsetMap := [(600, 10)], objectSizeMap := [(600, 256)]\<rparr>"

lemma race_copy: "\<exists>c w1. CompactSwapFile_copy demo_env race_world = Some (c, w1) \<and> \<not> c_ioError c \<and> memory w1 = memory race_world"
proof -
  let ?xs = "replicate 10 1 @ demo_image"
  have pre: "swapEnabled race_world" "\<forall>n. device (filesystem race_world) n" "opened (swapfile race_world) = Some (swapfilePath demo_env)"
      "files (filesystem race_world) (swapfilePath demo_env) = Some ?xs"
    by (simp_all add: race_world_def garbage_world_def demo_world_def)
  have moved: "take (sendfile_bytes demo_env (length ?xs)) ?xs = ?xs"
    by (simp add: sendfile_bytes_def to_int_id demo_env_def demo_image_def)
  obtain c s where c: "copying (oldSwapfilePath demo_env) (newSwapfilePath demo_env) ?xs (objectSizeMap race_world) [] c"
    and copy: "CompactSwapFile_copy demo_env race_world =
      (let c = compact_from demo_env (objectOffsetMap race_world) c
       in Some (c, race_world\<lparr>freedObjects := 0, freedSize := 0, swapfileObjects := c_objects c, swapfileSize := c_bytes c,
              filesystem := c_fs c, swapfile := s, objectSizeMap := c_sizes c\<rparr>))"
    using CompactSwapFile_start [OF pre, unfolded moved] by (elim exE conjE) (rule that)
  have "copying (oldSwapfilePath demo_env) (newSwapfilePath demo_env) ?xs (objectSizeMap race_world) ([] @ take 256 (drop (nat 10) ?xs))
      (compact_object demo_env (600, 10) c)"
    using compact_object_ok [OF c swapfile_paths_distinct(3), of 10 600 256 demo_env] by (auto simp: race_world_def demo_image_def)
  then have "\<not> c_ioError (compact_from demo_env (objectOffsetMap race_world) c)"
    using c by (simp add: race_world_def copying_def)
  then show ?thesis using copy by (simp add: Let_def)
qed

lemma compaction_undoes_free_witness:
  "\<exists>c w1 w2 err w3. CompactSwapFile_copy demo_env race_world = Some (c, w1) \<and> GcRecordFree 600 w1 = Some w2 \<and>
     CompactSwapFile_install demo_env c w2 = (err, w3) \<and> sm_has 600 (objectOffsetMap w3) \<and> \<not> sm_has 600 (objectSizeMap w3)"
proof -
  obtain c w1 where c: "CompactSwapFile_copy demo_env race_world = Some (c, w1)" "\<not> c_ioError c" "memory w1 = memory race_world"
    using race_copy by blast
  have w: "books_ok race_world" "sm_has 600 (objectOffsetMap race_world)" "\<not> creatingStubs race_world"
      "swappedIn_Contains race_world 600 = Some False" "\<not> GetStubFlag (memory race_world) 600"
    by (simp_all add: race_world_def garbage_world_def demo_world_def books_ok_def queue_ok_def same_keys_def ss_wf_def sm_has_def
        swappedIn_Contains_def Contains_def demo_space_def GetStubFlag_def swap_mem_def header_bit_simps)
  note f = CompactSwapFile_copy_frame [OF c(1)]
  have free: "GcRecordFree 600 w1 = Some (drop_records 600 w1)"
    using f w(3-5) c(3) by (simp add: GcRecordFree_def drop_records_def Let_def)
  obtain err w3 where inst: "CompactSwapFile_install demo_env c (drop_records 600 w1) = (err, w3)" by fastforce
  show ?thesis using compaction_undoes_free [OF w(1) c(1,2) w(2-4) free inst] c(1) free inst by blast
qed

lemma InitIfNecessary_pid: "InitIfNecessary e w = Some w' \<Longrightarrow> w' = w \<or> pid w' = process_id e"
  by (auto simp: InitIfNecessary_def Let_def add_write_task_def NanoTime_def split: option.splits prod.splits if_splits)

text \<open>C7. Setting up switches swapping on only if everything it needs is there: the app is not on the blacklist, the swap file
  was written without an error, the swapped-in space is where it must be, and the table was created; then the queue and the
  maps are empty. Setting up again does nothing, so a failure is final.\<close>

theorem InitIfNecessary_enables:
  assumes "InitIfNecessary e w = Some w'" and "\<not> swapEnabled w"
  shows "(swapEnabled w' \<longrightarrow>
      \<not> appOnCommonBlacklist (getPackageName (proc_cmdline e)) \<and> \<not> checkStreamError (swapfile w') \<and>
      (\<exists>sp. swappedInSpace w' = Some sp \<and> space_begin sp = SWAPPED_IN_SPACE_START) \<and> IsValid (recTable w') \<and> books_ok w' \<and>
      objectOffsetMap w' = [] \<and> writeQueue w' = [] \<and> pid w' = process_id e) \<and>
    InitIfNecessary e w' = Some w'"
proof
  show "InitIfNecessary e w' = Some w'"
    using InitIfNecessary_pid [OF assms(1)] assms(1) by (auto simp: InitIfNecessary_def)
qed (use assms in \<open>auto simp: InitIfNecessary_def Let_def add_write_task_def NanoTime_def books_ok_def queue_ok_def same_keys_def
      split: option.splits prod.splits if_splits\<close>)

definition start_env :: env where
  "start_env = demo_env\<lparr>mapped_space := Some SWAPPED_IN_SPACE_START\<rparr>"

definition start_world :: world where
  "start_world = demo_world\<lparr>pid := 1, swapEnabled := False, swapfile := closed_stream,
     task_processor := Some \<lparr>is_running = True, tasks = [], running_thread = 1\<rparr>\<rparr>"

lemma start_enables: "\<exists>w'. InitIfNecessary start_env start_world = Some w' \<and> swapEnabled w'"
  by (simp add: InitIfNecessary_def getTaskProcessorChecked_def start_env_def start_world_def demo_env_def demo_world_def Let_def IsRunning_def
      appOnCommonBlacklist_def getPackageName_def openFile_def fs_open_def closed_stream_def tick_def stream_fail_def
      fs_write_def stream_good_def fs_flush_def checkStreamError_def FreeListSpace_Create_def SWAPPED_IN_SPACE_SIZE_def kAlignment_def kPageSize_def
      CreateTable_def IsValid_def NanoTime_def add_write_task_def)

theorem InitIfNecessary_enables_witness:
  "\<exists>w'. InitIfNecessary start_env start_world = Some w' \<and> swapEnabled w' \<and> IsValid (recTable w') \<and> InitIfNecessary start_env w' = Some w'"
proof -
  have "\<not> swapEnabled start_world" by (simp add: start_world_def)
  with start_enables InitIfNecessary_enables [of start_env start_world] show ?thesis by blast
qed

end
