(* ===== verification/Lock_Word.thy ===== *)
theory Lock_Word
  imports Marvin_Prelude
begin

text \<open>
  The lock word of an object (src/runtime/lock\_word.h and lock\_word-inl.h): 32 bits that hold a thin lock, the id of a
  monitor, an identity hash code or a forwarding address. Lock words are values of type \<^typ>\<open>32 word\<close>, as the class keeps
  them; its debug checks are not part of the model. Whether the runtime is built with read barriers is an argument.
\<close>

section \<open>The layout\<close>

definition kStateSize :: nat where "kStateSize = 2"
definition kReadBarrierStateSize :: nat where "kReadBarrierStateSize = 2"
definition kThinLockOwnerSize :: nat where "kThinLockOwnerSize = 16"
definition kThinLockCountSize :: nat where "kThinLockCountSize = 32 - kThinLockOwnerSize - kStateSize - kReadBarrierStateSize"
definition kThinLockOwnerShift :: nat where "kThinLockOwnerShift = 0"
definition kThinLockOwnerMask :: "32 word" where "kThinLockOwnerMask = push_bit kThinLockOwnerSize 1 - 1"
definition kThinLockCountShift :: nat where "kThinLockCountShift = kThinLockOwnerSize + kThinLockOwnerShift"
definition kThinLockCountMask :: "32 word" where "kThinLockCountMask = push_bit kThinLockCountSize 1 - 1"
definition kStateShift :: nat where "kStateShift = kReadBarrierStateSize + kThinLockCountSize + kThinLockCountShift"
definition kStateMask :: "32 word" where "kStateMask = push_bit kStateSize 1 - 1"
definition kStateThinOrUnlocked :: "32 word" where "kStateThinOrUnlocked = 0"
definition kStateFat :: "32 word" where "kStateFat = 1"
definition kStateHash :: "32 word" where "kStateHash = 2"
definition kStateForwardingAddress :: "32 word" where "kStateForwardingAddress = 3"
definition kReadBarrierStateShift :: nat where "kReadBarrierStateShift = kThinLockCountSize + kThinLockCountShift"
definition kReadBarrierStateMask :: "32 word" where "kReadBarrierStateMask = push_bit kReadBarrierStateSize 1 - 1"
definition kReadBarrierStateMaskShifted :: "32 word" where
  "kReadBarrierStateMaskShifted = push_bit kReadBarrierStateShift kReadBarrierStateMask"
definition kReadBarrierStateMaskShiftedToggled :: "32 word" where
  "kReadBarrierStateMaskShiftedToggled = NOT kReadBarrierStateMaskShifted"
definition kHashShift :: nat where "kHashShift = 0"
definition kHashSize :: nat where "kHashSize = 32 - kStateSize - kReadBarrierStateSize"
definition kHashMask :: "32 word" where "kHashMask = push_bit kHashSize 1 - 1"
definition kMonitorIdShift :: nat where "kMonitorIdShift = kHashShift"
definition kMonitorIdMask :: "32 word" where "kMonitorIdMask = kHashMask"

lemmas lock_word_layout =
  kStateSize_def kReadBarrierStateSize_def kThinLockOwnerSize_def kThinLockCountSize_def kThinLockOwnerShift_def
  kThinLockOwnerMask_def kThinLockCountShift_def kThinLockCountMask_def kStateShift_def kStateMask_def
  kStateThinOrUnlocked_def kStateFat_def kStateHash_def kStateForwardingAddress_def kReadBarrierStateShift_def
  kReadBarrierStateMask_def kReadBarrierStateMaskShifted_def kReadBarrierStateMaskShiftedToggled_def
  kHashShift_def kHashSize_def kHashMask_def kMonitorIdShift_def kMonitorIdMask_def

section \<open>Making lock words\<close>

text \<open>A thread id, count or hash code that does not fit is fatal.\<close>

definition FromThinLockId :: "32 word \<Rightarrow> 32 word \<Rightarrow> 32 word \<Rightarrow> 32 word option" where
  "FromThinLockId thread_id count' rb_state =
     (if \<not> thread_id \<le> kThinLockOwnerMask then None
      else if \<not> count' \<le> kThinLockCountMask then None
      else Some (push_bit kThinLockOwnerShift thread_id OR push_bit kThinLockCountShift count' OR
                 push_bit kReadBarrierStateShift rb_state OR push_bit kStateShift kStateThinOrUnlocked))"

definition FromForwardingAddress :: "32 word \<Rightarrow> 32 word" where
  "FromForwardingAddress target = drop_bit kStateSize target OR push_bit kStateShift kStateForwardingAddress"

definition FromHashCode :: "32 word \<Rightarrow> 32 word \<Rightarrow> 32 word option" where
  "FromHashCode hash_code rb_state =
     (if \<not> hash_code \<le> kHashMask then None
      else Some (push_bit kHashShift hash_code OR push_bit kReadBarrierStateShift rb_state OR push_bit kStateShift kStateHash))"

definition FromDefault :: "32 word \<Rightarrow> 32 word" where
  "FromDefault rb_state = push_bit kReadBarrierStateShift rb_state"

definition Default :: "32 word" where
  "Default = 0"

definition IsDefault :: "32 word \<Rightarrow> bool" where
  "IsDefault lw \<longleftrightarrow> Default = lw"

text \<open>The constructor for inflation; a monitor is given by its id.\<close>

definition FromMonitor :: "32 word \<Rightarrow> 32 word \<Rightarrow> 32 word" where
  "FromMonitor mon_id rb_state = mon_id OR push_bit kReadBarrierStateShift rb_state OR push_bit kStateShift kStateFat"

section \<open>Reading lock words\<close>

datatype LockState = kUnlocked | kThinLocked | kFatLocked | kHashCode | kForwardingAddress

definition GetState :: "bool \<Rightarrow> 32 word \<Rightarrow> LockState" where
  "GetState kUseReadBarrier value' =
     (if (\<not> kUseReadBarrier \<and> value' = 0) \<or> (kUseReadBarrier \<and> value' AND kReadBarrierStateMaskShiftedToggled = 0)
      then kUnlocked
      else
        let internal_state = drop_bit kStateShift value' AND kStateMask
        in if internal_state = kStateThinOrUnlocked then kThinLocked
           else if internal_state = kStateHash then kHashCode
           else if internal_state = kStateForwardingAddress then kForwardingAddress
           else kFatLocked)"

definition ReadBarrierState :: "32 word \<Rightarrow> 32 word" where
  "ReadBarrierState value' = drop_bit kReadBarrierStateShift value' AND kReadBarrierStateMask"

definition SetReadBarrierState :: "32 word \<Rightarrow> 32 word \<Rightarrow> 32 word" where
  "SetReadBarrierState rb_state value' =
     (let value' = value' AND NOT (push_bit kReadBarrierStateShift kReadBarrierStateMask)
      in value' OR push_bit kReadBarrierStateShift (rb_state AND kReadBarrierStateMask))"

definition ThinLockOwner :: "32 word \<Rightarrow> 32 word" where
  "ThinLockOwner value' = drop_bit kThinLockOwnerShift value' AND kThinLockOwnerMask"

definition ThinLockCount :: "32 word \<Rightarrow> 32 word" where
  "ThinLockCount value' = drop_bit kThinLockCountShift value' AND kThinLockCountMask"

definition FatLockMonitor :: "32 word \<Rightarrow> 32 word" where
  "FatLockMonitor value' = drop_bit kMonitorIdShift value' AND kMonitorIdMask"

definition ForwardingAddress :: "32 word \<Rightarrow> 32 word" where
  "ForwardingAddress value' = push_bit kStateSize value'"

definition LockWord_GetHashCode :: "32 word \<Rightarrow> 32 word" where
  "LockWord_GetHashCode value' = drop_bit kHashShift value' AND kHashMask"

definition GetValueWithoutReadBarrierState :: "32 word \<Rightarrow> 32 word" where
  "GetValueWithoutReadBarrierState value' = value' AND NOT (push_bit kReadBarrierStateShift kReadBarrierStateMask)"

definition LockWord_Equal :: "bool \<Rightarrow> 32 word \<Rightarrow> 32 word \<Rightarrow> bool" where
  "LockWord_Equal kIncludeReadBarrierState lw1 lw2 \<longleftrightarrow>
     (if kIncludeReadBarrierState then lw1 = lw2
      else GetValueWithoutReadBarrierState lw1 = GetValueWithoutReadBarrierState lw2)"

section \<open>Fields as bit ranges\<close>

lemma lock_word_fields:
  "ThinLockOwner v = take_bit 16 v" "ThinLockCount v = take_bit 12 (drop_bit 16 v)" "ReadBarrierState v = take_bit 2 (drop_bit 28 v)"
  "LockWord_GetHashCode v = take_bit 28 v" "FatLockMonitor v = take_bit 28 v" "ForwardingAddress v = push_bit 2 v"
  by (simp_all add: ThinLockOwner_def ThinLockCount_def ReadBarrierState_def LockWord_GetHashCode_def FatLockMonitor_def
      ForwardingAddress_def lock_word_layout take_bit_eq_mask mask_eq_exp_minus_1)

lemma lock_word_makers:
  "FromThinLockId t c rb = (if t < 2 ^ 16 \<and> c < 2 ^ 12 then Some (t OR push_bit 16 c OR push_bit 28 rb) else None)"
  "FromForwardingAddress a = drop_bit 2 a OR push_bit 30 3"
  "FromHashCode h rb = (if h < 2 ^ 28 then Some (h OR push_bit 28 rb OR push_bit 30 2) else None)"
  "FromDefault rb = push_bit 28 rb" "FromMonitor i rb = i OR push_bit 28 rb OR push_bit 30 1"
  by (auto simp: FromThinLockId_def FromForwardingAddress_def FromHashCode_def FromDefault_def FromMonitor_def lock_word_layout
      word_le_nat_alt word_less_nat_alt)

lemma GetState_eq:
  "GetState b v =
     (if (if b then take_bit 28 v = 0 \<and> drop_bit 30 v = 0 else v = 0) then kUnlocked
      else if drop_bit 30 v = 0 then kThinLocked
      else if drop_bit 30 v = 2 then kHashCode
      else if drop_bit 30 v = 3 then kForwardingAddress else kFatLocked)"
proof -
  have masks: "(3 :: 32 word) = mask 2" "(0x30000000 :: 32 word) = push_bit 28 (mask 2)"
    by (simp_all add: mask_eq_exp_minus_1)
  have top: "drop_bit 30 v AND 3 = drop_bit 30 v"
    unfolding masks(1) by (rule bit_eqI) (auto simp: bit_simps dest: bit_imp_le_length)
  have zero: "v AND NOT 0x30000000 = 0 \<longleftrightarrow> take_bit 28 v = 0 \<and> drop_bit 30 v = 0" (is "?l \<longleftrightarrow> ?r")
  proof
    assume l: ?l
    have "\<not> bit v n" if "n < 28 \<or> 30 \<le> n" for n
    proof
      assume b: "bit v n"
      then have "n < 32" using bit_imp_le_length [OF b] by simp
      with b that have "bit (v AND NOT (push_bit 28 (mask 2))) n"
        by (auto simp: bit_simps)
      with l show False unfolding masks(2) by simp
    qed
    then show ?r by (intro conjI; intro bit_eqI) (simp_all add: bit_simps)
  next
    assume r: ?r
    have clear: "\<not> bit v n" if "n < 28 \<or> 30 \<le> n" for n
      using arg_cong [OF conjunct1 [OF r], of "\<lambda>x. bit x n"] arg_cong [OF conjunct2 [OF r], of "\<lambda>x. bit x (n - 30)"] that
      by (auto simp: bit_simps)
    have "28 \<le> n \<and> n - 28 < 2" if "bit v n" for n
      using that clear [of n] by (cases "n < 28 \<or> 30 \<le> n") auto
    then show ?l unfolding masks(2) by (intro bit_eqI) (auto simp: bit_simps)
  qed
  have "push_bit 28 (3 :: 32 word) = 0x30000000" by simp
  with top zero show ?thesis by (simp add: GetState_def lock_word_layout Let_def)
qed

section \<open>What a lock word says\<close>

text \<open>The four layouts of the header's comment and the unlocked word, as a datatype: what a lock word
  decodes to, and the constructor that makes it.\<close>

datatype lock_view =
    Unlocked "32 word"
  | Thin "32 word" "32 word" "32 word"
  | Fat "32 word" "32 word"
  | Hash "32 word" "32 word"
  | Forward "32 word"

definition lw_view :: "bool \<Rightarrow> 32 word \<Rightarrow> lock_view" where
  "lw_view b v =
     (case GetState b v of
        kUnlocked \<Rightarrow> Unlocked (ReadBarrierState v)
      | kThinLocked \<Rightarrow> Thin (ThinLockOwner v) (ThinLockCount v) (ReadBarrierState v)
      | kFatLocked \<Rightarrow> Fat (FatLockMonitor v) (ReadBarrierState v)
      | kHashCode \<Rightarrow> Hash (LockWord_GetHashCode v) (ReadBarrierState v)
      | kForwardingAddress \<Rightarrow> Forward (ForwardingAddress v))"

fun lw_make :: "lock_view \<Rightarrow> 32 word option" where
  "lw_make (Unlocked rb) = Some (FromDefault rb)"
| "lw_make (Thin t c rb) = FromThinLockId t c rb"
| "lw_make (Fat i rb) = Some (FromMonitor i rb)"
| "lw_make (Hash h rb) = FromHashCode h rb"
| "lw_make (Forward a) = Some (FromForwardingAddress a)"

text \<open>The arguments the debug checks of the constructors ask for. A thin lock is not all zero; without read barriers
  their state is 0.\<close>

fun lw_view_ok :: "bool \<Rightarrow> lock_view \<Rightarrow> bool" where
  "lw_view_ok b (Unlocked rb) \<longleftrightarrow> rb < (if b then 4 else 1)"
| "lw_view_ok b (Thin t c rb) \<longleftrightarrow> t < 2 ^ 16 \<and> c < 2 ^ 12 \<and> rb < 4 \<and> (t \<noteq> 0 \<or> c \<noteq> 0 \<or> \<not> b \<and> rb \<noteq> 0)"
| "lw_view_ok b (Fat i rb) \<longleftrightarrow> i < 2 ^ 28 \<and> rb < 4"
| "lw_view_ok b (Hash h rb) \<longleftrightarrow> h < 2 ^ 28 \<and> rb < 4"
| "lw_view_ok b (Forward a) \<longleftrightarrow> take_bit 2 a = 0"

lemma lock_word_split:
  "v = take_bit 28 v OR push_bit 28 (take_bit 2 (drop_bit 28 v)) OR push_bit 30 (drop_bit 30 v)" (is ?a) 
  "take_bit 28 v = take_bit 16 v OR push_bit 16 (take_bit 12 (drop_bit 16 v))" (is ?b)
  "v = drop_bit 2 (push_bit 2 v) OR push_bit 30 (drop_bit 30 v)" (is ?c) for v :: "32 word"
proof -
  show ?a
    by (rule bit_eqI) (subgoal_tac "n < 28 \<or> n < 30 \<and> 28 \<le> n \<or> 30 \<le> n", auto simp: bit_simps dest: bit_imp_le_length)
  show ?b
    by (rule bit_eqI) (subgoal_tac "n < 16 \<or> n < 28 \<and> 16 \<le> n \<or> 28 \<le> n", auto simp: bit_simps dest: bit_imp_le_length)
  show ?c
    by (rule bit_eqI) (subgoal_tac "n < 30 \<or> 30 \<le> n", auto simp: bit_simps dest: bit_imp_le_length)
qed

lemma lock_word_bounds:
  "unat (take_bit 16 v) < 65536" "unat (take_bit 12 v) < 4096" "unat (take_bit 28 v) < 268435456" 
  "drop_bit 30 v = 0 \<or> drop_bit 30 v = 1 \<or> drop_bit 30 v = 2 \<or> drop_bit 30 v = 3"
  for v :: "32 word"
proof -
  show "unat (take_bit 16 v) < 65536" "unat (take_bit 12 v) < 4096" "unat (take_bit 28 v) < 268435456" 
    using take_bit_nat_less_exp [of 16 "unat v"] take_bit_nat_less_exp [of 12 "unat v"] take_bit_nat_less_exp [of 28 "unat v"]
    by (simp_all add: unsigned_take_bit_eq)
  have "unat v < 2 ^ LENGTH(32)" by (rule unsigned_less)
  then have "unat (drop_bit 30 v) < 4"
    by (simp add: unsigned_drop_bit_eq) (simp add: drop_bit_eq_div take_bit_nat_eq_self)
  then have "unat (drop_bit 30 v) \<in> {0, 1, 2, 3}" by auto
  then show "drop_bit 30 v = 0 \<or> drop_bit 30 v = 1 \<or> drop_bit 30 v = 2 \<or> drop_bit 30 v = 3"
    by (auto simp: word_unat_eq_iff)
qed

lemma make_view: "lw_make (lw_view b v) = Some v"
proof -
  note whole = lock_word_split(1) [of v, symmetric] lock_word_split(3) [of v, symmetric]
  note defs = lw_view_def GetState_eq lock_word_makers lock_word_fields lock_word_bounds word_less_nat_alt
  consider "drop_bit 30 v = 0" | "drop_bit 30 v = 1" | "drop_bit 30 v = 2" | "drop_bit 30 v = 3"
    using lock_word_bounds(4) [of v] by blast
  then show ?thesis
  proof cases
    case 1
    then have low: "take_bit 28 v OR push_bit 28 (take_bit 2 (drop_bit 28 v)) = v"
      using whole(1) by simp
    then have thin: "take_bit 16 v OR push_bit 16 (take_bit 12 (drop_bit 16 v)) OR push_bit 28 (take_bit 2 (drop_bit 28 v)) = v"
      by (simp add: lock_word_split(2) [of v] or.assoc)
    show ?thesis
      using 1 low thin by (cases "b \<and> take_bit 28 v = 0"; cases "v = 0") (auto simp: defs)
  next
    case 2
    then show ?thesis using whole(1) by (simp add: defs)
  next
    case 3
    then show ?thesis using whole(1) by (simp add: defs)
  next
    case 4
    then show ?thesis using whole(2) by (simp add: defs)
  qed
qed

lemma lock_word_fields_of:
  fixes a rb st :: "32 word"
  assumes "unat a < 2 ^ 28" and "unat rb < 2 ^ 2" and "unat st < 2 ^ 2"
  shows "take_bit 28 (a OR push_bit 28 rb OR push_bit 30 st) = a"
    "take_bit 2 (drop_bit 28 (a OR push_bit 28 rb OR push_bit 30 st)) = rb"
    "drop_bit 30 (a OR push_bit 28 rb OR push_bit 30 st) = st"
proof -
  have bits: "bit a n \<Longrightarrow> n < 28" "bit rb n \<Longrightarrow> n < 2" "bit st n \<Longrightarrow> n < 2" for n
    using assms bit_small by blast+
  show "take_bit 28 (a OR push_bit 28 rb OR push_bit 30 st) = a"
    by (rule bit_eqI) (auto simp: bit_simps dest: bits)
  show "take_bit 2 (drop_bit 28 (a OR push_bit 28 rb OR push_bit 30 st)) = rb"
    by (rule bit_eqI) (auto simp: bit_simps dest: bits)
  show "drop_bit 30 (a OR push_bit 28 rb OR push_bit 30 st) = st"
    by (rule bit_eqI) (auto simp: bit_simps dest: bits)
qed

lemma thin_fields_of:
  fixes t c :: "32 word"
  assumes "unat t < 2 ^ 16" and "unat c < 2 ^ 12"
  shows "unat (t OR push_bit 16 c) < 2 ^ 28"
    "take_bit 16 (t OR push_bit 16 c) = t" "take_bit 12 (drop_bit 16 (t OR push_bit 16 c)) = c"
proof -
  have bits: "bit t n \<Longrightarrow> n < 16" "bit c n \<Longrightarrow> n < 12" for n
    using assms bit_small by blast+
  have all: "take_bit 28 (t OR push_bit 16 c) = t OR push_bit 16 c"
    by (rule bit_eqI) (auto simp: bit_simps dest: bits)
  show "unat (t OR push_bit 16 c) < 2 ^ 28"
    using lock_word_bounds(3) [of "t OR push_bit 16 c"] unfolding all by simp
  show "take_bit 16 (t OR push_bit 16 c) = t"
    by (rule bit_eqI) (auto simp: bit_simps dest: bits)
  show "take_bit 12 (drop_bit 16 (t OR push_bit 16 c)) = c"
    by (rule bit_eqI) (auto simp: bit_simps dest: bits)
qed

lemma thin_low:
  fixes lw t c rb :: "32 word"
  assumes "lw = t OR push_bit 16 c OR push_bit 28 rb" "unat t < 2 ^ 16" "unat c < 2 ^ 12" "unat rb < 2 ^ 2"
  shows "take_bit 28 lw = t OR push_bit 16 c" "take_bit 16 lw = t" "take_bit 12 (drop_bit 16 lw) = c"
    "take_bit 2 (drop_bit 28 lw) = rb" "drop_bit 30 lw = 0"
proof -
  have lw: "lw = (t OR push_bit 16 c) OR push_bit 28 rb OR push_bit 30 0"
    using assms(1) by (simp add: or.assoc)
  note parts = lock_word_fields_of [OF thin_fields_of(1) [OF assms(2,3)] assms(4), of 0, folded lw]
  show low: "take_bit 28 lw = t OR push_bit 16 c" and "take_bit 2 (drop_bit 28 lw) = rb" "drop_bit 30 lw = 0"
    using parts by simp_all
  have "take_bit 16 lw = take_bit 16 (take_bit 28 lw)" "take_bit 12 (drop_bit 16 lw) = take_bit 12 (drop_bit 16 (take_bit 28 lw))"
    by (simp, rule bit_eqI, auto simp: bit_simps)
  then show "take_bit 16 lw = t" "take_bit 12 (drop_bit 16 lw) = c"
    unfolding low by (simp_all only: thin_fields_of(2,3) [OF assms(2,3)])
qed

lemma view_thin:
  "drop_bit 30 lw = 0 \<Longrightarrow> (if b then take_bit 28 lw \<noteq> 0 else lw \<noteq> 0)
     \<Longrightarrow> lw_view b lw = Thin (take_bit 16 lw) (take_bit 12 (drop_bit 16 lw)) (take_bit 2 (drop_bit 28 lw))"
  by (simp add: lw_view_def GetState_eq lock_word_fields split: if_splits)

lemma view_other:
  "drop_bit 30 lw = 1 \<Longrightarrow> lw_view b lw = Fat (take_bit 28 lw) (take_bit 2 (drop_bit 28 lw))"
  "drop_bit 30 lw = 2 \<Longrightarrow> lw_view b lw = Hash (take_bit 28 lw) (take_bit 2 (drop_bit 28 lw))"
  "drop_bit 30 lw = 3 \<Longrightarrow> lw_view b lw = Forward (push_bit 2 lw)"
  by (cases "lw = 0"; simp add: lw_view_def GetState_eq lock_word_fields)+

lemma make_Thin:
  assumes "lw_view_ok b (Thin t c rb)"
  shows "\<exists>lw. lw_make (Thin t c rb) = Some lw \<and> lw_view b lw = Thin t c rb"
proof -
  have small: "unat t < 2 ^ 16" "unat c < 2 ^ 12" "unat rb < 2 ^ 2" and nz: "t \<noteq> 0 \<or> c \<noteq> 0 \<or> \<not> b \<and> rb \<noteq> 0"
    using assms by (simp_all add: word_less_nat_alt)
  define lw where "lw = t OR push_bit 16 c OR push_bit 28 rb"
  note parts = thin_low [OF lw_def small]
  have "take_bit 28 lw \<noteq> 0" if "t \<noteq> 0 \<or> c \<noteq> 0"
    using that thin_fields_of(2,3) [OF small(1,2)] unfolding parts(1) by (metis drop_bit_of_0 take_bit_of_0)
  then have "if b then take_bit 28 lw \<noteq> 0 else lw \<noteq> 0"
    using nz parts(4) by auto
  from view_thin [OF parts(5) this] show ?thesis
    using small by (simp add: parts lock_word_makers lw_def [symmetric] word_less_nat_alt)
qed

lemma view_make:
  assumes "lw_view_ok b x"
  shows "\<exists>lw. lw_make x = Some lw \<and> lw_view b lw = x"
proof (cases x)
  case (Thin t c rb)
  with assms make_Thin show ?thesis by simp
next
  case (Unlocked rb)
  then have small: "unat rb < 2 ^ 2" "b \<or> rb = 0"
    using assms by (auto simp: word_less_nat_alt word_unat_eq_iff split: if_splits)
  define lw where "lw = push_bit 28 rb"
  have "take_bit 28 lw = 0" "take_bit 2 (drop_bit 28 lw) = rb" "drop_bit 30 lw = 0"
    using lock_word_fields_of [of 0 rb 0] small unfolding lw_def by simp_all
  then show ?thesis
    using small Unlocked by (auto simp: lw_view_def GetState_eq lock_word_makers lock_word_fields lw_def [symmetric]) (simp add: lw_def)
next
  case (Fat i rb)
  then have small: "unat i < 2 ^ 28" "unat rb < 2 ^ 2" using assms by (auto simp: word_less_nat_alt)
  define lw where "lw = i OR push_bit 28 rb OR push_bit 30 1"
  have "take_bit 28 lw = i" "take_bit 2 (drop_bit 28 lw) = rb" "drop_bit 30 lw = 1"
    using lock_word_fields_of [of i rb 1] small unfolding lw_def by simp_all
  moreover have "lw_make x = Some lw" unfolding Fat lw_def by (simp add: lock_word_makers)
  ultimately show ?thesis using Fat by (simp add: view_other)
next
  case (Hash h rb)
  then have small: "unat h < 2 ^ 28" "unat rb < 2 ^ 2" using assms by (auto simp: word_less_nat_alt)
  define lw where "lw = h OR push_bit 28 rb OR push_bit 30 2"
  have "take_bit 28 lw = h" "take_bit 2 (drop_bit 28 lw) = rb" "drop_bit 30 lw = 2"
    using lock_word_fields_of [of h rb 2] small unfolding lw_def by simp_all
  moreover have "lw_make x = Some lw" unfolding Hash lw_def using small by (simp add: lock_word_makers word_less_nat_alt)
  ultimately show ?thesis using Hash by (simp add: view_other)
next
  case (Forward a)
  have three: "(3 :: 32 word) = mask 2" by (simp add: mask_eq_exp_minus_1)
  define lw where "lw = drop_bit 2 a OR push_bit 30 3"
  have "drop_bit 30 lw = 3"
    unfolding three lw_def by (rule bit_eqI) (auto simp: bit_simps dest: bit_imp_le_length)
  moreover have "push_bit 2 lw = a"
  proof (rule bit_eqI)
    fix n
    have low: "\<not> bit a n" if "n < 2"
      using that assms Forward bit_take_bit_iff [of 2 a n] by simp
    show "bit (push_bit 2 lw) n = bit a n"
    proof (cases "n < 2")
      case False
      then obtain k where n: "n = k + 2" by (metis le_add_diff_inverse2 not_less)
      show ?thesis
        unfolding three lw_def n using bit_imp_le_length [of a "k + 2"] by (auto simp: bit_simps)
    qed (use low in \<open>simp add: bit_simps\<close>)
  qed
  moreover have "lw_make x = Some lw" unfolding Forward lw_def by (simp add: lock_word_makers)
  ultimately show ?thesis using Forward by (simp add: view_other)
qed

text \<open>C36. The layout of lock words loses nothing: every 32-bit value decodes to one of the five states, and encoding that state
  again gives the value; and what the constructors make of arguments within their fields decodes to those arguments.\<close>

theorem lock_word_roundtrip:
  "lw_make (lw_view b v) = Some v \<and> (lw_view_ok b x \<longrightarrow> (\<exists>lw. lw_make x = Some lw \<and> lw_view b lw = x))"
  using make_view view_make by blast

theorem lock_word_roundtrip_witness:
  "lw_make (lw_view True 0x12345678) = Some 0x12345678 \<and> (\<exists>lw. lw_make (Thin 7 3 1) = Some lw \<and> lw_view True lw = Thin 7 3 1)"
  using lock_word_roundtrip [of True "0x12345678" "Thin 7 3 1"] by (simp add: word_less_nat_alt)

end
