(* ===== verification/Monitors.thy ===== *)
theory Monitors
  imports Lock_Word
begin

text \<open>Java monitors (\<^verbatim>\<open>runtime/monitor.cc\<close> and \<^verbatim>\<open>IdentityHashCode\<close> of \<^verbatim>\<open>mirror/object.cc\<close>): an object's lock is a few bits
  of its lock word while that is enough, and a separate monitor otherwise. The operations are given as what a thread does
  between two accesses to shared state, and their interleaving as a step relation. The object is a real one that stays
  where it is: a call on a stub is the call on its object, which \<^verbatim>\<open>SWAP_PREAMBLE\<close> makes before anything else, and no moving
  collection changes \<^verbatim>\<open>this\<close>.\<close>

section \<open>Monitors\<close>

text \<open>A monitor. Threads are given by their ids, so the owner pointer is an optional id; the object pointer is only null
  or not; the two fields for lock profiling are left out. The recursion count is a natural number: an overflow of the
  machine integer would take two thousand million nested entries.\<close>

type_synonym tid = "32 word"

record Monitor =
  mon_owner :: "tid option"
  lock_count :: nat
  num_waiters :: nat
  wait_set :: "tid list"
  hash_code :: "32 word"
  has_obj :: bool
  monitor_id :: "32 word"

text \<open>The constructor. \<^verbatim>\<open>susp\<close> says which threads are suspended; None is a failed check.\<close>

definition new_Monitor :: "(tid \<Rightarrow> bool) \<Rightarrow> tid \<Rightarrow> tid option \<Rightarrow> 32 word \<Rightarrow> 32 word \<Rightarrow> Monitor option" where
  "new_Monitor susp self owner hash id' =
     (if owner = None \<or> owner = Some self \<or> susp (the owner)
      then Some \<lparr>mon_owner = owner, lock_count = 0, num_waiters = 0, wait_set = [], hash_code = hash, has_obj = True,
                 monitor_id = id'\<rparr>
      else None)"

definition HasHashCode :: "Monitor \<Rightarrow> bool" where
  "HasHashCode m \<longleftrightarrow> hash_code m \<noteq> 0"

text \<open>The generator of identity hash codes, from the seed it reads; the loop skips seeds whose hash would be 0.\<close>

lemma next_seed_has_hash:
  fixes s :: "32 word"
  assumes "s AND kHashMask = 0"
  shows "(s * 1103515245 + 12345) AND kHashMask \<noteq> 0"
proof -
  have m: "kHashMask = mask 28" by (simp add: lock_word_layout mask_eq_exp_minus_1)
  let ?v = "s * 1103515245 + 12345"
  have low: "unat (w AND kHashMask) = unat w mod 2 ^ 28" for w :: "32 word"
    by (simp add: m flip: take_bit_eq_mask) (simp add: take_bit_eq_mod unat_mod)
  from assms low [of s] have "unat s mod 2 ^ 28 = 0" by simp
  then obtain q where q: "unat s = 2 ^ 28 * q" by (metis mod_0_imp_dvd dvdE)
  have "unat ?v = (unat s * 1103515245 + 12345) mod 2 ^ 32" by (simp add: unat_word_ariths mod_simps)
  then have "unat ?v mod 2 ^ 28 = (unat s * 1103515245 + 12345) mod 2 ^ 28"
    by (simp add: mod_mod_cancel)
  also have "\<dots> = (2 ^ 28 * (q * 1103515245) + 12345) mod 2 ^ 28" by (simp only: q mult.assoc)
  also have "\<dots> = 12345" by (subst mod_mult_self4) simp
  finally show ?thesis using low [of ?v] by auto
qed

function GenerateIdentityHashCode :: "32 word \<Rightarrow> 32 word \<times> 32 word" where
  "GenerateIdentityHashCode seed =
     (let expected_value = seed; new_value = expected_value * 1103515245 + 12345
      in if expected_value AND kHashMask = 0 then GenerateIdentityHashCode new_value
         else (expected_value AND kHashMask, new_value))"
  by pat_completeness auto
termination
  by (relation "measure (\<lambda>s. if s AND kHashMask = 0 then 1 else 0)") (use next_seed_has_hash in auto)

declare GenerateIdentityHashCode.simps [simp del]

definition Monitor_GetHashCode :: "32 word \<Rightarrow> Monitor \<Rightarrow> 32 word \<times> Monitor" where
  "Monitor_GetHashCode seed m =
     (let m = (if HasHashCode m then m else m\<lparr>hash_code := fst (GenerateIdentityHashCode seed)\<rparr>)
      in (hash_code m, m))"

text \<open>The part of \<^verbatim>\<open>Install\<close> before the lock word is published: the lock word that was read decides. The result is
  \<^term>\<open>None\<close> for a fatal error, \<^term>\<open>Some None\<close> when another monitor was installed first.\<close>

definition Install_state :: "bool \<Rightarrow> (tid \<Rightarrow> bool) \<Rightarrow> tid \<Rightarrow> 32 word \<Rightarrow> Monitor \<Rightarrow> Monitor option option" where
  "Install_state b susp self lw m =
     (if \<not> (mon_owner m = None \<or> mon_owner m = Some self \<or> susp (the (mon_owner m))) then None
      else case GetState b lw of
          kThinLocked \<Rightarrow>
            (if mon_owner m = Some (ThinLockOwner lw) then Some (Some (m\<lparr>lock_count := unat (ThinLockCount lw)\<rparr>)) else None)
        | kHashCode \<Rightarrow> (if hash_code m = LockWord_GetHashCode lw then Some (Some m) else None)
        | kFatLocked \<Rightarrow> Some None
        | kUnlocked \<Rightarrow> None
        | kForwardingAddress \<Rightarrow> None)"

text \<open>The wait set is a linked list through the threads; here it is the list of its threads.\<close>

definition AppendToWaitSet :: "tid \<Rightarrow> Monitor \<Rightarrow> Monitor" where
  "AppendToWaitSet thread m = m\<lparr>wait_set := wait_set m @ [thread]\<rparr>"

definition RemoveFromWaitSet :: "tid \<Rightarrow> Monitor \<Rightarrow> Monitor" where
  "RemoveFromWaitSet thread m = m\<lparr>wait_set := remove1 thread (wait_set m)\<rparr>"

definition TryLockLocked :: "tid \<Rightarrow> Monitor \<Rightarrow> (bool \<times> Monitor) option" where
  "TryLockLocked self m =
     (case mon_owner m of
        None \<Rightarrow> if lock_count m \<noteq> 0 then None else Some (True, m\<lparr>mon_owner := Some self\<rparr>)
      | Some owner \<Rightarrow> if owner = self then Some (True, m\<lparr>lock_count := lock_count m + 1\<rparr>) else Some (False, m))"

text \<open>One round of \<^verbatim>\<open>Lock\<close> under the monitor's mutex: the attempt, and when it fails the announcement that keeps the
  monitor inflated. A round after a wait first withdraws that announcement.\<close>

definition Lock_round :: "tid \<Rightarrow> Monitor \<Rightarrow> (bool \<times> Monitor) option" where
  "Lock_round self m =
     (case TryLockLocked self m of
        None \<Rightarrow> None
      | Some (locked, m) \<Rightarrow> Some (locked, if locked then m else m\<lparr>num_waiters := num_waiters m + 1\<rparr>))"

definition Lock_again :: "tid \<Rightarrow> Monitor \<Rightarrow> (bool \<times> Monitor) option" where
  "Lock_again self m = Lock_round self (m\<lparr>num_waiters := num_waiters m - 1\<rparr>)"

definition Monitor_Unlock :: "tid \<Rightarrow> Monitor \<Rightarrow> bool \<times> Monitor" where
  "Monitor_Unlock self m =
     (if mon_owner m = Some self
      then (True, if lock_count m = 0 then m\<lparr>mon_owner := None\<rparr> else m\<lparr>lock_count := lock_count m - 1\<rparr>)
      else (False, m))"

datatype wait_start = WaitNotOwner | WaitBadTimeout | WaitStarted nat Monitor

text \<open>\<^verbatim>\<open>Wait\<close> up to the point where the mutex is released, and from the point where the monitor is locked again.\<close>

definition Wait_release :: "tid \<Rightarrow> int \<Rightarrow> int \<Rightarrow> Monitor \<Rightarrow> wait_start" where
  "Wait_release self ms ns m =
     (if mon_owner m \<noteq> Some self then WaitNotOwner
      else if ms < 0 \<or> ns < 0 \<or> ns > 999999 then WaitBadTimeout
      else
        let m = AppendToWaitSet self m;
            m = m\<lparr>num_waiters := num_waiters m + 1\<rparr>;
            prev_lock_count = lock_count m
        in WaitStarted prev_lock_count (m\<lparr>lock_count := 0, mon_owner := None\<rparr>))"

definition Wait_restore :: "tid \<Rightarrow> nat \<Rightarrow> Monitor \<Rightarrow> Monitor" where
  "Wait_restore self prev_lock_count m =
     RemoveFromWaitSet self (m\<lparr>mon_owner := Some self, lock_count := prev_lock_count, num_waiters := num_waiters m - 1\<rparr>)"

text \<open>\<^verbatim>\<open>still\<close> says of a thread that it is still waiting. The result is the thread that is signalled and the rest of the
  wait set.\<close>

fun notify_first :: "(tid \<Rightarrow> bool) \<Rightarrow> tid list \<Rightarrow> tid option \<times> tid list" where
  "notify_first still [] = (None, [])"
| "notify_first still (thread # rest) = (if still thread then (Some thread, rest) else notify_first still rest)"

definition Monitor_Notify :: "(tid \<Rightarrow> bool) \<Rightarrow> tid \<Rightarrow> Monitor \<Rightarrow> bool \<times> Monitor" where
  "Monitor_Notify still self m =
     (if mon_owner m \<noteq> Some self then (False, m) else (True, m\<lparr>wait_set := snd (notify_first still (wait_set m))\<rparr>))"

definition Monitor_NotifyAll :: "tid \<Rightarrow> Monitor \<Rightarrow> bool \<times> Monitor" where
  "Monitor_NotifyAll self m = (if mon_owner m \<noteq> Some self then (False, m) else (True, m\<lparr>wait_set := []\<rparr>))"

text \<open>What \<^verbatim>\<open>Deflate\<close> writes to the lock word, from the old lock word and its monitor: \<^term>\<open>Some None\<close> when the monitor
  cannot be deflated.\<close>

definition deflated_word :: "32 word \<Rightarrow> Monitor \<Rightarrow> 32 word option option" where
  "deflated_word lw m =
     (if num_waiters m > 0 then Some None
      else case mon_owner m of
          Some owner \<Rightarrow>
            (if HasHashCode m then Some None
             else if lock_count m > unat kThinLockCountMask then Some None
             else (case FromThinLockId owner (of_nat (lock_count m)) (ReadBarrierState lw) of None \<Rightarrow> None | Some new_lw \<Rightarrow> Some (Some new_lw)))
        | None \<Rightarrow>
            (if HasHashCode m
             then (case FromHashCode (hash_code m) (ReadBarrierState lw) of None \<Rightarrow> None | Some new_lw \<Rightarrow> Some (Some new_lw))
             else Some (Some (FromDefault (ReadBarrierState lw)))))"

section \<open>Threads at one object\<close>

text \<open>Where a thread is in the code, for one object whose lock word several threads use. A constructor that ends in
  \<^verbatim>\<open>Read\<close> holds the lock word read at the top of the loop. \<^verbatim>\<open>cont\<close> is where an inflation returns to, \<^verbatim>\<open>lock_ret\<close>
  what \<^verbatim>\<open>Lock\<close> returns to.\<close>

datatype cont = AfterEnter bool nat | AfterHash | AfterWait int int

datatype lock_ret = RetEnter | RetWait nat

datatype pc =
    Running
  | EnterLoop bool nat
  | EnterRead bool nat "32 word"
  | ExitLoop
  | ExitRead "32 word"
  | HashLoop
  | HashRead "32 word"
  | WaitLoop int int
  | WaitRead int int "32 word"
  | NotifyLoop bool
  | NotifyRead bool "32 word"
  | SuspendOwner cont tid "32 word"
  | OwnerSuspended cont tid "32 word"
  | Installing cont "tid option" Monitor
  | Publishing cont "tid option" Monitor "32 word"
  | Listing cont "tid option" "32 word"
  | Contending lock_ret "32 word"
  | Waiting "32 word" nat
  | Woken "32 word" nat
  | Restoring "32 word" nat

record conf =
  lock_word :: "32 word"
  monitors :: "32 word \<Rightarrow> Monitor option"
  monitor_list :: "32 word list"
  threads :: "tid list"
  pcs :: "tid \<Rightarrow> pc"

fun resume_at :: "cont \<Rightarrow> pc" where
  "resume_at (AfterEnter trylock contention_count) = EnterLoop trylock contention_count"
| "resume_at AfterHash = HashLoop"
| "resume_at (AfterWait ms ns) = WaitLoop ms ns"

text \<open>The thread that a thread keeps suspended while it inflates, and the places where a thread may be suspended: managed
  code, and blocked or waiting states. The tops of the loops are counted among them.\<close>

fun suspends :: "pc \<Rightarrow> tid option" where
  "suspends (OwnerSuspended k owner hash) = Some owner"
| "suspends (Installing k s m) = s"
| "suspends (Publishing k s m lw) = s"
| "suspends (Listing k s i) = s"
| "suspends _ = None"

fun safe_point :: "pc \<Rightarrow> bool" where
  "safe_point Running = True"
| "safe_point (EnterLoop _ _) = True"
| "safe_point ExitLoop = True"
| "safe_point HashLoop = True"
| "safe_point (WaitLoop _ _) = True"
| "safe_point (NotifyLoop _) = True"
| "safe_point (SuspendOwner _ _ _) = True"
| "safe_point (OwnerSuspended _ _ _) = True"
| "safe_point (Contending _ _) = True"
| "safe_point (Waiting _ _) = True"
| "safe_point _ = False"

definition suspended :: "conf \<Rightarrow> tid \<Rightarrow> bool" where
  "suspended c t \<longleftrightarrow> (\<exists>u \<in> set (threads c). suspends (pcs c u) = Some t)"

definition goto :: "tid \<Rightarrow> pc \<Rightarrow> conf \<Rightarrow> conf" where
  "goto t p c = c\<lparr>pcs := (pcs c)(t := p)\<rparr>"

definition put_monitor :: "32 word \<Rightarrow> Monitor \<Rightarrow> conf \<Rightarrow> conf" where
  "put_monitor i m c = c\<lparr>monitors := (monitors c)(i \<mapsto> m)\<rparr>"

text \<open>What a caller sees of a step.\<close>

datatype event =
    Tau
  | Acquired tid
  | TryFailed tid
  | Released tid
  | NotOwner tid
  | BadTimeout tid
  | WaitReleased tid nat
  | WaitAcquired tid
  | WaitRestored tid nat
  | HashInstalled "32 word"
  | Hashed tid "32 word"

datatype outcome = Fatal | Blocked | Next event conf

text \<open>What the surroundings decide in a step: whether a weak compare-and-set fails without reason, the id of a new monitor,
  the seed of a new hash code, and whether the thread list still finds the thread to suspend.\<close>

record choice =
  spurious :: bool
  new_id :: "32 word"
  seed :: "32 word"
  found :: bool

definition cas_ok :: "choice \<Rightarrow> 32 word \<Rightarrow> conf \<Rightarrow> bool" where
  "cas_ok ch lw c \<longleftrightarrow> lock_word c = lw \<and> \<not> spurious ch"

definition Inflate :: "choice \<Rightarrow> tid \<Rightarrow> cont \<Rightarrow> tid option \<Rightarrow> tid option \<Rightarrow> 32 word \<Rightarrow> conf \<Rightarrow> outcome" where
  "Inflate ch self k s owner hash c =
     (if monitors c (new_id ch) \<noteq> None \<or> \<not> new_id ch \<le> kMonitorIdMask then Blocked
      else case new_Monitor (suspended c) self owner hash (new_id ch) of
          None \<Rightarrow> Fatal
        | Some m \<Rightarrow> Next Tau (goto self (Installing k s m) c))"

definition InflateThinLocked :: "choice \<Rightarrow> tid \<Rightarrow> cont \<Rightarrow> 32 word \<Rightarrow> 32 word \<Rightarrow> conf \<Rightarrow> outcome" where
  "InflateThinLocked ch self k lw hash c =
     (let owner_thread_id = ThinLockOwner lw
      in if owner_thread_id = self then Inflate ch self k None (Some self) hash c
         else Next Tau (goto self (SuspendOwner k owner_thread_id hash) c))"

definition suspend_owner :: "choice \<Rightarrow> tid \<Rightarrow> cont \<Rightarrow> tid \<Rightarrow> 32 word \<Rightarrow> conf \<Rightarrow> outcome" where
  "suspend_owner ch self k owner hash c =
     (if \<not> found ch \<or> owner \<notin> set (threads c) then Next Tau (goto self (resume_at k) c)
      else if safe_point (pcs c owner) then Next Tau (goto self (OwnerSuspended k owner hash) c)
      else Blocked)"

definition owner_is_suspended :: "bool \<Rightarrow> choice \<Rightarrow> tid \<Rightarrow> cont \<Rightarrow> tid \<Rightarrow> 32 word \<Rightarrow> conf \<Rightarrow> outcome" where
  "owner_is_suspended b ch self k owner hash c =
     (let lw = lock_word c
      in if GetState b lw = kThinLocked \<and> ThinLockOwner lw = owner then Inflate ch self k (Some owner) (Some owner) hash c
         else Next Tau (goto self (resume_at k) c))"

definition install_read :: "bool \<Rightarrow> tid \<Rightarrow> cont \<Rightarrow> tid option \<Rightarrow> Monitor \<Rightarrow> conf \<Rightarrow> outcome" where
  "install_read b self k s m c =
     (case Install_state b (suspended c) self (lock_word c) m of
        None \<Rightarrow> Fatal
      | Some None \<Rightarrow> Next Tau (goto self (resume_at k) c)
      | Some (Some m) \<Rightarrow> Next Tau (goto self (Publishing k s m (lock_word c)) c))"

definition install_publish :: "bool \<Rightarrow> choice \<Rightarrow> tid \<Rightarrow> cont \<Rightarrow> tid option \<Rightarrow> Monitor \<Rightarrow> 32 word \<Rightarrow> conf \<Rightarrow> outcome" where
  "install_publish b ch self k s m lw c =
     (if cas_ok ch lw c
      then Next (if GetState b lw = kThinLocked \<and> HasHashCode m then HashInstalled (hash_code m) else Tau)
        (goto self (Listing k s (monitor_id m))
          (put_monitor (monitor_id m) m (c\<lparr>lock_word := FromMonitor (monitor_id m) (ReadBarrierState lw)\<rparr>)))
      else Next Tau (goto self (resume_at k) c))"

definition list_monitor :: "bool \<Rightarrow> tid \<Rightarrow> cont \<Rightarrow> 32 word \<Rightarrow> conf \<Rightarrow> outcome" where
  "list_monitor b self k i c =
     (if GetState b (lock_word c) = kFatLocked
      then Next Tau (goto self (resume_at k) (c\<lparr>monitor_list := i # monitor_list c\<rparr>))
      else Fatal)"

section \<open>Entering\<close>

definition lock_done :: "tid \<Rightarrow> lock_ret \<Rightarrow> 32 word \<Rightarrow> (bool \<times> Monitor) option \<Rightarrow> conf \<Rightarrow> outcome" where
  "lock_done self r i res c =
     (case res of
        None \<Rightarrow> Fatal
      | Some (False, m) \<Rightarrow> Next Tau (goto self (Contending r i) (put_monitor i m c))
      | Some (True, m) \<Rightarrow>
          (case r of
             RetEnter \<Rightarrow> Next (Acquired self) (goto self Running (put_monitor i m c))
           | RetWait prev \<Rightarrow> Next (WaitAcquired self) (goto self (Restoring i prev) (put_monitor i m c))))"

text \<open>A monitor that is not there is a dangling pointer.\<close>

definition with_monitor :: "32 word \<Rightarrow> conf \<Rightarrow> (Monitor \<Rightarrow> outcome) \<Rightarrow> outcome" where
  "with_monitor i c f = (case monitors c i of None \<Rightarrow> Fatal | Some m \<Rightarrow> f m)"

definition swap_word :: "bool \<Rightarrow> choice \<Rightarrow> 32 word \<Rightarrow> 32 word option \<Rightarrow> tid \<Rightarrow> event \<Rightarrow> pc \<Rightarrow> conf \<Rightarrow> outcome" where
  "swap_word with_cas ch lw new self e again c =
     (case new of
        None \<Rightarrow> Fatal
      | Some new_lw \<Rightarrow>
          (if \<not> with_cas \<or> cas_ok ch lw c then Next e (goto self Running (c\<lparr>lock_word := new_lw\<rparr>))
           else Next Tau (goto self again c)))"

definition MonitorEnter_thin :: "bool \<Rightarrow> nat \<Rightarrow> choice \<Rightarrow> tid \<Rightarrow> bool \<Rightarrow> nat \<Rightarrow> 32 word \<Rightarrow> conf \<Rightarrow> outcome" where
  "MonitorEnter_thin b max_spins ch self trylock contention_count lw c =
     (if ThinLockOwner lw = self then
        let new_count = ThinLockCount lw + 1
        in if new_count \<le> kThinLockCountMask
           then swap_word b ch lw (FromThinLockId self new_count (ReadBarrierState lw)) self (Acquired self)
                  (EnterLoop trylock contention_count) c
           else InflateThinLocked ch self (AfterEnter trylock contention_count) lw 0 c
      else if trylock then Next (TryFailed self) (goto self Running c)
      else if contention_count + 1 \<le> max_spins then Next Tau (goto self (EnterLoop trylock (contention_count + 1)) c)
      else InflateThinLocked ch self (AfterEnter trylock 0) lw 0 c)"

definition MonitorEnter_fat :: "tid \<Rightarrow> bool \<Rightarrow> 32 word \<Rightarrow> conf \<Rightarrow> outcome" where
  "MonitorEnter_fat self trylock i c =
     with_monitor i c (\<lambda>m.
       if trylock
       then (case TryLockLocked self m of
               None \<Rightarrow> Fatal
             | Some (locked, m) \<Rightarrow> Next (if locked then Acquired self else TryFailed self) (goto self Running (put_monitor i m c)))
       else lock_done self RetEnter i (Lock_round self m) c)"

definition MonitorEnter :: "bool \<Rightarrow> nat \<Rightarrow> choice \<Rightarrow> tid \<Rightarrow> bool \<Rightarrow> nat \<Rightarrow> 32 word \<Rightarrow> conf \<Rightarrow> outcome" where
  "MonitorEnter b max_spins ch self trylock contention_count lw c =
     (case GetState b lw of
        kUnlocked \<Rightarrow>
          swap_word True ch lw (FromThinLockId self 0 (ReadBarrierState lw)) self (Acquired self) (EnterLoop trylock contention_count) c
      | kThinLocked \<Rightarrow> MonitorEnter_thin b max_spins ch self trylock contention_count lw c
      | kFatLocked \<Rightarrow> MonitorEnter_fat self trylock (FatLockMonitor lw) c
      | kHashCode \<Rightarrow> Inflate ch self (AfterEnter trylock contention_count) None None (LockWord_GetHashCode lw) c
      | kForwardingAddress \<Rightarrow> Fatal)"

section \<open>Leaving, hashing, waiting and notifying\<close>

definition MonitorExit :: "bool \<Rightarrow> choice \<Rightarrow> tid \<Rightarrow> 32 word \<Rightarrow> conf \<Rightarrow> outcome" where
  "MonitorExit b ch self lw c =
     (case GetState b lw of
        kHashCode \<Rightarrow> Next (NotOwner self) (goto self Running c)
      | kUnlocked \<Rightarrow> Next (NotOwner self) (goto self Running c)
      | kThinLocked \<Rightarrow>
          (if ThinLockOwner lw \<noteq> self then Next (NotOwner self) (goto self Running c)
           else swap_word b ch lw
                  (if ThinLockCount lw \<noteq> 0 then FromThinLockId self (ThinLockCount lw - 1) (ReadBarrierState lw)
                   else Some (FromDefault (ReadBarrierState lw)))
                  self (Released self) ExitLoop c)
      | kFatLocked \<Rightarrow>
          with_monitor (FatLockMonitor lw) c (\<lambda>m.
            let (ok, m) = Monitor_Unlock self m
            in Next (if ok then Released self else NotOwner self) (goto self Running (put_monitor (FatLockMonitor lw) m c)))
      | kForwardingAddress \<Rightarrow> Fatal)"

definition IdentityHashCode :: "bool \<Rightarrow> choice \<Rightarrow> tid \<Rightarrow> 32 word \<Rightarrow> conf \<Rightarrow> outcome" where
  "IdentityHashCode b ch self lw c =
     (case GetState b lw of
        kUnlocked \<Rightarrow>
          (let hash = fst (GenerateIdentityHashCode (seed ch))
           in swap_word True ch lw (FromHashCode hash (ReadBarrierState lw)) self (Hashed self hash) HashLoop c)
      | kThinLocked \<Rightarrow> InflateThinLocked ch self AfterHash lw (fst (GenerateIdentityHashCode (seed ch))) c
      | kFatLocked \<Rightarrow>
          with_monitor (FatLockMonitor lw) c (\<lambda>m.
            let (hash, m) = Monitor_GetHashCode (seed ch) m
            in Next (Hashed self hash) (goto self Running (put_monitor (FatLockMonitor lw) m c)))
      | kHashCode \<Rightarrow> Next (Hashed self (LockWord_GetHashCode lw)) (goto self Running c)
      | kForwardingAddress \<Rightarrow> Fatal)"

definition Monitor_Wait :: "bool \<Rightarrow> choice \<Rightarrow> tid \<Rightarrow> int \<Rightarrow> int \<Rightarrow> 32 word \<Rightarrow> conf \<Rightarrow> outcome" where
  "Monitor_Wait b ch self ms ns lw c =
     (case GetState b lw of
        kHashCode \<Rightarrow> Next (NotOwner self) (goto self Running c)
      | kUnlocked \<Rightarrow> Next (NotOwner self) (goto self Running c)
      | kThinLocked \<Rightarrow>
          (if ThinLockOwner lw \<noteq> self then Next (NotOwner self) (goto self Running c)
           else Inflate ch self (AfterWait ms ns) None (Some self) 0 c)
      | kFatLocked \<Rightarrow>
          with_monitor (FatLockMonitor lw) c (\<lambda>m.
            case Wait_release self ms ns m of
              WaitNotOwner \<Rightarrow> Next (NotOwner self) (goto self Running c)
            | WaitBadTimeout \<Rightarrow> Next (BadTimeout self) (goto self Running c)
            | WaitStarted prev m \<Rightarrow>
                Next (WaitReleased self prev)
                  (goto self (Waiting (FatLockMonitor lw) prev) (put_monitor (FatLockMonitor lw) m c)))
      | kForwardingAddress \<Rightarrow> Fatal)"

fun is_waiting :: "pc \<Rightarrow> bool" where
  "is_waiting (Waiting i prev) = True"
| "is_waiting _ = False"

definition DoNotify :: "bool \<Rightarrow> tid \<Rightarrow> bool \<Rightarrow> 32 word \<Rightarrow> conf \<Rightarrow> outcome" where
  "DoNotify b self notify_all lw c =
     (case GetState b lw of
        kHashCode \<Rightarrow> Next (NotOwner self) (goto self Running c)
      | kUnlocked \<Rightarrow> Next (NotOwner self) (goto self Running c)
      | kThinLocked \<Rightarrow> Next (if ThinLockOwner lw \<noteq> self then NotOwner self else Tau) (goto self Running c)
      | kFatLocked \<Rightarrow>
          with_monitor (FatLockMonitor lw) c (\<lambda>m.
            let (ok, m) = (if notify_all then Monitor_NotifyAll self m else Monitor_Notify (\<lambda>t. is_waiting (pcs c t)) self m)
            in Next (if ok then Tau else NotOwner self) (goto self Running (put_monitor (FatLockMonitor lw) m c)))
      | kForwardingAddress \<Rightarrow> Fatal)"

section \<open>Steps\<close>

text \<open>One step of a thread from where it is.\<close>

fun thread_step :: "bool \<Rightarrow> nat \<Rightarrow> choice \<Rightarrow> tid \<Rightarrow> pc \<Rightarrow> conf \<Rightarrow> outcome" where
  "thread_step b max_spins ch t Running c = Blocked"
| "thread_step b max_spins ch t (EnterLoop trylock n) c = Next Tau (goto t (EnterRead trylock n (lock_word c)) c)"
| "thread_step b max_spins ch t (EnterRead trylock n lw) c = MonitorEnter b max_spins ch t trylock n lw c"
| "thread_step b max_spins ch t ExitLoop c = Next Tau (goto t (ExitRead (lock_word c)) c)"
| "thread_step b max_spins ch t (ExitRead lw) c = MonitorExit b ch t lw c"
| "thread_step b max_spins ch t HashLoop c = Next Tau (goto t (HashRead (lock_word c)) c)"
| "thread_step b max_spins ch t (HashRead lw) c = IdentityHashCode b ch t lw c"
| "thread_step b max_spins ch t (WaitLoop ms ns) c = Next Tau (goto t (WaitRead ms ns (lock_word c)) c)"
| "thread_step b max_spins ch t (WaitRead ms ns lw) c = Monitor_Wait b ch t ms ns lw c"
| "thread_step b max_spins ch t (NotifyLoop all) c = Next Tau (goto t (NotifyRead all (lock_word c)) c)"
| "thread_step b max_spins ch t (NotifyRead all lw) c = DoNotify b t all lw c"
| "thread_step b max_spins ch t (SuspendOwner k owner hash) c = suspend_owner ch t k owner hash c"
| "thread_step b max_spins ch t (OwnerSuspended k owner hash) c = owner_is_suspended b ch t k owner hash c"
| "thread_step b max_spins ch t (Installing k s m) c = install_read b t k s m c"
| "thread_step b max_spins ch t (Publishing k s m lw) c = install_publish b ch t k s m lw c"
| "thread_step b max_spins ch t (Listing k s i) c = list_monitor b t k i c"
| "thread_step b max_spins ch t (Contending r i) c = with_monitor i c (\<lambda>m. lock_done t r i (Lock_again t m) c)"
| "thread_step b max_spins ch t (Waiting i prev) c = Next Tau (goto t (Woken i prev) c)"
| "thread_step b max_spins ch t (Woken i prev) c = with_monitor i c (\<lambda>m. lock_done t (RetWait prev) i (Lock_round t m) c)"
| "thread_step b max_spins ch t (Restoring i prev) c =
     with_monitor i c (\<lambda>m. Next (WaitRestored t prev) (goto t Running (put_monitor i (Wait_restore t prev m) c)))"

text \<open>Deflation walks the list of monitors while all threads are suspended: a monitor without an object is freed, one whose
  object can be deflated is deflated and freed.\<close>

definition Deflate :: "bool \<Rightarrow> conf \<Rightarrow> (bool \<times> conf) option" where
  "Deflate b c =
     (let lw = lock_word c
      in if GetState b lw = kFatLocked then
           (case monitors c (FatLockMonitor lw) of
              None \<Rightarrow> None
            | Some m \<Rightarrow>
                (case deflated_word lw m of
                   None \<Rightarrow> None
                 | Some None \<Rightarrow> Some (False, c)
                 | Some (Some new_lw) \<Rightarrow>
                     Some (True, put_monitor (FatLockMonitor lw) (m\<lparr>has_obj := False\<rparr>) (c\<lparr>lock_word := new_lw\<rparr>))))
         else Some (True, c))"

definition ReleaseMonitor :: "32 word \<Rightarrow> conf \<Rightarrow> conf" where
  "ReleaseMonitor i c = c\<lparr>monitors := (monitors c)(i := None)\<rparr>"

fun deflate_monitors :: "bool \<Rightarrow> 32 word list \<Rightarrow> conf \<Rightarrow> (32 word list \<times> conf) option" where
  "deflate_monitors b [] c = Some ([], c)"
| "deflate_monitors b (i # is) c =
     (case monitors c i of
        None \<Rightarrow> None
      | Some m \<Rightarrow>
          (case (if has_obj m then Deflate b c else Some (True, c)) of
             None \<Rightarrow> None
           | Some (True, c) \<Rightarrow> deflate_monitors b is (ReleaseMonitor i c)
           | Some (False, c) \<Rightarrow>
               (case deflate_monitors b is c of None \<Rightarrow> None | Some (kept, c) \<Rightarrow> Some (i # kept, c))))"

definition DeflateMonitors :: "bool \<Rightarrow> conf \<Rightarrow> conf option" where
  "DeflateMonitors b c =
     (case deflate_monitors b (monitor_list c) c of None \<Rightarrow> None | Some (kept, c) \<Rightarrow> Some (c\<lparr>monitor_list := kept\<rparr>))"

text \<open>Queries.\<close>

definition IsLocked :: "Monitor \<Rightarrow> bool" where
  "IsLocked m \<longleftrightarrow> mon_owner m \<noteq> None"

definition GetOwnerThreadId :: "Monitor \<Rightarrow> tid" where
  "GetOwnerThreadId m = (case mon_owner m of None \<Rightarrow> 0 | Some owner \<Rightarrow> owner)"

definition GetLockOwnerThreadId :: "bool \<Rightarrow> conf \<Rightarrow> tid option" where
  "GetLockOwnerThreadId b c =
     (let lw = lock_word c
      in case GetState b lw of
          kHashCode \<Rightarrow> Some 0
        | kUnlocked \<Rightarrow> Some 0
        | kThinLocked \<Rightarrow> Some (ThinLockOwner lw)
        | kFatLocked \<Rightarrow>
            (case monitors c (FatLockMonitor lw) of None \<Rightarrow> None | Some m \<Rightarrow> Some (GetOwnerThreadId m))
        | kForwardingAddress \<Rightarrow> None)"

definition IsValidLockWord :: "bool \<Rightarrow> 32 word list \<Rightarrow> 32 word \<Rightarrow> bool option" where
  "IsValidLockWord b list lw =
     (case GetState b lw of
        kUnlocked \<Rightarrow> Some True
      | kThinLocked \<Rightarrow> Some (ThinLockOwner lw \<noteq> 0)
      | kFatLocked \<Rightarrow> Some (FatLockMonitor lw \<in> set list)
      | kHashCode \<Rightarrow> Some True
      | kForwardingAddress \<Rightarrow> None)"

text \<open>What the debugger is told: the owner, how often it has entered, and the waiting threads.\<close>

definition MonitorInfo :: "bool \<Rightarrow> conf \<Rightarrow> (tid option \<times> nat \<times> tid list) option" where
  "MonitorInfo b c =
     (let lw = lock_word c
      in case GetState b lw of
          kUnlocked \<Rightarrow> Some (None, 0, [])
        | kForwardingAddress \<Rightarrow> Some (None, 0, [])
        | kHashCode \<Rightarrow> Some (None, 0, [])
        | kThinLocked \<Rightarrow>
            Some (if ThinLockOwner lw \<in> set (threads c) then Some (ThinLockOwner lw) else None, 1 + unat (ThinLockCount lw), [])
        | kFatLocked \<Rightarrow>
            (case monitors c (FatLockMonitor lw) of
               None \<Rightarrow> None
             | Some mon \<Rightarrow> Some (mon_owner mon, 1 + lock_count mon, wait_set mon)))"

datatype operation = EnterOp bool | ExitOp | HashOp | WaitOp int int | NotifyOp bool

fun start_of :: "operation \<Rightarrow> pc" where
  "start_of (EnterOp trylock) = EnterLoop trylock 0"
| "start_of ExitOp = ExitLoop"
| "start_of HashOp = HashLoop"
| "start_of (WaitOp ms ns) = WaitLoop ms ns"
| "start_of (NotifyOp all) = NotifyLoop all"

text \<open>The steps of the system: a thread calls an operation or goes on with it, the collector changes the read barrier state,
  and deflation runs with all threads suspended. The index \<^verbatim>\<open>b\<close> is \<^verbatim>\<open>kUseReadBarrier\<close>.\<close>

inductive mon_step :: "bool \<Rightarrow> nat \<Rightarrow> conf \<Rightarrow> event \<Rightarrow> conf \<Rightarrow> bool" for b max_spins where
  call: "t \<in> set (threads c) \<Longrightarrow> pcs c t = Running \<Longrightarrow> \<not> suspended c t
    \<Longrightarrow> mon_step b max_spins c Tau (goto t (start_of oper) c)"
| thread: "t \<in> set (threads c) \<Longrightarrow> \<not> suspended c t \<Longrightarrow> thread_step b max_spins ch t (pcs c t) c = Next e c'
    \<Longrightarrow> mon_step b max_spins c e c'"
| barrier: "b \<Longrightarrow> mon_step b max_spins c Tau (c\<lparr>lock_word := SetReadBarrierState rb (lock_word c)\<rparr>)"
| deflate: "\<forall>t \<in> set (threads c). safe_point (pcs c t) \<Longrightarrow> DeflateMonitors b c = Some c' \<Longrightarrow> mon_step b max_spins c Tau c'"

end
