(* ===== verification/Monitor_Invariant.thy ===== *)
theory Monitor_Invariant
  imports Monitors
begin

text \<open>What the lock word and monitor of an object stand for: a reentrant lock with an identity hash code as specification, the
  invariant of the interleaved threads, and the three kinds of steps that keep it.\<close>

section \<open>What a lock word says, without its read barrier bits\<close>

datatype core = CUnlocked | CThin tid nat | CFat "32 word" | CHash "32 word" | CForward

definition core :: "bool \<Rightarrow> 32 word \<Rightarrow> core" where
  "core b lw =
     (case GetState b lw of
        kUnlocked \<Rightarrow> CUnlocked
      | kThinLocked \<Rightarrow> CThin (ThinLockOwner lw) (unat (ThinLockCount lw))
      | kFatLocked \<Rightarrow> CFat (FatLockMonitor lw)
      | kHashCode \<Rightarrow> CHash (LockWord_GetHashCode lw)
      | kForwardingAddress \<Rightarrow> CForward)"

lemma core_view:
  "core b lw =
     (case lw_view b lw of
        Unlocked rb \<Rightarrow> CUnlocked | Thin t n rb \<Rightarrow> CThin t (unat n) | Fat i rb \<Rightarrow> CFat i | Hash h rb \<Rightarrow> CHash h | Forward a \<Rightarrow> CForward)"
  by (simp add: core_def lw_view_def split: LockState.split)

lemma view_barrier:
  "lw_view b lw = Unlocked rb \<Longrightarrow> ReadBarrierState lw = rb" "lw_view b lw = Thin t n rb \<Longrightarrow> ReadBarrierState lw = rb"
  "lw_view b lw = Fat i rb \<Longrightarrow> ReadBarrierState lw = rb" "lw_view b lw = Hash h rb \<Longrightarrow> ReadBarrierState lw = rb"
  by (auto simp: lw_view_def split: LockState.splits)

lemma mask_values: "kThinLockOwnerMask = 0xffff" "kThinLockCountMask = 0xfff" "kHashMask = 0xfffffff" "kMonitorIdMask = 0xfffffff"
  by (simp_all add: lock_word_layout)

lemma barrier_small: "ReadBarrierState lw < 4"
  using take_bit_nat_less_exp [of 2 "unat (drop_bit 28 lw)"]
  by (simp add: lock_word_fields word_less_nat_alt unsigned_take_bit_eq)

lemma field_bounds: "ThinLockCount lw \<le> kThinLockCountMask" "LockWord_GetHashCode lw \<le> kHashMask" "FatLockMonitor lw \<le> kMonitorIdMask"
  using lock_word_bounds [of lw] lock_word_bounds [of "drop_bit 16 lw"]
  by (simp_all add: lock_word_fields mask_values word_le_nat_alt)

lemma core_thin:
  assumes "0 < t" "t \<le> kThinLockOwnerMask" "n \<le> kThinLockCountMask"
  obtains new where "FromThinLockId t n (ReadBarrierState lw) = Some new" "core b new = CThin t (unat n)" "ReadBarrierState new = ReadBarrierState lw"
proof -
  have "lw_view_ok b (Thin t n (ReadBarrierState lw))"
    using assms barrier_small [of lw] by (auto simp: mask_values word_le_nat_alt word_less_nat_alt)
  from view_make [OF this] show ?thesis
    using that view_barrier(2) by (fastforce simp: core_view)
qed

lemma core_fat:
  assumes "i \<le> kMonitorIdMask"
  shows "core b (FromMonitor i (ReadBarrierState lw)) = CFat i" "ReadBarrierState (FromMonitor i (ReadBarrierState lw)) = ReadBarrierState lw"
proof -
  have "lw_view_ok b (Fat i (ReadBarrierState lw))"
    using assms barrier_small [of lw] by (auto simp: mask_values word_le_nat_alt word_less_nat_alt)
  from view_make [OF this] have v: "lw_view b (FromMonitor i (ReadBarrierState lw)) = Fat i (ReadBarrierState lw)" by simp
  then show "core b (FromMonitor i (ReadBarrierState lw)) = CFat i" by (simp add: core_view)
  show "ReadBarrierState (FromMonitor i (ReadBarrierState lw)) = ReadBarrierState lw" using v by (rule view_barrier)
qed

lemma core_hash:
  assumes "h \<le> kHashMask"
  obtains new where "FromHashCode h (ReadBarrierState lw) = Some new" "core b new = CHash h" "ReadBarrierState new = ReadBarrierState lw"
proof -
  have "lw_view_ok b (Hash h (ReadBarrierState lw))"
    using assms barrier_small [of lw] by (auto simp: mask_values word_le_nat_alt word_less_nat_alt)
  from view_make [OF this] show ?thesis
    using that view_barrier(4) by (fastforce simp: core_view)
qed

lemma core_default:
  assumes "b \<or> ReadBarrierState lw = 0"
  shows "core b (FromDefault (ReadBarrierState lw)) = CUnlocked" "ReadBarrierState (FromDefault (ReadBarrierState lw)) = ReadBarrierState lw"
proof -
  have "lw_view_ok b (Unlocked (ReadBarrierState lw))"
    using assms barrier_small [of lw] by auto
  from view_make [OF this] have v: "lw_view b (FromDefault (ReadBarrierState lw)) = Unlocked (ReadBarrierState lw)" by simp
  then show "core b (FromDefault (ReadBarrierState lw)) = CUnlocked" by (simp add: core_view)
  show "ReadBarrierState (FromDefault (ReadBarrierState lw)) = ReadBarrierState lw" using v by (rule view_barrier)
qed

lemma barrier_keeps_fields:
  "take_bit 28 (SetReadBarrierState rb lw) = take_bit 28 lw" "drop_bit 30 (SetReadBarrierState rb lw) = drop_bit 30 lw"
proof -
  have m: "kReadBarrierStateMask = mask 2" "kReadBarrierStateShift = 28" by (simp_all add: lock_word_layout mask_eq_exp_minus_1)
  show "take_bit 28 (SetReadBarrierState rb lw) = take_bit 28 lw"
    unfolding SetReadBarrierState_def Let_def m by (rule bit_eqI) (auto simp: bit_simps)
  show "drop_bit 30 (SetReadBarrierState rb lw) = drop_bit 30 lw"
    unfolding SetReadBarrierState_def Let_def m by (rule bit_eqI) (auto simp: bit_simps dest: bit_imp_le_length)
qed

lemma core_barrier: "core True (SetReadBarrierState rb lw) = core True lw"
proof -
  have low: "take_bit 16 v = take_bit 16 (take_bit 28 v)" "take_bit 12 (drop_bit 16 v) = drop_bit 16 (take_bit 28 v)" for v :: "32 word"
    by (simp, rule bit_eqI, auto simp: bit_simps)
  define v where "v = SetReadBarrierState rb lw"
  note keep = barrier_keeps_fields [of rb lw, folded v_def]
  have "take_bit 16 v = take_bit 16 lw" "take_bit 12 (drop_bit 16 v) = take_bit 12 (drop_bit 16 lw)"
    using low [of v] low [of lw] keep(1) by metis+
  with keep show ?thesis
    unfolding v_def [symmetric] core_def GetState_eq lock_word_fields by simp
qed

lemma hash_generated:
  "fst (GenerateIdentityHashCode s) \<noteq> 0" "fst (GenerateIdentityHashCode s) \<le> kHashMask"
proof (induction s rule: GenerateIdentityHashCode.induct)
  case (1 s)
  have le: "v AND kHashMask \<le> kHashMask" for v :: "32 word" by (simp add: word_and_le1)
  { case 1 show ?case using "1.IH"(1) by (subst GenerateIdentityHashCode.simps) (simp add: Let_def) }
  { case 2 show ?case using "1.IH"(2) le by (subst GenerateIdentityHashCode.simps) (simp add: Let_def) }
qed

section \<open>The specification\<close>

text \<open>A reentrant lock with an identity hash code: who holds the lock and how many times beyond the first, and the hash code
  once it is fixed. \<^verbatim>\<open>spec_step\<close> says which events are allowed and what they do.\<close>

type_synonym lock_spec = "(tid \<times> nat) option \<times> 32 word option"

definition owned_by :: "tid \<Rightarrow> (tid \<times> nat) option \<Rightarrow> bool" where
  "owned_by t l \<longleftrightarrow> (case l of None \<Rightarrow> False | Some (ow, n) \<Rightarrow> ow = t)"

fun spec_step :: "event \<Rightarrow> lock_spec \<Rightarrow> lock_spec option" where
  "spec_step Tau s = Some s"
| "spec_step (Acquired t) (l, h) =
     (case l of None \<Rightarrow> Some (Some (t, 0), h) | Some (ow, n) \<Rightarrow> if ow = t then Some (Some (t, n + 1), h) else None)"
| "spec_step (Released t) (l, h) =
     (case l of None \<Rightarrow> None | Some (ow, n) \<Rightarrow> if ow = t then Some (if n = 0 then None else Some (t, n - 1), h) else None)"
| "spec_step (TryFailed t) (l, h) = (if owned_by t l then None else Some (l, h))"
| "spec_step (NotOwner t) (l, h) = (if owned_by t l then None else Some (l, h))"
| "spec_step (BadTimeout t) (l, h) = (if owned_by t l then Some (l, h) else None)"
| "spec_step (WaitReleased t n) (l, h) = (if l = Some (t, n) then Some (None, h) else None)"
| "spec_step (WaitAcquired t) (l, h) = (if l = None then Some (Some (t, 0), h) else None)"
| "spec_step (WaitRestored t n) (l, h) = (if l = Some (t, 0) then Some (Some (t, n), h) else None)"
| "spec_step (HashInstalled x) (l, h) = (if h = None then Some (l, Some x) else None)"
| "spec_step (Hashed t x) (l, h) = (if h = None \<or> h = Some x then Some (l, Some x) else None)"

definition abs_lock :: "bool \<Rightarrow> conf \<Rightarrow> (tid \<times> nat) option" where
  "abs_lock b c =
     (case core b (lock_word c) of
        CThin ow n \<Rightarrow> Some (ow, n)
      | CFat i \<Rightarrow> (case monitors c i of None \<Rightarrow> None | Some m \<Rightarrow> map_option (\<lambda>ow. (ow, lock_count m)) (mon_owner m))
      | _ \<Rightarrow> None)"

definition abs_hash :: "bool \<Rightarrow> conf \<Rightarrow> 32 word option" where
  "abs_hash b c =
     (case core b (lock_word c) of
        CHash h \<Rightarrow> Some h
      | CFat i \<Rightarrow> (case monitors c i of None \<Rightarrow> None | Some m \<Rightarrow> if HasHashCode m then Some (hash_code m) else None)
      | _ \<Rightarrow> None)"

definition abs_conf :: "bool \<Rightarrow> conf \<Rightarrow> lock_spec" where
  "abs_conf b c = (abs_lock b c, abs_hash b c)"

section \<open>The invariant\<close>

text \<open>What a thread that has read the lock word may rely on: nobody else changes a lock it holds, an inflated lock stays
  inflated, and a hash code stays.\<close>

abbreviation is_fat :: "core \<Rightarrow> bool" where
  "is_fat k \<equiv> \<exists>i. k = CFat i"

definition barrier_ok :: "bool \<Rightarrow> 32 word \<Rightarrow> bool" where
  "barrier_ok b lw \<longleftrightarrow> b \<or> ReadBarrierState lw = 0"

definition captured :: "bool \<Rightarrow> conf \<Rightarrow> tid \<Rightarrow> 32 word \<Rightarrow> bool" where
  "captured b c t lw \<longleftrightarrow> barrier_ok b lw \<and>
     (case core b lw of
        CUnlocked \<Rightarrow> \<not> owned_by t (abs_lock b c)
      | CThin ow n \<Rightarrow> if ow = t then core b (lock_word c) = CThin t n else \<not> owned_by t (abs_lock b c)
      | CFat i \<Rightarrow> core b (lock_word c) = CFat i
      | CHash h \<Rightarrow> h \<noteq> 0 \<and> \<not> owned_by t (abs_lock b c) \<and> abs_hash b c = Some h \<and> (core b (lock_word c) = CHash h \<or> is_fat (core b (lock_word c)))
      | CForward \<Rightarrow> False)"

definition fresh_monitor :: "Monitor \<Rightarrow> bool" where
  "fresh_monitor m \<longleftrightarrow> num_waiters m = 0 \<and> has_obj m \<and> monitor_id m \<le> kMonitorIdMask \<and> hash_code m \<le> kHashMask \<and>
     (mon_owner m = None \<longrightarrow> lock_count m = 0 \<and> hash_code m \<noteq> 0)"

definition installing :: "bool \<Rightarrow> conf \<Rightarrow> tid \<Rightarrow> tid option \<Rightarrow> Monitor \<Rightarrow> bool" where
  "installing b c t s m \<longleftrightarrow> fresh_monitor m \<and> (monitors c (monitor_id m) = None \<or> is_fat (core b (lock_word c))) \<and>
     (case mon_owner m of
        Some ow \<Rightarrow> (if ow = t then s = None else s = Some ow) \<and> ((\<exists>n. core b (lock_word c) = CThin ow n) \<or> is_fat (core b (lock_word c)))
      | None \<Rightarrow> s = None \<and> (core b (lock_word c) = CHash (hash_code m) \<or> is_fat (core b (lock_word c))))"

definition publishable :: "bool \<Rightarrow> Monitor \<Rightarrow> 32 word \<Rightarrow> bool" where
  "publishable b m lw \<longleftrightarrow> barrier_ok b lw \<and>
     core b lw = (case mon_owner m of Some ow \<Rightarrow> CThin ow (lock_count m) | None \<Rightarrow> CHash (hash_code m))"

fun pc_ok :: "bool \<Rightarrow> conf \<Rightarrow> tid \<Rightarrow> pc \<Rightarrow> bool" where
  "pc_ok b c t (EnterRead trylock n lw) \<longleftrightarrow> captured b c t lw"
| "pc_ok b c t (ExitRead lw) \<longleftrightarrow> captured b c t lw"
| "pc_ok b c t (HashRead lw) \<longleftrightarrow> captured b c t lw"
| "pc_ok b c t (WaitRead ms ns lw) \<longleftrightarrow> captured b c t lw"
| "pc_ok b c t (NotifyRead all lw) \<longleftrightarrow> captured b c t lw"
| "pc_ok b c t (SuspendOwner k ow h) \<longleftrightarrow> ow \<noteq> t \<and> h \<le> kHashMask"
| "pc_ok b c t (OwnerSuspended k ow h) \<longleftrightarrow> h \<le> kHashMask"
| "pc_ok b c t (Installing k s m) \<longleftrightarrow> installing b c t s m"
| "pc_ok b c t (Publishing k s m lw) \<longleftrightarrow> installing b c t s m \<and> publishable b m lw"
| "pc_ok b c t (Listing k s i) \<longleftrightarrow> core b (lock_word c) = CFat i"
| "pc_ok b c t (Contending r i) \<longleftrightarrow> core b (lock_word c) = CFat i \<and> \<not> owned_by t (abs_lock b c)"
| "pc_ok b c t (Waiting i prev) \<longleftrightarrow> core b (lock_word c) = CFat i \<and> \<not> owned_by t (abs_lock b c)"
| "pc_ok b c t (Woken i prev) \<longleftrightarrow> core b (lock_word c) = CFat i \<and> \<not> owned_by t (abs_lock b c)"
| "pc_ok b c t (Restoring i prev) \<longleftrightarrow> core b (lock_word c) = CFat i \<and> abs_lock b c = Some (t, 0)"
| "pc_ok b c t _ \<longleftrightarrow> True"

text \<open>How often a thread is counted as a waiter of a monitor.\<close>

fun waits :: "32 word \<Rightarrow> pc \<Rightarrow> nat" where
  "waits i (Contending RetEnter j) = (if i = j then 1 else 0)"
| "waits i (Contending (RetWait prev) j) = (if i = j then 2 else 0)"
| "waits i (Waiting j prev) = (if i = j then 1 else 0)"
| "waits i (Woken j prev) = (if i = j then 1 else 0)"
| "waits i (Restoring j prev) = (if i = j then 1 else 0)"
| "waits i _ = 0"

definition waiters :: "32 word \<Rightarrow> conf \<Rightarrow> nat" where
  "waiters i c = (\<Sum>t\<leftarrow>threads c. waits i (pcs c t))"

definition monitor_ok :: "tid list \<Rightarrow> Monitor \<Rightarrow> bool" where
  "monitor_ok ts m \<longleftrightarrow> has_obj m \<and> hash_code m \<le> kHashMask \<and>
     (case mon_owner m of None \<Rightarrow> lock_count m = 0 | Some ow \<Rightarrow> ow \<in> set ts)"

definition word_ok :: "bool \<Rightarrow> conf \<Rightarrow> bool" where
  "word_ok b c \<longleftrightarrow> barrier_ok b (lock_word c) \<and>
     (case core b (lock_word c) of
        CUnlocked \<Rightarrow> True
      | CThin ow n \<Rightarrow> ow \<in> set (threads c)
      | CFat i \<Rightarrow> (case monitors c i of None \<Rightarrow> False | Some m \<Rightarrow> monitor_ok (threads c) m \<and> num_waiters m = waiters i c)
      | CHash h \<Rightarrow> h \<noteq> 0
      | CForward \<Rightarrow> False)"

definition susp_ok :: "conf \<Rightarrow> tid \<Rightarrow> bool" where
  "susp_ok c t \<longleftrightarrow> (\<forall>ow. suspends (pcs c t) = Some ow \<longrightarrow> ow \<noteq> t \<and> ow \<in> set (threads c) \<and> safe_point (pcs c ow))"

definition threads_ok :: "tid list \<Rightarrow> bool" where
  "threads_ok ts \<longleftrightarrow> distinct ts \<and> (\<forall>t \<in> set ts. 0 < t \<and> t \<le> kThinLockOwnerMask)"

text \<open>The list of monitors has no duplicates and no freed monitors, and at most one thread is about to add one.\<close>

fun is_listing :: "pc \<Rightarrow> bool" where
  "is_listing (Listing k s i) = True"
| "is_listing _ = False"

definition lists_ok :: "conf \<Rightarrow> bool" where
  "lists_ok c \<longleftrightarrow> distinct (monitor_list c) \<and> (\<forall>i \<in> set (monitor_list c). monitors c i \<noteq> None) \<and>
     (\<forall>t \<in> set (threads c). \<forall>k s i. pcs c t = Listing k s i \<longrightarrow> i \<notin> set (monitor_list c)) \<and>
     (\<forall>t \<in> set (threads c). \<forall>u \<in> set (threads c). is_listing (pcs c t) \<and> is_listing (pcs c u) \<longrightarrow> t = u)"

definition mon_inv :: "bool \<Rightarrow> conf \<Rightarrow> bool" where
  "mon_inv b c \<longleftrightarrow> threads_ok (threads c) \<and> word_ok b c \<and> (\<forall>t \<in> set (threads c). pc_ok b c t (pcs c t) \<and> susp_ok c t) \<and>
     lists_ok c"

definition core_inv :: "bool \<Rightarrow> conf \<Rightarrow> bool" where
  "core_inv b c \<longleftrightarrow> threads_ok (threads c) \<and> word_ok b c \<and> (\<forall>t \<in> set (threads c). pc_ok b c t (pcs c t) \<and> susp_ok c t)"

lemma mon_inv_core: "mon_inv b c \<longleftrightarrow> core_inv b c \<and> lists_ok c"
  by (simp add: mon_inv_def core_inv_def)

section \<open>Steps that leave the others alone\<close>

text \<open>What a step of thread \<^verbatim>\<open>t\<close> leaves intact, and that this is enough for what the other threads rely on.\<close>

definition leaves :: "bool \<Rightarrow> tid \<Rightarrow> conf \<Rightarrow> conf \<Rightarrow> bool" where
  "leaves b t c c' \<longleftrightarrow> threads c' = threads c \<and> (\<forall>u. u \<noteq> t \<longrightarrow> pcs c' u = pcs c u) \<and>
     (\<forall>i. core b (lock_word c) = CFat i \<longrightarrow> core b (lock_word c') = CFat i) \<and>
     (\<forall>h. core b (lock_word c) = CHash h \<longrightarrow> core b (lock_word c') = CHash h \<or> is_fat (core b (lock_word c'))) \<and>
     (\<forall>ow n. core b (lock_word c) = CThin ow n \<and> ow \<noteq> t \<longrightarrow>
        core b (lock_word c') = CThin ow n \<or> suspended c ow \<and> is_fat (core b (lock_word c'))) \<and>
     (\<forall>i. monitors c i = None \<longrightarrow> monitors c' i = None \<or> is_fat (core b (lock_word c'))) \<and>
     (\<forall>u n. u \<noteq> t \<longrightarrow> (abs_lock b c = Some (u, n)) = (abs_lock b c' = Some (u, n))) \<and>
     (\<forall>h. abs_hash b c = Some h \<longrightarrow> abs_hash b c' = Some h)"

lemma owned_by_iff: "owned_by t l \<longleftrightarrow> (\<exists>n. l = Some (t, n))"
  by (auto simp: owned_by_def split: option.splits)

lemma leaves_owned: "leaves b t c c' \<Longrightarrow> u \<noteq> t \<Longrightarrow> owned_by u (abs_lock b c') = owned_by u (abs_lock b c)"
  by (simp add: leaves_def owned_by_iff)

lemma leaves_captured:
  assumes "leaves b t c c'" "u \<noteq> t" "captured b c u lw" "\<not> suspended c u"
  shows "captured b c' u lw"
proof (cases "core b lw")
  case (CThin ow n)
  with assms show ?thesis
    by (cases "ow = u") (auto simp: captured_def leaves_owned leaves_def)
next
  case (CHash h)
  with assms(3) consider "core b (lock_word c) = CHash h" | i where "core b (lock_word c) = CFat i"
    by (auto simp: captured_def)
  then have "core b (lock_word c') = CHash h \<or> is_fat (core b (lock_word c'))"
    using assms(1) by cases (auto simp: leaves_def)
  with CHash assms show ?thesis by (auto simp: captured_def leaves_owned) (auto simp: leaves_def)
qed (use assms in \<open>auto simp: captured_def leaves_owned leaves_def\<close>)

lemma leaves_installing:
  assumes "leaves b t c c'" "u \<noteq> t" "installing b c u s m" "\<not> suspended c u" "\<not> suspended c t" "\<And>ow. s = Some ow \<Longrightarrow> suspended c ow"
  shows "installing b c' u s m"
proof (cases "mon_owner m")
  case None
  with assms(1-3) show ?thesis by (fastforce simp: installing_def leaves_def)
next
  have mon: "monitors c' (monitor_id m) = None \<or> is_fat (core b (lock_word c'))"
    using assms(1,3) by (auto simp: installing_def leaves_def)
  case (Some ow)
  with assms(3) consider n where "core b (lock_word c) = CThin ow n" | i where "core b (lock_word c) = CFat i"
    by (auto simp: installing_def)
  then have "(\<exists>n. core b (lock_word c') = CThin ow n) \<or> is_fat (core b (lock_word c'))"
  proof cases
    case 1
    have "ow \<noteq> t" using Some assms(2,3,5,6) by (auto simp: installing_def split: if_splits)
    with 1 assms(1) show ?thesis by (auto simp: leaves_def)
  qed (use assms(1) in \<open>auto simp: leaves_def\<close>)
  with Some assms(3) mon show ?thesis by (simp add: installing_def)
qed

lemma suspended_safe: "mon_inv b c \<Longrightarrow> suspended c t \<Longrightarrow> safe_point (pcs c t)"
  by (auto simp: mon_inv_def suspended_def susp_ok_def)

lemma leaves_pc_ok:
  assumes "mon_inv b c" "leaves b t c c'" "u \<in> set (threads c)" "u \<noteq> t" "\<not> suspended c t"
  shows "pc_ok b c' u (pcs c u)"
proof -
  have ok: "pc_ok b c u (pcs c u)" using assms(1,3) by (simp add: mon_inv_def)
  have run: "\<not> suspended c u" if "\<not> safe_point (pcs c u)" using that suspended_safe [OF assms(1)] by blast
  have susp: "suspended c ow" if "suspends (pcs c u) = Some ow" for ow using that assms(3) by (auto simp: suspended_def)
  note own = leaves_owned [OF assms(2,4)]
  note cap = leaves_captured [OF assms(2,4)] and inst = leaves_installing [OF assms(2,4)]
  have lock: "abs_lock b c' = Some (u, n)" if "abs_lock b c = Some (u, n)" for n
    using that assms(2,4) by (auto simp: leaves_def)
  have fat: "core b (lock_word c') = CFat i" if "core b (lock_word c) = CFat i" for i
    using that assms(2) by (auto simp: leaves_def)
  show ?thesis
    using ok run susp assms(5) by (cases "pcs c u") (auto simp: own cap inst lock fat)
qed

lemma mon_inv_step:
  assumes inv: "mon_inv b c" and t: "t \<in> set (threads c)" "\<not> suspended c t" and lv: "leaves b t c c'"
    and new: "word_ok b c'" "pc_ok b c' t (pcs c' t)" "susp_ok c' t" "lists_ok c'"
  shows "mon_inv b c'"
proof -
  have th: "threads c' = threads c" and pcs: "\<And>u. u \<noteq> t \<Longrightarrow> pcs c' u = pcs c u" using lv by (auto simp: leaves_def)
  have "pc_ok b c' u (pcs c' u) \<and> susp_ok c' u" if u: "u \<in> set (threads c)" for u
  proof (cases "u = t")
    case False
    have "susp_ok c u" using inv u by (simp add: mon_inv_def)
    moreover have "suspends (pcs c u) \<noteq> Some t" using t u by (auto simp: suspended_def)
    ultimately have "susp_ok c' u" using False by (auto simp: susp_ok_def th pcs)
    with False leaves_pc_ok [OF inv lv u False t(2)] show ?thesis by (simp add: pcs)
  qed (use new in simp)
  with inv new th show ?thesis by (simp add: mon_inv_def)
qed

lemma mon_inv_lists: "mon_inv b c \<Longrightarrow> lists_ok c"
  by (simp add: mon_inv_def)

lemma lists_ok_keep:
  assumes "lists_ok c" "threads c' = threads c" "monitor_list c' = monitor_list c" "\<And>i. monitors c i \<noteq> None \<Longrightarrow> monitors c' i \<noteq> None"
    "\<And>u. u \<noteq> t \<Longrightarrow> pcs c' u = pcs c u" "\<not> is_listing (pcs c' t)"
  shows "lists_ok c'"
proof -
  have same: "pcs c u = pcs c' u" if "is_listing (pcs c' u)" for u using that assms(5,6) by (cases "u = t") auto
  have "\<forall>u \<in> set (threads c). \<forall>k s i. pcs c' u = Listing k s i \<longrightarrow> i \<notin> set (monitor_list c)"
  proof (intro ballI allI impI)
    fix u k s i assume u: "u \<in> set (threads c)" "pcs c' u = Listing k s i"
    then have "pcs c u = Listing k s i" using same [of u] by simp
    with u assms(1) show "i \<notin> set (monitor_list c)" unfolding lists_ok_def by blast
  qed
  moreover have "\<forall>u \<in> set (threads c). \<forall>v \<in> set (threads c). is_listing (pcs c' u) \<and> is_listing (pcs c' v) \<longrightarrow> u = v"
  proof (intro ballI impI)
    fix u v assume uv: "u \<in> set (threads c)" "v \<in> set (threads c)" "is_listing (pcs c' u) \<and> is_listing (pcs c' v)"
    with same have "is_listing (pcs c u)" "is_listing (pcs c v)" by auto
    with uv assms(1) show "u = v" unfolding lists_ok_def by blast
  qed
  ultimately show ?thesis using assms(1-4) by (simp add: lists_ok_def)
qed

section \<open>The three kinds of steps\<close>

definition good :: "bool \<Rightarrow> conf \<Rightarrow> outcome \<Rightarrow> bool" where
  "good b c res \<longleftrightarrow>
     (case res of
        Fatal \<Rightarrow> False
      | Blocked \<Rightarrow> True
      | Next e c' \<Rightarrow> mon_inv b c' \<and> spec_step e (abs_conf b c) = Some (abs_conf b c'))"

lemma good_simps [simp]:
  "\<not> good b c Fatal" "good b c Blocked"
  "good b c (Next e c') \<longleftrightarrow> mon_inv b c' \<and> spec_step e (abs_conf b c) = Some (abs_conf b c')"
  by (simp_all add: good_def)

lemma conf_simps [simp]:
  "lock_word (goto t p c) = lock_word c" "monitors (goto t p c) = monitors c" "monitor_list (goto t p c) = monitor_list c"
  "threads (goto t p c) = threads c" "pcs (goto t p c) = (pcs c)(t := p)"
  "lock_word (put_monitor i m c) = lock_word c" "monitors (put_monitor i m c) = (monitors c)(i \<mapsto> m)"
  "monitor_list (put_monitor i m c) = monitor_list c" "threads (put_monitor i m c) = threads c" "pcs (put_monitor i m c) = pcs c"
  by (simp_all add: goto_def put_monitor_def)

lemma abs_goto [simp]: "abs_lock b (goto t p c) = abs_lock b c" "abs_hash b (goto t p c) = abs_hash b c" "abs_conf b (goto t p c) = abs_conf b c"
  by (simp_all add: abs_lock_def abs_hash_def abs_conf_def split: core.split)

lemma pc_ok_goto [simp]: "pc_ok b (goto u q c) t p = pc_ok b c t p"
  by (cases p) (simp_all add: captured_def installing_def cong: core.case_cong option.case_cong)

lemma sum_list_upd:
  fixes f :: "'a \<Rightarrow> nat"
  assumes "distinct ts" "t \<in> set ts"
  shows "(\<Sum>u\<leftarrow>ts. f ((g(t := p)) u)) + f (g t) = (\<Sum>u\<leftarrow>ts. f (g u)) + f p"
  using assms
proof (induction ts)
  case (Cons u us)
  have "(\<Sum>v\<leftarrow>us. f ((g(t := p)) v)) = (\<Sum>v\<leftarrow>us. f (g v))" if "t \<notin> set us"
    using that by (intro arg_cong [where f = sum_list] map_cong) auto
  with Cons show ?case by (cases "u = t") auto
qed simp

lemma waiters_goto:
  assumes "mon_inv b c" "t \<in> set (threads c)"
  shows "waiters i (goto t p c) + waits i (pcs c t) = waiters i c + waits i p"
  using sum_list_upd [of "threads c" t "waits i" "pcs c" p] assms by (simp add: waiters_def mon_inv_def threads_ok_def)

text \<open>A step that only moves the thread.\<close>

lemma good_goto:
  assumes inv: "mon_inv b c" and t: "t \<in> set (threads c)" "\<not> suspended c t" and p: "pc_ok b c t p" "\<And>i. waits i p = waits i (pcs c t)" "\<not> is_listing p"
    and s: "\<And>ow. suspends p = Some ow \<Longrightarrow> ow \<noteq> t \<and> ow \<in> set (threads c) \<and> safe_point (pcs c ow)"
    and e: "spec_step e (abs_conf b c) = Some (abs_conf b c)"
  shows "good b c (Next e (goto t p c))"
proof -
  have "waiters i (goto t p c) = waiters i c" for i using waiters_goto [OF inv t(1), of i p] p(2) by simp
  then have "word_ok b (goto t p c)" using inv by (simp add: mon_inv_def word_ok_def cong: core.case_cong option.case_cong)
  moreover have "leaves b t c (goto t p c)" by (simp add: leaves_def)
  moreover have "susp_ok (goto t p c) t" using s by (auto simp: susp_ok_def)
  moreover have "lists_ok (goto t p c)" by (rule lists_ok_keep [where t = t, OF mon_inv_lists [OF inv]]) (use p(3) in simp_all)
  ultimately have "mon_inv b (goto t p c)"
    using p(1) by (intro mon_inv_step [OF inv t]) simp_all
  with e show ?thesis by simp
qed

text \<open>A step of the owner, or of anyone while the lock is free, that changes a lock word without a monitor.\<close>

definition abs_core :: "core \<Rightarrow> lock_spec" where
  "abs_core k = (case k of CThin ow n \<Rightarrow> (Some (ow, n), None) | CHash h \<Rightarrow> (None, Some h) | _ \<Rightarrow> (None, None))"

lemma abs_conf_core: "\<not> is_fat (core b (lock_word c)) \<Longrightarrow> abs_conf b c = abs_core (core b (lock_word c))"
  by (auto simp: abs_conf_def abs_lock_def abs_hash_def abs_core_def split: core.splits)

lemma abs_lock_core: "\<not> is_fat (core b (lock_word c)) \<Longrightarrow> abs_lock b c = fst (abs_core (core b (lock_word c)))"
  "\<not> is_fat (core b (lock_word c)) \<Longrightarrow> abs_hash b c = snd (abs_core (core b (lock_word c)))"
  using abs_conf_core [of b c] by (simp_all add: abs_conf_def prod_eq_iff)

lemma good_word:
  assumes inv: "mon_inv b c" and t: "t \<in> set (threads c)" "\<not> suspended c t"
    and old: "core b (lock_word c) = CUnlocked \<or> (\<exists>n. core b (lock_word c) = CThin t n)"
    and new: "core b w = CUnlocked \<or> (\<exists>n. core b w = CThin t n) \<or> (\<exists>h. core b w = CHash h \<and> h \<noteq> 0)" "barrier_ok b w"
    and e: "spec_step e (abs_core (core b (lock_word c))) = Some (abs_core (core b w))"
  shows "good b c (Next e (goto t Running (c\<lparr>lock_word := w\<rparr>)))"
proof -
  let ?c = "goto t Running (c\<lparr>lock_word := w\<rparr>)"
  have nf: "\<not> is_fat (core b (lock_word c))" "\<not> is_fat (core b w)" using old new by auto
  have "word_ok b ?c" using new t by (auto simp: word_ok_def)
  moreover have "leaves b t c ?c"
  proof -
    have abs: "abs_lock b c = fst (abs_core (core b (lock_word c)))" "abs_hash b c = snd (abs_core (core b (lock_word c)))"
      "abs_lock b ?c = fst (abs_core (core b w))" "abs_hash b ?c = snd (abs_core (core b w))"
      using abs_lock_core [OF nf(1)] abs_lock_core [of b ?c] nf(2) by simp_all
    show ?thesis
      unfolding leaves_def abs using old new(1) by (elim disjE exE conjE) (simp_all add: abs_core_def)
  qed
  moreover have "lists_ok ?c" by (rule lists_ok_keep [where t = t, OF mon_inv_lists [OF inv]]) simp_all
  ultimately have "mon_inv b ?c" by (intro mon_inv_step [OF inv t]) (simp_all add: susp_ok_def)
  with e nf show ?thesis by (simp add: abs_conf_core)
qed

text \<open>A step under the mutex of the installed monitor.\<close>

definition abs_mon :: "Monitor \<Rightarrow> lock_spec" where
  "abs_mon m = (map_option (\<lambda>ow. (ow, lock_count m)) (mon_owner m), if HasHashCode m then Some (hash_code m) else None)"

lemma abs_conf_mon:
  assumes "core b (lock_word c) = CFat i" "monitors c i = Some m"
  shows "abs_conf b c = abs_mon m" "abs_lock b c = fst (abs_mon m)" "abs_hash b c = snd (abs_mon m)"
  using assms by (simp_all add: abs_conf_def abs_lock_def abs_hash_def abs_mon_def)

lemma abs_mon_iff:
  "fst (abs_mon m) = Some (u, n) \<longleftrightarrow> mon_owner m = Some u \<and> lock_count m = n" "snd (abs_mon m) = Some h \<longleftrightarrow> HasHashCode m \<and> hash_code m = h"
  by (auto simp: abs_mon_def)

lemma good_monitor:
  assumes inv: "mon_inv b c" and t: "t \<in> set (threads c)" "\<not> suspended c t"
    and fat: "core b (lock_word c) = CFat i" "monitors c i = Some m"
    and ok: "monitor_ok (threads c) m'" "num_waiters m' + waits i (pcs c t) = num_waiters m + waits i p"
    and other: "\<And>u n. u \<noteq> t \<Longrightarrow> (mon_owner m = Some u \<and> lock_count m = n) = (mon_owner m' = Some u \<and> lock_count m' = n)"
    and hash: "HasHashCode m \<Longrightarrow> hash_code m' = hash_code m"
    and p: "pc_ok b (put_monitor i m' c) t p" "suspends p = None" "\<not> is_listing p"
    and e: "spec_step e (abs_mon m) = Some (abs_mon m')"
  shows "good b c (Next e (goto t p (put_monitor i m' c)))"
proof -
  let ?c = "goto t p (put_monitor i m' c)"
  have hash': "HasHashCode m \<Longrightarrow> HasHashCode m' \<and> hash_code m' = hash_code m" using hash by (simp add: HasHashCode_def)
  have fat': "core b (lock_word ?c) = CFat i" "monitors ?c i = Some m'" using fat by simp_all
  have "num_waiters m = waiters i c" using inv fat by (simp add: mon_inv_def word_ok_def)
  moreover have "waiters i ?c = waiters i (goto t p c)" by (simp add: waiters_def)
  ultimately have "num_waiters m' = waiters i ?c" using waiters_goto [OF inv t(1), of i p] ok(2) by simp
  then have "word_ok b ?c" using inv fat ok by (simp add: mon_inv_def word_ok_def)
  moreover have "leaves b t c ?c"
  proof -
    have "\<forall>u n. u \<noteq> t \<longrightarrow> (fst (abs_mon m) = Some (u, n)) = (fst (abs_mon m') = Some (u, n))"
      unfolding abs_mon_iff using other by blast
    moreover have "\<forall>h. snd (abs_mon m) = Some h \<longrightarrow> snd (abs_mon m') = Some h"
      unfolding abs_mon_iff using hash' by blast
    ultimately show ?thesis
      unfolding leaves_def abs_conf_mon [OF fat] abs_conf_mon [OF fat'] using fat(1) by simp
  qed
  moreover have "lists_ok ?c" by (rule lists_ok_keep [where t = t, OF mon_inv_lists [OF inv]]) (use p(3) in auto)
  ultimately have "mon_inv b ?c" using p by (intro mon_inv_step [OF inv t]) (simp_all add: susp_ok_def)
  with e show ?thesis unfolding good_simps abs_conf_mon(1) [OF fat] abs_conf_mon(1) [OF fat'] by simp
qed

end
