(* ===== verification/Monitor_Refinement.thy ===== *)
theory Monitor_Refinement
  imports Monitor_Invariant
begin

text \<open>Every step of every thread, deflation and the read barrier keep the invariant and implement the specification; hence
  mutual exclusion and a stable hash code in every run.\<close>

section \<open>Every step of a thread\<close>

definition ready :: "bool \<Rightarrow> conf \<Rightarrow> tid \<Rightarrow> bool" where
  "ready b c t \<longleftrightarrow> mon_inv b c \<and> t \<in> set (threads c) \<and> \<not> suspended c t"

lemma readyD: "ready b c t \<Longrightarrow> mon_inv b c" "ready b c t \<Longrightarrow> t \<in> set (threads c)" "ready b c t \<Longrightarrow> \<not> suspended c t"
  "ready b c t \<Longrightarrow> 0 < t" "ready b c t \<Longrightarrow> t \<le> kThinLockOwnerMask" "ready b c t \<Longrightarrow> pc_ok b c t (pcs c t)"
  by (auto simp: ready_def mon_inv_def threads_ok_def)

lemma ready_suspends:
  assumes "ready b c t" "suspends (pcs c t) = Some u"
  shows "suspended c u" "u \<noteq> t \<and> u \<in> set (threads c) \<and> safe_point (pcs c u)"
proof -
  have t: "t \<in> set (threads c)" "susp_ok c t" using assms(1) by (simp_all add: ready_def mon_inv_def)
  then show "suspended c u" "u \<noteq> t \<and> u \<in> set (threads c) \<and> safe_point (pcs c u)"
    using assms(2) by (auto simp: suspended_def susp_ok_def)
qed

abbreviation idle :: "pc \<Rightarrow> bool" where
  "idle p \<equiv> \<forall>i. waits i p = 0"

lemma good_move:
  assumes "ready b c t" "idle (pcs c t)" "pc_ok b c t p" "idle p" "suspends p = None" "\<not> is_listing p" "spec_step e (abs_conf b c) = Some (abs_conf b c)"
  shows "good b c (Next e (goto t p c))"
  using assms by (intro good_goto readyD) auto

lemma resume_ok [simp]: "pc_ok b c t (resume_at k)" "waits i (resume_at k) = 0" "suspends (resume_at k) = None" "\<not> is_listing (resume_at k)"
  by (cases k; simp)+

lemma good_resume: "ready b c t \<Longrightarrow> idle (pcs c t) \<Longrightarrow> good b c (Next Tau (goto t (resume_at k) c))"
  by (intro good_move) simp_all

lemma captured_now: "mon_inv b c \<Longrightarrow> captured b c t (lock_word c)"
  by (auto simp: mon_inv_def word_ok_def captured_def owned_by_def abs_lock_def abs_hash_def split: core.splits)

lemma Inflate_good:
  assumes r: "ready b c t" "idle (pcs c t)" and h: "h \<le> kHashMask" and s: "s = None \<or> s = suspends (pcs c t)"
    and own: "case ow of Some u \<Rightarrow> (if u = t then s = None else s = Some u) \<and> ((\<exists>n. core b (lock_word c) = CThin u n) \<or> is_fat (core b (lock_word c)))
      | None \<Rightarrow> s = None \<and> h \<noteq> 0 \<and> (core b (lock_word c) = CHash h \<or> is_fat (core b (lock_word c)))"
  shows "good b c (Inflate ch t k s ow h c)"
proof -
  have susp: "u \<noteq> t \<and> u \<in> set (threads c) \<and> safe_point (pcs c u)" "suspended c u" if "s = Some u" for u
    using ready_suspends [OF r(1), of u] s that by auto
  have "ow = None \<or> ow = Some t \<or> suspended c (the ow)"
    using own susp(2) by (auto split: option.splits if_splits)
  then obtain m where m: "new_Monitor (suspended c) t ow h (new_id ch) = Some m" "mon_owner m = ow" "hash_code m = h" "monitor_id m = new_id ch"
      "num_waiters m = 0" "has_obj m" "lock_count m = 0"
    by (auto simp: new_Monitor_def)
  show ?thesis
  proof (cases "monitors c (new_id ch) \<noteq> None \<or> \<not> new_id ch \<le> kMonitorIdMask")
    case False
    then have "installing b c t s m"
      using own h m by (auto simp: installing_def fresh_monitor_def split: option.splits)
    then have "good b c (Next Tau (goto t (Installing k s m) c))"
      using r susp by (intro good_goto readyD) auto
    with False m show ?thesis by (simp add: Inflate_def)
  qed (simp add: Inflate_def)
qed

lemma InflateThinLocked_good:
  assumes r: "ready b c t" "idle (pcs c t)" and h: "h \<le> kHashMask" and lw: "captured b c t lw" "GetState b lw = kThinLocked"
  shows "good b c (InflateThinLocked ch t k lw h c)"
proof (cases "ThinLockOwner lw = t")
  case True
  with lw have "core b (lock_word c) = CThin t (unat (ThinLockCount lw))" by (simp add: captured_def core_def)
  with True show ?thesis using Inflate_good [OF r h, of None "Some t"] by (simp add: InflateThinLocked_def)
next
  case False
  with r h have "good b c (Next Tau (goto t (SuspendOwner k (ThinLockOwner lw) h) c))" by (intro good_move) simp_all
  with False show ?thesis by (simp add: InflateThinLocked_def)
qed

lemma suspend_owner_good:
  assumes "ready b c t" "pcs c t = SuspendOwner k ow h"
  shows "good b c (suspend_owner ch t k ow h c)"
proof -
  have "ow \<noteq> t" "h \<le> kHashMask" using readyD(6) [OF assms(1)] assms(2) by simp_all
  then have "good b c (Next Tau (goto t (OwnerSuspended k ow h) c))" if "ow \<in> set (threads c)" "safe_point (pcs c ow)"
    using that assms by (intro good_goto readyD) auto
  moreover have "good b c (Next Tau (goto t (resume_at k) c))" using assms by (intro good_resume) auto
  ultimately show ?thesis by (simp add: suspend_owner_def del: good_simps(3))
qed

lemma owner_is_suspended_good:
  assumes "ready b c t" "pcs c t = OwnerSuspended k ow h"
  shows "good b c (owner_is_suspended b ch t k ow h c)"
proof -
  have h: "h \<le> kHashMask" using readyD(6) [OF assms(1)] assms(2) by simp
  have "ow \<noteq> t" using ready_suspends(2) [OF assms(1), of ow] assms(2) by simp
  then have "good b c (Inflate ch t k (Some ow) (Some ow) h c)" if "GetState b (lock_word c) = kThinLocked" "ThinLockOwner (lock_word c) = ow"
    using that assms h by (intro Inflate_good) (auto simp: core_def)
  moreover have "good b c (Next Tau (goto t (resume_at k) c))" using assms by (intro good_resume) auto
  ultimately show ?thesis by (simp add: owner_is_suspended_def Let_def del: good_simps(3))
qed

lemma install_read_good:
  assumes r: "ready b c t" and p: "pcs c t = Installing k s m"
  shows "good b c (install_read b t k s m c)"
proof -
  let ?lw = "lock_word c"
  have inst: "installing b c t s m" using readyD(6) [OF r] p by simp
  have bar: "barrier_ok b ?lw" using r by (simp add: ready_def mon_inv_def word_ok_def)
  have susp: "suspended c u" "u \<noteq> t \<and> u \<in> set (threads c) \<and> safe_point (pcs c u)" if "s = Some u" for u
    using ready_suspends [OF r, of u] p that by simp_all
  have ok: "mon_owner m = None \<or> mon_owner m = Some t \<or> suspended c (the (mon_owner m))"
    using inst susp(1) by (auto simp: installing_def split: option.splits if_splits)
  have move: "good b c (Next Tau (goto t (Publishing k s m' ?lw) c))" if "installing b c t s m'" "publishable b m' ?lw" for m'
    using that r p susp(2) by (intro good_goto readyD) auto
  have res: "good b c (Next Tau (goto t (resume_at k) c))" using r p by (intro good_resume) auto
  show ?thesis
  proof (cases "GetState b ?lw")
    case kThinLocked
    then have own: "mon_owner m = Some (ThinLockOwner ?lw)"
      using inst by (auto simp: installing_def core_def split: option.splits)
    define m' where "m' = m\<lparr>lock_count := unat (ThinLockCount ?lw)\<rparr>"
    have "installing b c t s m'" using inst own by (simp add: m'_def installing_def fresh_monitor_def)
    moreover have "publishable b m' ?lw" using bar kThinLocked own by (simp add: m'_def publishable_def core_def)
    moreover have "install_read b t k s m c = Next Tau (goto t (Publishing k s m' ?lw) c)"
      using ok kThinLocked own by (simp add: install_read_def Install_state_def m'_def)
    ultimately show ?thesis using move by metis
  next
    case kHashCode
    then have own: "mon_owner m = None" "hash_code m = LockWord_GetHashCode ?lw"
      using inst by (auto simp: installing_def core_def split: option.splits)
    have "publishable b m ?lw" using bar kHashCode own by (simp add: publishable_def core_def)
    moreover have "install_read b t k s m c = Next Tau (goto t (Publishing k s m ?lw) c)"
      using kHashCode own by (simp add: install_read_def Install_state_def)
    ultimately show ?thesis using move inst by metis
  next
    case kFatLocked
    then have "install_read b t k s m c = Next Tau (goto t (resume_at k) c)"
      using ok by (auto simp: install_read_def Install_state_def)
    with res show ?thesis by metis
  next
    case kUnlocked
    then show ?thesis using inst by (auto simp: installing_def core_def split: option.splits)
  next
    case kForwardingAddress
    then show ?thesis using inst by (auto simp: installing_def core_def split: option.splits)
  qed
qed

lemma waits_fat: "pc_ok b c t p \<Longrightarrow> waits i p \<noteq> 0 \<Longrightarrow> core b (lock_word c) = CFat i"
  by (induction i p rule: waits.induct) (auto split: if_splits)

lemma no_waiters:
  assumes "mon_inv b c" "core b (lock_word c) \<noteq> CFat i"
  shows "waiters i c = 0"
proof -
  have "waits i (pcs c u) = 0" if "u \<in> set (threads c)" for u
    using that assms waits_fat [of b c u "pcs c u" i] by (auto simp: mon_inv_def)
  then show ?thesis by (simp add: waiters_def)
qed

lemma publish_good:
  assumes r: "ready b c t" and p: "pcs c t = Publishing k s m (lock_word c)"
    and inst: "installing b c t s m" and pub: "publishable b m (lock_word c)"
  defines "c' \<equiv> goto t (Listing k s (monitor_id m)) (put_monitor (monitor_id m) m
      (c\<lparr>lock_word := FromMonitor (monitor_id m) (ReadBarrierState (lock_word c))\<rparr>))"
  shows "mon_inv b c'" "abs_lock b c' = abs_lock b c"
    "abs_hash b c' = (if HasHashCode m then Some (hash_code m) else None)"
    "abs_hash b c = (if mon_owner m = None then Some (hash_code m) else None)"
proof -
  let ?i = "monitor_id m"
  have fresh: "fresh_monitor m" using inst by (simp add: installing_def)
  then have fat: "core b (lock_word c') = CFat ?i" "ReadBarrierState (lock_word c') = ReadBarrierState (lock_word c)"
    using core_fat [of ?i] by (simp_all add: c'_def fresh_monitor_def)
  have m: "monitors c' ?i = Some m" by (simp add: c'_def)
  have old: "core b (lock_word c) = (case mon_owner m of Some ow \<Rightarrow> CThin ow (lock_count m) | None \<Rightarrow> CHash (hash_code m))"
    using pub by (simp add: publishable_def)
  have nf: "core b (lock_word c) \<noteq> CFat i" for i using old by (auto split: option.splits)
  show lock: "abs_lock b c' = abs_lock b c"
    using old by (simp add: abs_conf_mon [OF fat(1) m] abs_mon_def) (auto simp: abs_lock_def split: option.splits)
  show hash: "abs_hash b c' = (if HasHashCode m then Some (hash_code m) else None)"
    "abs_hash b c = (if mon_owner m = None then Some (hash_code m) else None)"
    using old by (simp_all add: abs_conf_mon [OF fat(1) m] abs_mon_def) (auto simp: abs_hash_def split: option.splits)
  have "waiters ?i c' = waiters ?i (goto t (Listing k s ?i) c)" by (simp add: c'_def waiters_def)
  then have "num_waiters m = waiters ?i c'"
    using waiters_goto [OF readyD(1,2) [OF r], of ?i "Listing k s ?i"] no_waiters [OF readyD(1) [OF r] nf] fresh p
    by (simp add: fresh_monitor_def)
  moreover have "monitor_ok (threads c') m"
  proof -
    have "word_ok b c" using r by (simp add: ready_def mon_inv_def)
    then show ?thesis
      using fresh old by (cases "mon_owner m") (simp_all add: c'_def monitor_ok_def fresh_monitor_def word_ok_def)
  qed
  moreover have "barrier_ok b (lock_word c')" using pub fat(2) by (simp add: barrier_ok_def publishable_def)
  ultimately have "word_ok b c'" by (simp add: word_ok_def fat m)
  moreover have "leaves b t c c'"
  proof (cases "mon_owner m")
    case None
    with old fresh show ?thesis
      unfolding leaves_def lock hash fat by (simp add: c'_def fresh_monitor_def HasHashCode_def)
  next
    case (Some ow)
    then have "ow \<noteq> t \<Longrightarrow> suspended c ow" using inst ready_suspends(1) [OF r] p by (simp add: installing_def)
    with Some old show ?thesis unfolding leaves_def lock hash fat by (simp add: c'_def)
  qed
  moreover have "susp_ok c' t"
    using ready_suspends(2) [OF r] p by (auto simp: susp_ok_def c'_def)
  moreover have "lists_ok c'"
  proof -
    have lists: "lists_ok c" and pcs: "\<forall>u \<in> set (threads c). pc_ok b c u (pcs c u)" using r by (simp_all add: ready_def mon_inv_def)
    have none: "\<not> is_listing (pcs c u)" if "u \<in> set (threads c)" for u
      using pcs that nf by (cases "pcs c u") (auto dest!: bspec)
    have "monitors c ?i = None" using inst nf by (auto simp: installing_def)
    then have "?i \<notin> set (monitor_list c)" using lists by (auto simp: lists_ok_def)
    with lists none show ?thesis by (auto simp: lists_ok_def c'_def)
  qed
  moreover have "pc_ok b c' t (pcs c' t)" using fat(1) by (simp add: c'_def)
  ultimately show "mon_inv b c'" by (intro mon_inv_step [OF readyD(1-3) [OF r]])
qed

lemma install_publish_good:
  assumes r: "ready b c t" and p: "pcs c t = Publishing k s m lw"
  shows "good b c (install_publish b ch t k s m lw c)"
proof (cases "cas_ok ch lw c")
  case False
  moreover have "good b c (Next Tau (goto t (resume_at k) c))" using r p by (intro good_resume) auto
  ultimately show ?thesis by (simp add: install_publish_def del: good_simps(3))
next
  case True
  then have lw: "lw = lock_word c" by (simp add: cas_ok_def)
  have ok: "installing b c t s m" "publishable b m lw" using readyD(6) [OF r] p by simp_all
  note pub = publish_good [OF r p [unfolded lw] ok(1) ok(2) [unfolded lw]]
  have st: "GetState b lw = kThinLocked \<longleftrightarrow> mon_owner m \<noteq> None"
    using ok(2) by (auto simp: publishable_def core_def split: LockState.splits option.splits)
  have h: "mon_owner m = None \<Longrightarrow> HasHashCode m" using ok(1) by (simp add: installing_def fresh_monitor_def HasHashCode_def)
  show ?thesis
    using True pub st h by (auto simp: install_publish_def lw abs_conf_def simp del: abs_goto)
qed

lemma core_inv_list:
  "core_inv b (c\<lparr>monitor_list := is\<rparr>) = core_inv b c" "abs_conf b (c\<lparr>monitor_list := is\<rparr>) = abs_conf b c"
proof -
  let ?c = "c\<lparr>monitor_list := is\<rparr>"
  have abs: "abs_lock b ?c = abs_lock b c" "abs_hash b ?c = abs_hash b c" by (simp_all add: abs_lock_def abs_hash_def cong: core.case_cong)
  have pc: "pc_ok b ?c u q = pc_ok b c u q" for u q
    by (cases q) (simp_all add: captured_def installing_def abs cong: core.case_cong option.case_cong)
  have word: "word_ok b ?c = word_ok b c" by (simp add: word_ok_def waiters_def cong: core.case_cong option.case_cong)
  have susp: "susp_ok ?c u = susp_ok c u" for u by (simp add: susp_ok_def)
  show "core_inv b ?c = core_inv b c" unfolding core_inv_def pc word susp by simp
  show "abs_conf b ?c = abs_conf b c" by (simp add: abs_conf_def abs)
qed

lemma list_monitor_good:
  assumes r: "ready b c t" and p: "pcs c t = Listing k s i"
  shows "good b c (list_monitor b t k i c)"
proof -
  let ?d = "goto t (resume_at k) c"
  let ?c = "?d\<lparr>monitor_list := i # monitor_list c\<rparr>"
  have fat: "core b (lock_word c) = CFat i" using readyD(6) [OF r] p by simp
  have inv: "mon_inv b c" "word_ok b c" "lists_ok c" "t \<in> set (threads c)" using r by (simp_all add: ready_def mon_inv_def)
  have "good b c (Next Tau ?d)" using r p by (intro good_resume) auto
  then have d: "mon_inv b ?d" "abs_conf b ?d = abs_conf b c" by simp_all
  have none: "\<not> is_listing (pcs ?d u)" if "u \<in> set (threads c)" for u
    using that inv(3,4) p by (auto simp: lists_ok_def)
  have "monitors c i \<noteq> None" using inv(2) fat by (auto simp: word_ok_def split: option.splits)
  moreover have "i \<notin> set (monitor_list c)" using inv(3,4) p by (auto simp: lists_ok_def)
  ultimately have "lists_ok ?c"
    using inv(3) none unfolding lists_ok_def by (auto simp del: fun_upd_apply) (metis is_listing.simps(1))+
  with d have "good b c (Next Tau ?c)" by (simp only: good_simps mon_inv_core core_inv_list spec_step.simps)
  moreover have "?c = goto t (resume_at k) (c\<lparr>monitor_list := i # monitor_list c\<rparr>)" by (simp add: goto_def)
  moreover have "GetState b (lock_word c) = kFatLocked" using fat by (simp add: core_def split: LockState.splits)
  ultimately show ?thesis by (simp add: list_monitor_def del: good_simps(3))
qed

lemma ready_monitor:
  assumes "ready b c t" "core b (lock_word c) = CFat i"
  obtains m where "monitors c i = Some m" "monitor_ok (threads c) m" "num_waiters m = waiters i c" "waits i (pcs c t) \<le> num_waiters m"
proof -
  have "word_ok b c" using assms(1) by (simp add: ready_def mon_inv_def)
  with assms(2) obtain m where m: "monitors c i = Some m" "monitor_ok (threads c) m" "num_waiters m = waiters i c"
    by (auto simp: word_ok_def split: option.splits)
  have "waits i (pcs c t) \<le> waiters i c"
    using readyD(2) [OF assms(1)] by (simp add: waiters_def member_le_sum_list)
  with m that show ?thesis by simp
qed

fun ret_weight :: "lock_ret \<Rightarrow> nat" where
  "ret_weight RetEnter = 0"
| "ret_weight (RetWait prev) = 1"

lemma waits_Contending: "waits i (Contending r i) = Suc (ret_weight r)"
  by (cases r) simp_all

lemma abs_lock_put:
  "core b (lock_word c) = CFat i \<Longrightarrow> abs_lock b (put_monitor i m c) = fst (abs_mon m)"
  by (simp add: abs_lock_def abs_mon_def)

lemma lock_done_good:
  assumes r: "ready b c t" and fat: "core b (lock_word c) = CFat i" "monitors c i = Some m"
    and w: "w + waits i (pcs c t) = num_waiters m + ret_weight ret" and ow: "ret \<noteq> RetEnter \<Longrightarrow> mon_owner m \<noteq> Some t"
  shows "good b c (lock_done t ret i (Lock_round t (m\<lparr>num_waiters := w\<rparr>)) c)"
proof -
  note gm = good_monitor [OF readyD(1-3) [OF r] fat]
  have ok: "monitor_ok (threads c) m" using ready_monitor [OF r fat(1)] fat(2) by (metis option.inject)
  have t: "t \<in> set (threads c)" using r by (rule readyD)
  show ?thesis
  proof (cases "mon_owner m = None \<or> mon_owner m = Some t")
    case False
    then obtain u where u: "mon_owner m = Some u" "u \<noteq> t" by auto
    let ?m = "m\<lparr>num_waiters := w + 1\<rparr>"
    have "good b c (Next Tau (goto t (Contending ret i) (put_monitor i ?m c)))"
      using ok u w fat by (intro gm) (simp_all add: monitor_ok_def waits_Contending HasHashCode_def abs_lock_put abs_mon_def owned_by_def)
    with u show ?thesis by (simp add: Lock_round_def TryLockLocked_def lock_done_def del: good_simps(3))
  next
    case True
    define m' where "m' = (if mon_owner m = None then m\<lparr>num_waiters := w, mon_owner := Some t\<rparr> else m\<lparr>num_waiters := w, lock_count := lock_count m + 1\<rparr>)"
    have tried: "Lock_round t (m\<lparr>num_waiters := w\<rparr>) = Some (True, m')"
      using True ok by (auto simp: Lock_round_def TryLockLocked_def m'_def monitor_ok_def)
    have ok': "monitor_ok (threads c) m'" using ok t True by (auto simp: m'_def monitor_ok_def)
    show ?thesis
    proof (cases ret)
      case RetEnter
      then have "good b c (Next (Acquired t) (goto t Running (put_monitor i m' c)))"
        using True w ok ok' by (intro gm) (auto simp: m'_def HasHashCode_def abs_mon_def monitor_ok_def)
      with tried RetEnter show ?thesis by (simp add: lock_done_def del: good_simps(3))
    next
      case (RetWait prev)
      then have none: "mon_owner m = None" "lock_count m = 0" using True ow ok by (auto simp: monitor_ok_def)
      then have "good b c (Next (WaitAcquired t) (goto t (Restoring i prev) (put_monitor i m' c)))"
        using w RetWait ok' fat by (intro gm) (auto simp: m'_def HasHashCode_def abs_mon_def abs_lock_put)
      with tried RetWait show ?thesis by (simp add: lock_done_def del: good_simps(3))
    qed
  qed
qed

lemma owned_mon: "owned_by t (fst (abs_mon m)) \<longleftrightarrow> mon_owner m = Some t"
  by (auto simp: owned_by_def abs_mon_def split: option.splits)

lemma lock_round_good:
  assumes r: "ready b c t" and fat: "core b (lock_word c) = CFat i" and w: "waits i (pcs c t) = ret_weight ret"
    and ow: "ret \<noteq> RetEnter \<Longrightarrow> \<not> owned_by t (abs_lock b c)"
  shows "good b c (with_monitor i c (\<lambda>m. lock_done t ret i (Lock_round t m) c))"
proof -
  obtain m where m: "monitors c i = Some m" by (rule ready_monitor [OF r fat])
  have "good b c (lock_done t ret i (Lock_round t (m\<lparr>num_waiters := num_waiters m\<rparr>)) c)"
    using w ow abs_conf_mon(2) [OF fat m] by (intro lock_done_good [OF r fat m]) (simp_all add: owned_mon)
  then show ?thesis by (simp add: with_monitor_def m)
qed

lemma lock_again_good:
  assumes r: "ready b c t" and p: "pcs c t = Contending ret i"
  shows "good b c (with_monitor i c (\<lambda>m. lock_done t ret i (Lock_again t m) c))"
proof -
  have fat: "core b (lock_word c) = CFat i" and ow: "\<not> owned_by t (abs_lock b c)" using readyD(6) [OF r] p by simp_all
  obtain m where m: "monitors c i = Some m" "waits i (pcs c t) \<le> num_waiters m" by (rule ready_monitor [OF r fat])
  have "good b c (lock_done t ret i (Lock_round t (m\<lparr>num_waiters := num_waiters m - 1\<rparr>)) c)"
    using m(2) ow abs_conf_mon(2) [OF fat m(1)] by (intro lock_done_good [OF r fat m(1)]) (simp_all add: p waits_Contending owned_mon)
  then show ?thesis by (simp add: with_monitor_def m Lock_again_def)
qed

lemma captured_cases:
  assumes "captured b c t lw"
  shows "barrier_ok b lw" "GetState b lw \<noteq> kForwardingAddress"
    "GetState b lw = kFatLocked \<Longrightarrow> core b (lock_word c) = CFat (FatLockMonitor lw)"
    "GetState b lw = kUnlocked \<Longrightarrow> \<not> owned_by t (abs_lock b c)"
    "GetState b lw = kThinLocked \<Longrightarrow> ThinLockOwner lw \<noteq> t \<Longrightarrow> \<not> owned_by t (abs_lock b c)"
    "GetState b lw = kThinLocked \<Longrightarrow> ThinLockOwner lw = t \<Longrightarrow> core b (lock_word c) = core b lw"
    "GetState b lw = kHashCode \<Longrightarrow> LockWord_GetHashCode lw \<noteq> 0 \<and> \<not> owned_by t (abs_lock b c) \<and>
       abs_hash b c = Some (LockWord_GetHashCode lw) \<and> (core b (lock_word c) = core b lw \<or> is_fat (core b (lock_word c)))"
  using assms by (simp_all add: captured_def core_def split: LockState.splits if_splits)

lemma good_refused:
  assumes "ready b c t" "idle (pcs c t)" "\<not> owned_by t (abs_lock b c)"
  shows "good b c (Next (NotOwner t) (goto t Running c))" "good b c (Next (TryFailed t) (goto t Running c))"
  using assms by (intro good_move; simp add: abs_conf_def)+

lemma swap_word_good:
  assumes r: "ready b c t" "idle (pcs c t)" and lw: "captured b c t lw" "core b lw = CUnlocked \<or> (\<exists>n. core b lw = CThin t n)"
    and cas: "\<not> with_cas \<Longrightarrow> core b (lock_word c) = core b lw"
    and new: "core b w = CUnlocked \<or> (\<exists>n. core b w = CThin t n) \<or> (\<exists>h. core b w = CHash h \<and> h \<noteq> 0)" "ReadBarrierState w = ReadBarrierState lw"
    and again: "pc_ok b c t again" "idle again" "suspends again = None" "\<not> is_listing again"
    and e: "spec_step e (abs_core (core b lw)) = Some (abs_core (core b w))"
  shows "good b c (swap_word with_cas ch lw (Some w) t e again c)"
proof (cases "\<not> with_cas \<or> cas_ok ch lw c")
  case True
  then have eq: "core b (lock_word c) = core b lw" using cas by (auto simp: cas_ok_def)
  have "barrier_ok b w" using captured_cases(1) [OF lw(1)] new(2) by (simp add: barrier_ok_def)
  then have "good b c (Next e (goto t Running (c\<lparr>lock_word := w\<rparr>)))"
    using lw(2) new(1) e by (intro good_word [OF readyD(1-3) [OF r(1)]]) (simp_all add: eq)
  with True show ?thesis by (simp add: swap_word_def del: good_simps(3))
next
  case False
  have "good b c (Next Tau (goto t again c))" using r again by (intro good_move) simp_all
  with False show ?thesis by (simp add: swap_word_def del: good_simps(3))
qed

lemma MonitorEnter_thin_good:
  assumes r: "ready b c t" "idle (pcs c t)" and lw: "captured b c t lw" "GetState b lw = kThinLocked"
  shows "good b c (MonitorEnter_thin b max_spins ch t trylock n lw c)"
proof (cases "ThinLockOwner lw = t")
  case True
  have k: "core b lw = CThin t (unat (ThinLockCount lw))" using lw(2) True by (simp add: core_def)
  show ?thesis
  proof (cases "ThinLockCount lw + 1 \<le> kThinLockCountMask")
    case small: True
    obtain w where w: "FromThinLockId t (ThinLockCount lw + 1) (ReadBarrierState lw) = Some w"
        "core b w = CThin t (unat (ThinLockCount lw + 1))" "ReadBarrierState w = ReadBarrierState lw"
      by (rule core_thin [OF readyD(4,5) [OF r(1)] small])
    have "unat (ThinLockCount lw + 1) = unat (ThinLockCount lw) + 1"
      using field_bounds(1) [of lw] by (subst unat_add_lem [THEN iffD1]) (simp_all add: mask_values word_le_nat_alt)
    then have "good b c (swap_word b ch lw (Some w) t (Acquired t) (EnterLoop trylock n) c)"
      using captured_cases(6) [OF lw True] w
      by (intro swap_word_good [OF r lw(1)]) (simp_all add: k abs_core_def)
    with True small w(1) show ?thesis by (simp add: MonitorEnter_thin_def)
  next
    case False
    with True show ?thesis using InflateThinLocked_good [OF r _ lw, of 0] by (simp add: MonitorEnter_thin_def)
  qed
next
  case False
  have "good b c (Next Tau (goto t (EnterLoop trylock (n + 1)) c))" using r by (intro good_move) simp_all
  moreover have "good b c (InflateThinLocked ch t (AfterEnter trylock 0) lw 0 c)" by (rule InflateThinLocked_good [OF r _ lw]) simp
  moreover note good_refused(2) [OF r captured_cases(5) [OF lw False]]
  ultimately show ?thesis using False by (cases trylock) (simp_all add: MonitorEnter_thin_def del: good_simps(3))
qed

lemma MonitorEnter_fat_good:
  assumes r: "ready b c t" "idle (pcs c t)" and fat: "core b (lock_word c) = CFat i"
  shows "good b c (MonitorEnter_fat t trylock i c)"
proof (cases trylock)
  case False
  have "good b c (with_monitor i c (\<lambda>m. lock_done t RetEnter i (Lock_round t m) c))"
    using r(2) by (intro lock_round_good [OF r(1) fat]) simp_all
  with False show ?thesis by (simp add: MonitorEnter_fat_def)
next
  case True
  obtain m where m: "monitors c i = Some m" "monitor_ok (threads c) m" by (rule ready_monitor [OF r(1) fat])
  note gm = good_monitor [OF readyD(1-3) [OF r(1)] fat m(1)]
  have t: "t \<in> set (threads c)" using r(1) by (rule readyD)
  consider "mon_owner m = None" | "mon_owner m = Some t" | u where "mon_owner m = Some u" "u \<noteq> t" by (cases "mon_owner m") auto
  then show ?thesis
  proof cases
    case 1
    with m t r(2) have "good b c (Next (Acquired t) (goto t Running (put_monitor i (m\<lparr>mon_owner := Some t\<rparr>) c)))"
      by (intro gm) (simp_all add: monitor_ok_def HasHashCode_def abs_mon_def)
    with 1 m True show ?thesis by (simp add: MonitorEnter_fat_def with_monitor_def TryLockLocked_def monitor_ok_def del: good_simps(3))
  next
    case 2
    with m t r(2) have "good b c (Next (Acquired t) (goto t Running (put_monitor i (m\<lparr>lock_count := lock_count m + 1\<rparr>) c)))"
      by (intro gm) (simp_all add: monitor_ok_def HasHashCode_def abs_mon_def)
    with 2 m True show ?thesis by (simp add: MonitorEnter_fat_def with_monitor_def TryLockLocked_def del: good_simps(3))
  next
    case 3
    with m r(2) have "good b c (Next (TryFailed t) (goto t Running (put_monitor i m c)))"
      by (intro gm) (simp_all add: abs_mon_def owned_by_def)
    with 3 m True show ?thesis by (simp add: MonitorEnter_fat_def with_monitor_def TryLockLocked_def del: good_simps(3))
  qed
qed

lemma MonitorEnter_good:
  assumes r: "ready b c t" "idle (pcs c t)" and lw: "captured b c t lw"
  shows "good b c (MonitorEnter b max_spins ch t trylock n lw c)"
proof (cases "GetState b lw")
  case kUnlocked
  obtain w where w: "FromThinLockId t 0 (ReadBarrierState lw) = Some w" "core b w = CThin t (unat (0 :: 32 word))" "ReadBarrierState w = ReadBarrierState lw"
    by (rule core_thin [OF readyD(4,5) [OF r(1)], of 0]) simp
  have k: "core b lw = CUnlocked" using kUnlocked by (simp add: core_def)
  have "good b c (swap_word True ch lw (Some w) t (Acquired t) (EnterLoop trylock n) c)"
    using w by (intro swap_word_good [OF r lw]) (simp_all add: k abs_core_def)
  with kUnlocked w show ?thesis by (simp add: MonitorEnter_def)
next
  case kThinLocked
  with MonitorEnter_thin_good [OF r lw] show ?thesis by (simp add: MonitorEnter_def)
next
  case kFatLocked
  with MonitorEnter_fat_good [OF r captured_cases(3) [OF lw]] show ?thesis by (simp add: MonitorEnter_def)
next
  case kHashCode
  note h = captured_cases(7) [OF lw kHashCode]
  have k: "core b lw = CHash (LockWord_GetHashCode lw)" using kHashCode by (simp add: core_def)
  have "good b c (Inflate ch t (AfterEnter trylock n) None None (LockWord_GetHashCode lw) c)"
    using h k by (intro Inflate_good [OF r field_bounds(2)]) auto
  with kHashCode show ?thesis by (simp add: MonitorEnter_def)
next
  case kForwardingAddress
  with captured_cases(2) [OF lw] show ?thesis by simp
qed

lemma MonitorExit_thin_good:
  assumes r: "ready b c t" "idle (pcs c t)" and lw: "captured b c t lw" "GetState b lw = kThinLocked" "ThinLockOwner lw = t"
  shows "good b c (MonitorExit b ch t lw c)"
proof -
  let ?n = "ThinLockCount lw"
  have k: "core b lw = CThin t (unat ?n)" using lw(2,3) by (simp add: core_def)
  note swap = swap_word_good [OF r lw(1), of b _ ExitLoop "Released t"] and cas = captured_cases(6) [OF lw]
  show ?thesis
  proof (cases "?n = 0")
    case True
    note d = core_default [OF captured_cases(1) [OF lw(1), unfolded barrier_ok_def]]
    have "good b c (swap_word b ch lw (Some (FromDefault (ReadBarrierState lw))) t (Released t) ExitLoop c)"
      using cas True by (intro swap) (simp_all add: k d abs_core_def)
    with True lw show ?thesis by (simp add: MonitorExit_def)
  next
    case False
    then have n: "unat (?n - 1) = unat ?n - 1" "unat ?n \<noteq> 0" using unat_minus_one [of ?n] by (simp_all add: unat_eq_0)
    then have "?n - 1 \<le> kThinLockCountMask" using field_bounds(1) [of lw] by (simp add: word_le_nat_alt)
    then obtain w where w: "FromThinLockId t (?n - 1) (ReadBarrierState lw) = Some w" "core b w = CThin t (unat (?n - 1))"
        "ReadBarrierState w = ReadBarrierState lw"
      by (rule core_thin [OF readyD(4,5) [OF r(1)]])
    have "good b c (swap_word b ch lw (Some w) t (Released t) ExitLoop c)"
      using cas n w by (intro swap) (simp_all add: k abs_core_def)
    with False lw w(1) show ?thesis by (simp add: MonitorExit_def)
  qed
qed

lemma spec_mon:
  "spec_step (NotOwner t) (abs_mon m) = (if mon_owner m = Some t then None else Some (abs_mon m))"
  "spec_step (BadTimeout t) (abs_mon m) = (if mon_owner m = Some t then Some (abs_mon m) else None)"
  by (auto simp: abs_mon_def owned_by_def split: option.splits)

lemma Monitor_Unlock_good:
  assumes r: "ready b c t" "idle (pcs c t)" and fat: "core b (lock_word c) = CFat i" "monitors c i = Some m"
  shows "case Monitor_Unlock t m of (ok, m) \<Rightarrow> good b c (Next (if ok then Released t else NotOwner t) (goto t Running (put_monitor i m c)))"
proof -
  note gm = good_monitor [OF readyD(1-3) [OF r(1)] fat]
  have ok: "monitor_ok (threads c) m" using ready_monitor [OF r(1) fat(1)] fat(2) by (metis option.inject)
  show ?thesis
  proof (cases "mon_owner m = Some t")
    case False
    with ok r(2) have "good b c (Next (NotOwner t) (goto t Running (put_monitor i m c)))"
      by (intro gm) (simp_all add: spec_mon)
    with False show ?thesis by (simp add: Monitor_Unlock_def del: good_simps(3))
  next
    case True
    let ?m = "if lock_count m = 0 then m\<lparr>mon_owner := None\<rparr> else m\<lparr>lock_count := lock_count m - 1\<rparr>"
    have "good b c (Next (Released t) (goto t Running (put_monitor i ?m c)))"
      using True ok r(2) by (intro gm) (auto simp: monitor_ok_def HasHashCode_def abs_mon_def split: if_splits)
    with True show ?thesis by (simp add: Monitor_Unlock_def del: good_simps(3))
  qed
qed

lemma MonitorExit_good:
  assumes r: "ready b c t" "idle (pcs c t)" and lw: "captured b c t lw"
  shows "good b c (MonitorExit b ch t lw c)"
proof (cases "GetState b lw")
  case kThinLocked
  then show ?thesis
    using MonitorExit_thin_good [OF r lw] good_refused(1) [OF r captured_cases(5) [OF lw]]
    by (cases "ThinLockOwner lw = t") (simp_all add: MonitorExit_def del: good_simps(3))
next
  case kFatLocked
  have fat: "core b (lock_word c) = CFat (FatLockMonitor lw)" using captured_cases(3) [OF lw kFatLocked] .
  obtain m where m: "monitors c (FatLockMonitor lw) = Some m" by (rule ready_monitor [OF r(1) fat])
  obtain ok m' where "Monitor_Unlock t m = (ok, m')" by fastforce
  with Monitor_Unlock_good [OF r fat m] kFatLocked m show ?thesis
    by (simp add: MonitorExit_def with_monitor_def del: good_simps(3))
qed (use good_refused(1) [OF r] captured_cases [OF lw] in \<open>simp_all add: MonitorExit_def del: good_simps(3)\<close>)

lemma IdentityHashCode_good:
  assumes r: "ready b c t" "idle (pcs c t)" and lw: "captured b c t lw"
  shows "good b c (IdentityHashCode b ch t lw c)"
proof (cases "GetState b lw")
  case kUnlocked
  let ?h = "fst (GenerateIdentityHashCode (seed ch))"
  obtain w where w: "FromHashCode ?h (ReadBarrierState lw) = Some w" "core b w = CHash ?h" "ReadBarrierState w = ReadBarrierState lw"
    by (rule core_hash [OF hash_generated(2)])
  have k: "core b lw = CUnlocked" using kUnlocked by (simp add: core_def)
  have "good b c (swap_word True ch lw (Some w) t (Hashed t ?h) HashLoop c)"
    using w by (intro swap_word_good [OF r lw]) (simp_all add: k abs_core_def hash_generated)
  with kUnlocked w show ?thesis by (simp add: IdentityHashCode_def)
next
  case kThinLocked
  with InflateThinLocked_good [OF r hash_generated(2) lw] show ?thesis by (simp add: IdentityHashCode_def)
next
  case kFatLocked
  have fat: "core b (lock_word c) = CFat (FatLockMonitor lw)" using captured_cases(3) [OF lw kFatLocked] .
  obtain m where m: "monitors c (FatLockMonitor lw) = Some m" "monitor_ok (threads c) m" by (rule ready_monitor [OF r(1) fat])
  let ?m = "if HasHashCode m then m else m\<lparr>hash_code := fst (GenerateIdentityHashCode (seed ch))\<rparr>"
  have "good b c (Next (Hashed t (hash_code ?m)) (goto t Running (put_monitor (FatLockMonitor lw) ?m c)))"
    using m(2) r(2) hash_generated
    by (intro good_monitor [OF readyD(1-3) [OF r(1)] fat m(1)])
      (simp_all add: monitor_ok_def HasHashCode_def abs_mon_def cong: option.case_cong)
  with kFatLocked m show ?thesis
    by (simp add: IdentityHashCode_def with_monitor_def Monitor_GetHashCode_def Let_def del: good_simps(3))
next
  case kHashCode
  have "good b c (Next (Hashed t (LockWord_GetHashCode lw)) (goto t Running c))"
    using captured_cases(7) [OF lw kHashCode] r by (intro good_move) (simp_all add: abs_conf_def)
  with kHashCode show ?thesis by (simp add: IdentityHashCode_def del: good_simps(3))
next
  case kForwardingAddress
  with captured_cases(2) [OF lw] show ?thesis by simp
qed

lemma Wait_release_good:
  assumes r: "ready b c t" "idle (pcs c t)" and fat: "core b (lock_word c) = CFat i" "monitors c i = Some m"
  shows "good b c (case Wait_release t ms ns m of
      WaitNotOwner \<Rightarrow> Next (NotOwner t) (goto t Running c)
    | WaitBadTimeout \<Rightarrow> Next (BadTimeout t) (goto t Running c)
    | WaitStarted prev m \<Rightarrow> Next (WaitReleased t prev) (goto t (Waiting i prev) (put_monitor i m c)))"
proof (cases "mon_owner m = Some t")
  case False
  then have "good b c (Next (NotOwner t) (goto t Running c))"
    using abs_conf_mon(2) [OF fat] by (intro good_refused(1) [OF r]) (simp add: owned_mon)
  with False show ?thesis by (simp add: Wait_release_def del: good_simps(3))
next
  case True
  have ok: "monitor_ok (threads c) m" using ready_monitor [OF r(1) fat(1)] fat(2) by (metis option.inject)
  show ?thesis
  proof (cases "ms < 0 \<or> ns < 0 \<or> ns > 999999")
    case bad: True
    have "good b c (Next (BadTimeout t) (goto t Running c))"
      using r True by (intro good_move) (simp_all add: abs_conf_mon(1) [OF fat] spec_mon)
    with True bad show ?thesis by (simp add: Wait_release_def del: good_simps(3))
  next
    case False
    let ?m = "m\<lparr>wait_set := wait_set m @ [t], num_waiters := num_waiters m + 1, lock_count := 0, mon_owner := None\<rparr>"
    have "good b c (Next (WaitReleased t (lock_count m)) (goto t (Waiting i (lock_count m)) (put_monitor i ?m c)))"
      using True ok r(2) fat
      by (intro good_monitor [OF readyD(1-3) [OF r(1)] fat])
        (simp_all add: monitor_ok_def HasHashCode_def abs_mon_def abs_lock_put owned_by_def)
    with True False show ?thesis by (simp add: Wait_release_def AppendToWaitSet_def Let_def del: good_simps(3))
  qed
qed

lemma Monitor_Wait_good:
  assumes r: "ready b c t" "idle (pcs c t)" and lw: "captured b c t lw"
  shows "good b c (Monitor_Wait b ch t ms ns lw c)"
proof (cases "GetState b lw")
  case kThinLocked
  have "good b c (Inflate ch t (AfterWait ms ns) None (Some t) 0 c)" if "ThinLockOwner lw = t"
    using captured_cases(6) [OF lw kThinLocked that] that kThinLocked
    by (intro Inflate_good [OF r]) (simp_all add: core_def)
  with kThinLocked show ?thesis
    using good_refused(1) [OF r captured_cases(5) [OF lw kThinLocked]]
    by (cases "ThinLockOwner lw = t") (simp_all add: Monitor_Wait_def del: good_simps(3))
next
  case kFatLocked
  have fat: "core b (lock_word c) = CFat (FatLockMonitor lw)" using captured_cases(3) [OF lw kFatLocked] .
  obtain m where m: "monitors c (FatLockMonitor lw) = Some m" by (rule ready_monitor [OF r(1) fat])
  from Wait_release_good [OF r fat m] kFatLocked m show ?thesis
    by (simp add: Monitor_Wait_def with_monitor_def del: good_simps(3))
qed (use good_refused(1) [OF r] captured_cases [OF lw] in \<open>simp_all add: Monitor_Wait_def del: good_simps(3)\<close>)

lemma DoNotify_good:
  assumes r: "ready b c t" "idle (pcs c t)" and lw: "captured b c t lw"
  shows "good b c (DoNotify b t all lw c)"
proof (cases "GetState b lw")
  case kThinLocked
  have "good b c (Next Tau (goto t Running c))" using r by (intro good_move) simp_all
  with kThinLocked show ?thesis
    using good_refused(1) [OF r captured_cases(5) [OF lw kThinLocked]]
    by (cases "ThinLockOwner lw = t") (simp_all add: DoNotify_def del: good_simps(3))
next
  case kFatLocked
  let ?i = "FatLockMonitor lw"
  have fat: "core b (lock_word c) = CFat ?i" using captured_cases(3) [OF lw kFatLocked] .
  obtain m where m: "monitors c ?i = Some m" "monitor_ok (threads c) m" by (rule ready_monitor [OF r(1) fat])
  note gm = good_monitor [OF readyD(1-3) [OF r(1)] fat m(1)]
  have "good b c (Next Tau (goto t Running (put_monitor ?i (m\<lparr>wait_set := ws\<rparr>) c)))" for ws
    using m(2) r(2) by (intro gm) (simp_all add: monitor_ok_def HasHashCode_def abs_mon_def cong: option.case_cong)
  moreover have "good b c (Next (NotOwner t) (goto t Running (put_monitor ?i m c)))" if "mon_owner m \<noteq> Some t"
    using m(2) r(2) that by (intro gm) (simp_all add: spec_mon)
  ultimately show ?thesis
    using kFatLocked m by (simp add: DoNotify_def with_monitor_def Monitor_NotifyAll_def Monitor_Notify_def del: good_simps(3))
qed (use good_refused(1) [OF r] captured_cases [OF lw] in \<open>simp_all add: DoNotify_def del: good_simps(3)\<close>)

lemma restore_good:
  assumes r: "ready b c t" and p: "pcs c t = Restoring i prev"
  shows "good b c (with_monitor i c (\<lambda>m. Next (WaitRestored t prev) (goto t Running (put_monitor i (Wait_restore t prev m) c))))"
proof -
  have fat: "core b (lock_word c) = CFat i" and ow: "abs_lock b c = Some (t, 0)" using readyD(6) [OF r] p by simp_all
  obtain m where m: "monitors c i = Some m" "monitor_ok (threads c) m" "waits i (pcs c t) \<le> num_waiters m"
    by (rule ready_monitor [OF r fat])
  have own: "mon_owner m = Some t" "lock_count m = 0"
    using ow abs_conf_mon(2) [OF fat m(1)] by (simp_all add: abs_mon_iff)
  have "good b c (Next (WaitRestored t prev) (goto t Running (put_monitor i (Wait_restore t prev m) c)))"
    using m own p by (intro good_monitor [OF readyD(1-3) [OF r] fat m(1)])
      (simp_all add: Wait_restore_def RemoveFromWaitSet_def monitor_ok_def HasHashCode_def abs_mon_def)
  then show ?thesis by (simp add: with_monitor_def m(1) del: good_simps(3))
qed

lemma thread_step_good:
  assumes r: "ready b c t"
  shows "good b c (thread_step b max_spins ch t (pcs c t) c)"
proof -
  have ok: "pc_ok b c t (pcs c t)" using r by (rule readyD)
  note now = captured_now [OF readyD(1) [OF r]]
  have idle: "idle (pcs c t) \<Longrightarrow> pc_ok b c t p \<Longrightarrow> idle p \<Longrightarrow> suspends p = None \<Longrightarrow> \<not> is_listing p \<Longrightarrow> good b c (Next Tau (goto t p c))" for p
    using r by (intro good_move) simp_all
  show ?thesis
  proof (cases "pcs c t")
    case (Waiting i prev)
    then have "good b c (Next Tau (goto t (Woken i prev) c))" using r ok by (intro good_goto readyD) auto
    with Waiting show ?thesis by (simp del: good_simps(3))
  next
    case (Woken i prev)
    with ok lock_round_good [OF r, of i "RetWait prev"] show ?thesis by (simp del: good_simps(3))
  next
    case (SuspendOwner k ow h)
    with suspend_owner_good [OF r] show ?thesis by simp
  next
    case (OwnerSuspended k ow h)
    with owner_is_suspended_good [OF r] show ?thesis by simp
  next
    case (Installing k s m)
    with install_read_good [OF r] show ?thesis by simp
  next
    case (Publishing k s m lw)
    with install_publish_good [OF r] show ?thesis by simp
  next
    case (Listing k s i)
    with list_monitor_good [OF r] show ?thesis by simp
  next
    case (Contending ret i)
    with lock_again_good [OF r] show ?thesis by simp
  next
    case (Restoring i prev)
    with restore_good [OF r] show ?thesis by simp
  qed (use idle now ok MonitorEnter_good [OF r] MonitorExit_good [OF r] IdentityHashCode_good [OF r] Monitor_Wait_good [OF r] DoNotify_good [OF r]
       in \<open>simp_all del: good_simps(3)\<close>)
qed

section \<open>Deflation and the read barrier\<close>

definition all_safe :: "conf \<Rightarrow> bool" where
  "all_safe c \<longleftrightarrow> (\<forall>t \<in> set (threads c). safe_point (pcs c t))"

lemma core_inv_safe:
  assumes "core_inv b c" "threads c' = threads c" "pcs c' = pcs c" "word_ok b c'" "\<And>t. t \<in> set (threads c) \<Longrightarrow> pc_ok b c' t (pcs c t)"
  shows "core_inv b c'"
proof -
  have "susp_ok c' t = susp_ok c t" for t by (simp add: susp_ok_def assms(2,3))
  with assms(1,4,5) show ?thesis unfolding core_inv_def assms(2,3) by blast
qed

text \<open>A thread at a safe point that does not wait for the monitor relies on nothing.\<close>

lemma safe_pc_ok:
  assumes "safe_point p" "pc_ok b c t p" "\<And>i. core b (lock_word c) = CFat i \<Longrightarrow> waits i p = 0"
  shows "pc_ok b c' t p"
proof (cases p)
  case (Contending r i)
  then show ?thesis using assms(2) assms(3) [of i] by (cases r) simp_all
next
  case (Waiting i prev)
  then show ?thesis using assms(2) assms(3) [of i] by simp
qed (use assms(1,2) in simp_all)

lemma deflate_to:
  assumes inv: "core_inv b c" "all_safe c" and fat: "core b (lock_word c) = CFat i" "monitors c i = Some m" "num_waiters m = 0"
    and w: "\<not> is_fat (core b w)" "abs_core (core b w) = abs_mon m" "barrier_ok b w"
      "case core b w of CThin ow n \<Rightarrow> ow \<in> set (threads c) | CHash h \<Rightarrow> h \<noteq> 0 | CForward \<Rightarrow> False | _ \<Rightarrow> True"
  defines "c' \<equiv> put_monitor i (m\<lparr>has_obj := False\<rparr>) (c\<lparr>lock_word := w\<rparr>)"
  shows "core_inv b c'" "abs_conf b c' = abs_conf b c"
proof -
  have "waiters i c = 0" using inv(1) fat by (simp add: core_inv_def word_ok_def)
  then have none: "waits i (pcs c t) = 0" if "t \<in> set (threads c)" for t
    using that by (simp add: waiters_def)
  show "core_inv b c'"
  proof (rule core_inv_safe [OF inv(1)])
    show "word_ok b c'" using w by (simp add: word_ok_def c'_def split: core.splits)
    show "pc_ok b c' t (pcs c t)" if "t \<in> set (threads c)" for t
    proof (rule safe_pc_ok)
      show "safe_point (pcs c t)" "pc_ok b c t (pcs c t)" using that inv by (simp_all add: core_inv_def all_safe_def)
      show "waits j (pcs c t) = 0" if "core b (lock_word c) = CFat j" for j using that none [OF \<open>t \<in> set (threads c)\<close>] fat(1) by simp
    qed
  qed (simp_all add: c'_def)
  show "abs_conf b c' = abs_conf b c"
    using w(1,2) abs_conf_mon(1) [OF fat(1,2)] abs_conf_core [of b c'] by (simp add: c'_def)
qed

lemma deflated_word_ok:
  assumes "core_inv b c" "core b (lock_word c) = CFat i" "monitors c i = Some m"
  obtains "deflated_word (lock_word c) m = Some None"
  | w where "deflated_word (lock_word c) m = Some (Some w)" "num_waiters m = 0" "\<not> is_fat (core b w)" "abs_core (core b w) = abs_mon m" "barrier_ok b w"
      "case core b w of CThin ow n \<Rightarrow> ow \<in> set (threads c) | CHash h \<Rightarrow> h \<noteq> 0 | CForward \<Rightarrow> False | _ \<Rightarrow> True"
proof -
  have ok: "monitor_ok (threads c) m" and bar: "barrier_ok b (lock_word c)" and th: "threads_ok (threads c)"
    using assms by (simp_all add: core_inv_def word_ok_def)
  note bars = bar [unfolded barrier_ok_def]
  consider "num_waiters m > 0" | ow where "num_waiters m = 0" "mon_owner m = Some ow" "HasHashCode m \<or> lock_count m > unat kThinLockCountMask"
    | ow where "num_waiters m = 0" "mon_owner m = Some ow" "\<not> HasHashCode m" "lock_count m \<le> unat kThinLockCountMask"
    | "num_waiters m = 0" "mon_owner m = None" "HasHashCode m" | "num_waiters m = 0" "mon_owner m = None" "\<not> HasHashCode m"
    by (cases "mon_owner m") fastforce+
  then show ?thesis
  proof cases
    case (3 ow)
    then have ow: "ow \<in> set (threads c)" "0 < ow" "ow \<le> kThinLockOwnerMask" using ok th by (simp_all add: monitor_ok_def threads_ok_def)
    have n: "unat (of_nat (lock_count m) :: 32 word) = lock_count m"
      using 3(4) by (simp add: unat_of_nat mask_values)
    then have "(of_nat (lock_count m) :: 32 word) \<le> kThinLockCountMask" using 3(4) by (simp add: word_le_nat_alt)
    with ow(2,3) obtain w where w: "FromThinLockId ow (of_nat (lock_count m)) (ReadBarrierState (lock_word c)) = Some w"
        "core b w = CThin ow (unat (of_nat (lock_count m) :: 32 word))" "ReadBarrierState w = ReadBarrierState (lock_word c)"
      by (rule core_thin)
    show ?thesis
      using 3 ow n w bars by (intro that(2) [of w]) (simp_all add: deflated_word_def barrier_ok_def abs_core_def abs_mon_def)
  next
    case 4
    obtain w where w: "FromHashCode (hash_code m) (ReadBarrierState (lock_word c)) = Some w" "core b w = CHash (hash_code m)"
        "ReadBarrierState w = ReadBarrierState (lock_word c)"
      by (rule core_hash [of "hash_code m"]) (use ok in \<open>simp add: monitor_ok_def\<close>)
    show ?thesis
      using 4 w bars by (intro that(2) [of w]) (simp_all add: deflated_word_def barrier_ok_def abs_core_def abs_mon_def HasHashCode_def)
  next
    case 5
    show ?thesis
      using 5 core_default [OF bars] bars
      by (intro that(2) [of "FromDefault (ReadBarrierState (lock_word c))"])
        (simp_all add: deflated_word_def barrier_ok_def abs_core_def abs_mon_def)
  next
    case 1
    then show ?thesis by (intro that(1)) (simp add: deflated_word_def)
  next
    case (2 ow)
    then show ?thesis by (intro that(1)) (auto simp: deflated_word_def)
  qed
qed

lemma Deflate_ok:
  assumes "core_inv b c" "all_safe c"
  obtains d c' where "Deflate b c = Some (d, c')" "core_inv b c'" "abs_conf b c' = abs_conf b c" "threads c' = threads c" "pcs c' = pcs c"
    "monitor_list c' = monitor_list c" "\<And>i. monitors c i \<noteq> None \<Longrightarrow> monitors c' i \<noteq> None" "d \<Longrightarrow> \<not> is_fat (core b (lock_word c'))"
proof (cases "GetState b (lock_word c) = kFatLocked")
  case False
  then have "\<not> is_fat (core b (lock_word c))" by (auto simp: core_def split: LockState.splits)
  with False assms that [of True c] show ?thesis by (simp add: Deflate_def)
next
  case True
  let ?i = "FatLockMonitor (lock_word c)"
  have fat: "core b (lock_word c) = CFat ?i" using True by (simp add: core_def)
  then obtain m where m: "monitors c ?i = Some m" using assms(1) by (auto simp: core_inv_def word_ok_def split: option.splits)
  from deflated_word_ok [OF assms(1) fat m] show ?thesis
  proof cases
    case 1
    with True m assms that [of False c] show ?thesis by (simp add: Deflate_def)
  next
    case (2 w)
    note d = deflate_to [OF assms fat m 2(2-6)]
    show ?thesis
      using True m 2(1,3) d
      by (intro that [of True "put_monitor ?i (m\<lparr>has_obj := False\<rparr>) (c\<lparr>lock_word := w\<rparr>)"]) (simp_all add: Deflate_def)
  qed
qed

lemma ReleaseMonitor_ok:
  assumes "core_inv b c" "core b (lock_word c) \<noteq> CFat i"
  shows "core_inv b (ReleaseMonitor i c)" "abs_conf b (ReleaseMonitor i c) = abs_conf b c"
proof -
  let ?c = "ReleaseMonitor i c"
  have sel: "lock_word ?c = lock_word c" "threads ?c = threads c" "pcs ?c = pcs c" "monitors ?c = (monitors c)(i := None)"
    by (simp_all add: ReleaseMonitor_def)
  have abs: "abs_lock b ?c = abs_lock b c" "abs_hash b ?c = abs_hash b c"
    using assms(2) by (simp_all add: abs_lock_def abs_hash_def sel split: core.split)
  have "word_ok b c" using assms(1) by (simp add: core_inv_def)
  then have "word_ok b ?c"
    using assms(2) by (cases "core b (lock_word c)") (auto simp: word_ok_def sel waiters_def split: option.splits)
  moreover have "pc_ok b ?c t p" if "pc_ok b c t p" for t p
  proof -
    have "captured b ?c t lw = captured b c t lw" for lw by (simp add: captured_def abs sel cong: core.case_cong)
    moreover have "installing b ?c t s m" if "installing b c t s m" for s m using that unfolding installing_def sel by auto
    ultimately show ?thesis using that by (cases p) (simp_all add: abs sel)
  qed
  ultimately show "core_inv b ?c" using assms(1) by (intro core_inv_safe [OF assms(1)]) (simp_all add: sel core_inv_def)
  show "abs_conf b ?c = abs_conf b c" by (simp add: abs_conf_def abs)
qed

lemma deflate_monitors_ok:
  assumes "core_inv b c" "all_safe c" "distinct is" "\<forall>i \<in> set is. monitors c i \<noteq> None"
  shows "\<exists>kept c'. deflate_monitors b is c = Some (kept, c') \<and> core_inv b c' \<and> abs_conf b c' = abs_conf b c \<and> threads c' = threads c \<and> pcs c' = pcs c \<and>
    distinct kept \<and> set kept \<subseteq> set is \<and> (\<forall>i \<in> set kept. monitors c' i \<noteq> None) \<and> (\<forall>i. i \<notin> set is \<and> monitors c i \<noteq> None \<longrightarrow> monitors c' i \<noteq> None)"
  using assms
proof (induction "is" arbitrary: c)
  case (Cons i "is")
  then obtain m where m: "monitors c i = Some m" by auto
  obtain d c1 where c1: "(if has_obj m then Deflate b c else Some (True, c)) = Some (d, c1)" "core_inv b c1" "abs_conf b c1 = abs_conf b c"
      "threads c1 = threads c" "pcs c1 = pcs c" "\<And>j. monitors c j \<noteq> None \<Longrightarrow> monitors c1 j \<noteq> None" "d \<Longrightarrow> core b (lock_word c1) \<noteq> CFat i"
  proof (cases "has_obj m")
    case True
    then show ?thesis using Deflate_ok [OF Cons.prems(1,2)] that by metis
  next
    case False
    with Cons.prems(1) m have "core b (lock_word c) \<noteq> CFat i" by (auto simp: core_inv_def word_ok_def monitor_ok_def)
    with False Cons.prems(1) that [of True c] show ?thesis by simp
  qed
  have safe: "all_safe c1" using Cons.prems(2) by (simp add: all_safe_def c1(4,5))
  show ?case
  proof (cases d)
    case True
    let ?c2 = "ReleaseMonitor i c1"
    note rel = ReleaseMonitor_ok [OF c1(2) c1(7) [OF True]]
    have mon: "monitors ?c2 j \<noteq> None" if "j \<noteq> i" "monitors c j \<noteq> None" for j
      using that c1(6) by (simp add: ReleaseMonitor_def)
    have "all_safe ?c2" using safe by (simp add: all_safe_def ReleaseMonitor_def)
    moreover have "\<forall>j \<in> set is. monitors ?c2 j \<noteq> None"
    proof
      fix j assume "j \<in> set is"
      with Cons.prems(3,4) show "monitors ?c2 j \<noteq> None" by (intro mon) auto
    qed
    ultimately obtain kept c' where "deflate_monitors b is ?c2 = Some (kept, c')" "core_inv b c'" "abs_conf b c' = abs_conf b ?c2"
        "threads c' = threads ?c2" "pcs c' = pcs ?c2" "distinct kept" "set kept \<subseteq> set is" "\<forall>i \<in> set kept. monitors c' i \<noteq> None"
        "\<forall>i. i \<notin> set is \<and> monitors ?c2 i \<noteq> None \<longrightarrow> monitors c' i \<noteq> None"
      using Cons.IH [OF rel(1)] Cons.prems(3) by auto
    then show ?thesis
      using True m c1(1,3-5) rel(2) mon by (intro exI [of _ kept] exI [of _ c']) (auto simp: ReleaseMonitor_def)
  next
    case False
    have "\<forall>j \<in> set is. monitors c1 j \<noteq> None" using Cons.prems(4) c1(6) by simp
    then obtain kept c' where "deflate_monitors b is c1 = Some (kept, c')" "core_inv b c'" "abs_conf b c' = abs_conf b c1"
        "threads c' = threads c1" "pcs c' = pcs c1" "distinct kept" "set kept \<subseteq> set is" "\<forall>i \<in> set kept. monitors c' i \<noteq> None"
        "\<forall>i. i \<notin> set is \<and> monitors c1 i \<noteq> None \<longrightarrow> monitors c' i \<noteq> None"
      using Cons.IH [OF c1(2) safe] Cons.prems(3) by auto
    moreover have "monitors c1 i \<noteq> None" using c1(6) m by simp
    ultimately show ?thesis
      using False m c1(1,3-6) Cons.prems(3) by (intro exI [of _ "i # kept"] exI [of _ c']) auto
  qed
qed simp

lemma DeflateMonitors_ok:
  assumes inv: "mon_inv b c" and safe: "\<forall>t \<in> set (threads c). safe_point (pcs c t)"
  obtains c' where "DeflateMonitors b c = Some c'" "mon_inv b c'" "abs_conf b c' = abs_conf b c"
proof -
  have lists: "lists_ok c" and core: "core_inv b c" using inv by (simp_all add: mon_inv_core)
  obtain kept c' where c': "deflate_monitors b (monitor_list c) c = Some (kept, c')" "core_inv b c'" "abs_conf b c' = abs_conf b c"
      "threads c' = threads c" "pcs c' = pcs c" "distinct kept" "\<forall>i \<in> set kept. monitors c' i \<noteq> None"
    using deflate_monitors_ok [OF core, of "monitor_list c"] safe lists by (auto simp: all_safe_def lists_ok_def)
  have none: "\<not> is_listing (pcs c t)" if "t \<in> set (threads c)" for t
    using bspec [OF safe that] by (cases "pcs c t") simp_all
  have "lists_ok (c'\<lparr>monitor_list := kept\<rparr>)"
    using c'(4-7) none by (simp add: lists_ok_def) (metis is_listing.simps(1))
  with c' show ?thesis
    by (intro that [of "c'\<lparr>monitor_list := kept\<rparr>"]) (simp_all add: DeflateMonitors_def mon_inv_core core_inv_list)
qed

lemma barrier_ok_step:
  fixes rb :: "32 word"
  assumes "mon_inv True c"
  defines "c' \<equiv> c\<lparr>lock_word := SetReadBarrierState rb (lock_word c)\<rparr>"
  shows "mon_inv True c'" "abs_conf True c' = abs_conf True c"
proof -
  have sel: "core True (lock_word c') = core True (lock_word c)" "monitors c' = monitors c" "threads c' = threads c" "pcs c' = pcs c" "monitor_list c' = monitor_list c"
    by (simp_all add: c'_def core_barrier)
  have abs: "abs_lock True c' = abs_lock True c" "abs_hash True c' = abs_hash True c"
    unfolding abs_lock_def abs_hash_def sel by simp_all
  have pc: "pc_ok True c' u q = pc_ok True c u q" for u q
    by (cases q) (simp_all only: pc_ok.simps captured_def installing_def abs sel)
  have word: "word_ok True c' = word_ok True c" unfolding word_ok_def barrier_ok_def waiters_def sel by simp
  have susp: "susp_ok c' u = susp_ok c u" for u unfolding susp_ok_def sel by simp
  have "lists_ok c' = lists_ok c" unfolding lists_ok_def sel by simp
  with assms(1) show "mon_inv True c'" unfolding mon_inv_def pc word susp sel by simp
  show "abs_conf True c' = abs_conf True c" by (simp add: abs_conf_def abs)
qed

section \<open>Runs\<close>

text \<open>The contract between an implementation with an invariant and its specification, and what it gives for whole runs.\<close>

inductive runs :: "('c \<Rightarrow> 'e \<Rightarrow> 'c \<Rightarrow> bool) \<Rightarrow> 'c \<Rightarrow> 'e list \<Rightarrow> 'c \<Rightarrow> bool" for step c where
  start: "runs step c [] c"
| more: "runs step c es c' \<Longrightarrow> step c' e c'' \<Longrightarrow> runs step c (es @ [e]) c''"

fun spec_run :: "('e \<Rightarrow> 's \<Rightarrow> 's option) \<Rightarrow> 'e list \<Rightarrow> 's \<Rightarrow> 's option" where
  "spec_run spec [] s = Some s"
| "spec_run spec (e # es) s = Option.bind (spec e s) (spec_run spec es)"

lemma spec_run_snoc: "spec_run spec (es @ [e]) s = Option.bind (spec_run spec es s) (spec e)"
  by (induction es arbitrary: s) (simp_all split: bind_split)

locale simulation =
  fixes step :: "'c \<Rightarrow> 'e \<Rightarrow> 'c \<Rightarrow> bool" and inv :: "'c \<Rightarrow> bool" and abs :: "'c \<Rightarrow> 's" and spec :: "'e \<Rightarrow> 's \<Rightarrow> 's option"
  assumes step_sim: "inv c \<Longrightarrow> step c e c' \<Longrightarrow> inv c' \<and> spec e (abs c) = Some (abs c')"
begin

lemma runs_sim: "runs step c es c' \<Longrightarrow> inv c \<Longrightarrow> inv c' \<and> spec_run spec es (abs c) = Some (abs c')"
  by (induction rule: runs.induct) (auto simp: spec_run_snoc dest: step_sim)

end

lemma mon_step_sim:
  assumes "mon_inv b c" "mon_step b max_spins c e c'"
  shows "mon_inv b c' \<and> spec_step e (abs_conf b c) = Some (abs_conf b c')"
  using assms(2)
proof cases
  case (call t oper)
  then have "good b c (Next Tau (goto t (start_of oper) c))"
    using assms(1) by (intro good_move) (cases oper; simp add: ready_def)+
  with call show ?thesis by simp
next
  case (thread t ch)
  with thread_step_good [of b c t max_spins ch] assms(1) show ?thesis by (simp add: ready_def)
next
  case (barrier rb)
  with barrier_ok_step [of c rb] assms(1) show ?thesis by simp
next
  case deflate
  from DeflateMonitors_ok [OF assms(1) deflate(2)] deflate(1,3) show ?thesis by (metis option.inject spec_step.simps(1))
qed

interpretation mon: simulation "mon_step b max_spins" "mon_inv b" "abs_conf b" spec_step
  by unfold_locales (rule mon_step_sim)

text \<open>An object that no thread has locked.\<close>

definition fresh_conf :: "tid list \<Rightarrow> conf" where
  "fresh_conf ts = \<lparr>lock_word = Default, monitors = Map.empty, monitor_list = [], threads = ts, pcs = (\<lambda>t. Running)\<rparr>"

lemma fresh_conf_ok: "threads_ok ts \<Longrightarrow> mon_inv b (fresh_conf ts)" "abs_conf b (fresh_conf ts) = (None, None)"
proof -
  have k: "core b 0 = CUnlocked" "ReadBarrierState 0 = 0" by (simp_all add: core_def GetState_eq lock_word_fields)
  then show "threads_ok ts \<Longrightarrow> mon_inv b (fresh_conf ts)"
    by (simp add: fresh_conf_def Default_def mon_inv_def word_ok_def barrier_ok_def susp_ok_def lists_ok_def)
  show "abs_conf b (fresh_conf ts) = (None, None)"
    by (simp add: fresh_conf_def Default_def abs_conf_def abs_lock_def abs_hash_def k)
qed

lemma fresh_run:
  assumes "threads_ok ts" "runs (mon_step b max_spins) (fresh_conf ts) es c"
  shows "mon_inv b c" "spec_run spec_step es (None, None) = Some (abs_conf b c)"
  using mon.runs_sim [OF assms(2)] fresh_conf_ok(1) [OF assms(1), of b] fresh_conf_ok(2) [of b ts] by simp_all

text \<open>Running a schedule: which thread calls or goes on, and when the collector acts.\<close>

datatype act = Call tid operation | Go tid choice | Barrier "32 word" | Deflating

fun exec :: "bool \<Rightarrow> nat \<Rightarrow> act \<Rightarrow> conf \<Rightarrow> (event \<times> conf) option" where
  "exec b max_spins (Call t oper) c =
     (if t \<in> set (threads c) \<and> pcs c t = Running \<and> \<not> suspended c t then Some (Tau, goto t (start_of oper) c) else None)"
| "exec b max_spins (Go t ch) c =
     (if t \<in> set (threads c) \<and> \<not> suspended c t
      then (case thread_step b max_spins ch t (pcs c t) c of Next e c' \<Rightarrow> Some (e, c') | _ \<Rightarrow> None) else None)"
| "exec b max_spins (Barrier rb) c = (if b then Some (Tau, c\<lparr>lock_word := SetReadBarrierState rb (lock_word c)\<rparr>) else None)"
| "exec b max_spins Deflating c =
     (if list_all (\<lambda>t. safe_point (pcs c t)) (threads c) then map_option (Pair Tau) (DeflateMonitors b c) else None)"

fun exec_all :: "bool \<Rightarrow> nat \<Rightarrow> act list \<Rightarrow> event list \<times> conf \<Rightarrow> (event list \<times> conf) option" where
  "exec_all b max_spins [] (es, c) = Some (es, c)"
| "exec_all b max_spins (a # as) (es, c) =
     (case exec b max_spins a c of None \<Rightarrow> None | Some (e, c') \<Rightarrow> exec_all b max_spins as (es @ [e], c'))"

lemma exec_step: "exec b max_spins a c = Some (e, c') \<Longrightarrow> mon_step b max_spins c e c'"
  by (cases a) (auto split: if_splits outcome.splits simp: list_all_iff intro: mon_step.intros)

lemma exec_all_runs:
  "exec_all b max_spins as (es, c) = Some (es', c') \<Longrightarrow> runs (mon_step b max_spins) c0 es c \<Longrightarrow> runs (mon_step b max_spins) c0 es' c'"
  by (induction "as" arbitrary: es c) (auto split: option.splits dest: exec_step runs.more)

text \<open>Two threads: the second inflates the lock of the first while it is suspended and blocks; the first leaves, the second
  enters, asks for the hash code and leaves; the monitor is deflated; the first asks for the hash code.\<close>

definition demo_choice :: choice where
  "demo_choice = \<lparr>spurious = False, new_id = 5, seed = 42, found = True\<rparr>"

definition demo_schedule :: "act list" where
  "demo_schedule =
     [Call 1 (EnterOp False), Go 1 demo_choice, Go 1 demo_choice, Call 2 (EnterOp False)] @ replicate 9 (Go 2 demo_choice) @
     [Call 1 ExitOp, Go 1 demo_choice, Go 1 demo_choice, Go 2 demo_choice, Call 2 HashOp, Go 2 demo_choice, Go 2 demo_choice,
      Call 2 ExitOp, Go 2 demo_choice, Go 2 demo_choice, Deflating, Call 1 HashOp, Go 1 demo_choice, Go 1 demo_choice]"

definition demo_events :: "event list" where
  "demo_events = [Tau, Tau, Acquired 1] @ replicate 12 Tau @ [Released 1, Acquired 2, Tau, Tau, Hashed 2 42, Tau, Tau, Released 2, Tau, Tau, Tau, Hashed 1 42]"

lemma demo_run: "map_option fst (exec_all False 0 demo_schedule ([], fresh_conf [1, 2])) = Some demo_events"
  by code_simp

text \<open>How often each thread holds the lock, counted from what happened.\<close>

fun depth_after :: "event \<Rightarrow> (tid \<Rightarrow> nat) \<Rightarrow> tid \<Rightarrow> nat" where
  "depth_after (Acquired t) d = d(t := d t + 1)"
| "depth_after (Released t) d = d(t := d t - 1)"
| "depth_after (WaitReleased t n) d = d(t := 0)"
| "depth_after (WaitAcquired t) d = d(t := 1)"
| "depth_after (WaitRestored t n) d = d(t := n + 1)"
| "depth_after _ d = d"

definition depth :: "event list \<Rightarrow> tid \<Rightarrow> nat" where
  "depth es = fold depth_after es (\<lambda>t. 0)"

definition held :: "(tid \<times> nat) option \<Rightarrow> tid \<Rightarrow> nat" where
  "held l t = (case l of None \<Rightarrow> 0 | Some (ow, n) \<Rightarrow> if ow = t then n + 1 else 0)"

lemma spec_step_held:
  "spec_step e (l, h) = Some (l', h') \<Longrightarrow> depth_after e (held l) = held l'"
  by (cases e) (auto simp: held_def owned_by_def fun_eq_iff split: option.splits if_splits)

lemma spec_run_held: "spec_run spec_step es (None, None) = Some (l, h) \<Longrightarrow> depth es = held l"
proof (induction es arbitrary: l h rule: rev_induct)
  case Nil
  then show ?case by (simp add: depth_def held_def fun_eq_iff)
next
  case (snoc e es)
  then obtain l1 h1 where "spec_run spec_step es (None, None) = Some (l1, h1)" "spec_step e (l1, h1) = Some (l, h)"
    by (auto simp: spec_run_snoc bind_eq_Some_conv)
  with snoc.IH spec_step_held show ?case by (fastforce simp: depth_def)
qed

lemma spec_step_hash:
  "spec_step e (l, h) = Some (l', h') \<Longrightarrow> h = Some x \<or> e = Hashed t x \<or> e = HashInstalled x \<Longrightarrow> h' = Some x"
  by (cases e) (auto split: option.splits if_splits)

lemma spec_run_hash:
  "spec_run spec_step es (None, None) = Some (l, h) \<Longrightarrow> Hashed t x \<in> set es \<Longrightarrow> h = Some x"
proof (induction es arbitrary: l h rule: rev_induct)
  case (snoc e es)
  then obtain l1 h1 where "spec_run spec_step es (None, None) = Some (l1, h1)" "spec_step e (l1, h1) = Some (l, h)"
    by (auto simp: spec_run_snoc bind_eq_Some_conv)
  with snoc.IH snoc.prems(2) show ?case by (auto dest: spec_step_hash)
qed simp

lemma demo_threads: "threads_ok [1, 2]"
  by (simp add: threads_ok_def mask_values word_le_nat_alt)

lemma exec_runs:
  assumes "map_option fst (exec_all b max_spins as ([], c)) = Some es"
  shows "\<exists>c'. runs (mon_step b max_spins) c es c'"
proof -
  from assms obtain c' where "exec_all b max_spins as ([], c) = Some (es, c')" by (auto simp: map_option_case split: option.splits)
  from exec_all_runs [OF this runs.start] show ?thesis by blast
qed

lemma demo_runs:
  "\<exists>c. runs (mon_step False 0) (fresh_conf [1, 2]) demo_events c"
  by (rule exec_runs [OF demo_run])

text \<open>The same up to the point where the first thread holds the lock and the second waits for it.\<close>

definition contended_events :: "event list" where
  "contended_events = [Tau, Tau, Acquired 1] @ replicate 10 Tau"

lemma contended_run: "map_option fst (exec_all False 0 (take 13 demo_schedule) ([], fresh_conf [1, 2])) = Some contended_events"
  by code_simp

lemma contended_runs:
  "\<exists>c. runs (mon_step False 0) (fresh_conf [1, 2]) contended_events c"
  by (rule exec_runs [OF contended_run])

text \<open>C9. The monitor implements a reentrant lock with an identity hash code, and none of its fatal checks can fail. However the
  threads interleave, with spurious failures of compare-and-set, inflation by other threads, deflation and changes of the read
  barrier state, every event of a run from a fresh object is one the specification allows, and the lock word and monitor stand for the state the
  specification is then in; and whatever thread goes on next, and deflation when all threads are at safe points, meets no failed check and no dangling monitor.\<close>

theorem monitor_refines_lock:
  assumes "threads_ok ts" and "runs (mon_step b max_spins) (fresh_conf ts) es c"
  shows "spec_run spec_step es (None, None) = Some (abs_conf b c) \<and>
    (\<forall>t ch. t \<in> set (threads c) \<and> \<not> suspended c t \<longrightarrow> thread_step b max_spins ch t (pcs c t) c \<noteq> Fatal) \<and>
    ((\<forall>t \<in> set (threads c). safe_point (pcs c t)) \<longrightarrow> DeflateMonitors b c \<noteq> None)"
proof (intro conjI allI impI)
  note inv = fresh_run(1) [OF assms]
  show "spec_run spec_step es (None, None) = Some (abs_conf b c)" by (rule fresh_run(2) [OF assms])
  show "thread_step b max_spins ch t (pcs c t) c \<noteq> Fatal" if "t \<in> set (threads c) \<and> \<not> suspended c t" for t ch
    using thread_step_good [of b c t max_spins ch] inv that by (auto simp: ready_def)
  show "DeflateMonitors b c \<noteq> None" if "\<forall>t \<in> set (threads c). safe_point (pcs c t)"
    using DeflateMonitors_ok [OF inv that] by auto
qed

theorem monitor_refines_lock_witness:
  "\<exists>c. runs (mon_step False 0) (fresh_conf [1, 2]) demo_events c \<and> spec_run spec_step demo_events (None, None) = Some (abs_conf False c)"
proof -
  obtain c where c: "runs (mon_step False 0) (fresh_conf [1, 2]) demo_events c" using demo_runs by blast
  with conjunct1 [OF monitor_refines_lock [OF demo_threads c]] show ?thesis by blast
qed

lemma queries_ok:
  assumes "mon_inv b c"
  shows "GetLockOwnerThreadId b c = Some (case abs_lock b c of None \<Rightarrow> 0 | Some (ow, n) \<Rightarrow> ow)"
    "abs_lock b c = Some (ow, n) \<Longrightarrow> \<exists>ws. MonitorInfo b c = Some (Some ow, n + 1, ws)"
proof -
  have w: "word_ok b c" using assms by (simp add: mon_inv_def)
  then show "GetLockOwnerThreadId b c = Some (case abs_lock b c of None \<Rightarrow> 0 | Some (ow, n) \<Rightarrow> ow)"
    by (auto simp: GetLockOwnerThreadId_def GetOwnerThreadId_def word_ok_def abs_lock_def core_def split: LockState.splits option.splits)
  show "abs_lock b c = Some (ow, n) \<Longrightarrow> \<exists>ws. MonitorInfo b c = Some (Some ow, n + 1, ws)"
    using w by (auto simp: MonitorInfo_def word_ok_def abs_lock_def core_def split: LockState.splits option.splits)
qed

text \<open>C10. Mutual exclusion, counted from the calls: of what has happened in a run, at most one thread has entered the monitor more
  often than it has left it (waiting leaves it and returning from a wait enters it as deeply as before); \<^verbatim>\<open>GetLockOwnerThreadId\<close>
  answers that thread, and 0 when there is none; and \<^verbatim>\<open>MonitorInfo\<close> reports it and how often it has entered.\<close>

theorem monitor_mutual_exclusion:
  assumes "threads_ok ts" and "runs (mon_step b max_spins) (fresh_conf ts) es c"
  shows "(\<forall>t u. 0 < depth es t \<and> 0 < depth es u \<longrightarrow> t = u) \<and>
    (\<exists>ow. GetLockOwnerThreadId b c = Some ow \<and> (\<forall>t \<in> set ts. t = ow \<longleftrightarrow> 0 < depth es t)) \<and>
    (\<forall>t. 0 < depth es t \<longrightarrow> (\<exists>ws. MonitorInfo b c = Some (Some t, depth es t, ws)))"
proof -
  note inv = fresh_run(1) [OF assms]
  have d: "depth es = held (abs_lock b c)"
    using spec_run_held [OF fresh_run(2) [OF assms, unfolded abs_conf_def]] .
  then have pos: "0 < depth es t \<longleftrightarrow> (\<exists>n. abs_lock b c = Some (t, n))" for t
    by (auto simp: held_def split: option.splits if_splits)
  have "\<forall>t u. 0 < depth es t \<and> 0 < depth es u \<longrightarrow> t = u" unfolding pos by auto
  moreover have "\<exists>ow. GetLockOwnerThreadId b c = Some ow \<and> (\<forall>t \<in> set ts. t = ow \<longleftrightarrow> 0 < depth es t)"
    unfolding pos queries_ok(1) [OF inv] using assms(1) by (cases "abs_lock b c") (auto simp: threads_ok_def)
  moreover have "\<exists>ws. MonitorInfo b c = Some (Some t, depth es t, ws)" if t: "0 < depth es t" for t
  proof -
    from t obtain n where n: "abs_lock b c = Some (t, n)" unfolding pos by blast
    then have "depth es t = n + 1" by (simp add: d held_def)
    with queries_ok(2) [OF inv n] show ?thesis by simp
  qed
  ultimately show ?thesis by blast
qed

theorem monitor_mutual_exclusion_witness:
  "\<exists>c. runs (mon_step False 0) (fresh_conf [1, 2]) contended_events c \<and> depth contended_events 1 = 1 \<and>
     (\<forall>u. \<not> (0 < depth contended_events u \<and> u \<noteq> 1)) \<and> GetLockOwnerThreadId False c = Some 1"
proof -
  obtain c where c: "runs (mon_step False 0) (fresh_conf [1, 2]) contended_events c" using contended_runs by blast
  have d: "depth contended_events 1 = 1" by code_simp
  note mx = monitor_mutual_exclusion [OF demo_threads c]
  have "\<not> (0 < depth contended_events u \<and> u \<noteq> 1)" for u using conjunct1 [OF mx] d by (metis zero_less_one)
  moreover have "GetLockOwnerThreadId False c = Some 1"
    using conjunct1 [OF conjunct2 [OF mx]] d by (metis list.set_intros(1) zero_less_one)
  ultimately show ?thesis using c d by blast
qed

text \<open>C11. The identity hash code of an object never changes: all calls in a run that return it return the same number, whether
  it was kept in the lock word or in a monitor, across inflation and deflation.\<close>

theorem identity_hash_stable:
  assumes "threads_ok ts" and "runs (mon_step b max_spins) (fresh_conf ts) es c"
  shows "\<forall>t u x y. Hashed t x \<in> set es \<and> Hashed u y \<in> set es \<longrightarrow> x = y \<and> abs_hash b c = Some x"
  using spec_run_hash [OF fresh_run(2) [OF assms, unfolded abs_conf_def]] by (metis option.inject)

theorem identity_hash_stable_witness:
  "\<exists>c. runs (mon_step False 0) (fresh_conf [1, 2]) demo_events c \<and> Hashed 2 42 \<in> set demo_events \<and> abs_hash False c = Some 42"
proof -
  obtain c where c: "runs (mon_step False 0) (fresh_conf [1, 2]) demo_events c" using demo_runs by blast
  have mem: "Hashed 2 42 \<in> set demo_events" by (simp add: demo_events_def)
  have "abs_hash False c = Some 42" using identity_hash_stable [OF demo_threads c, rule_format, of 2 42 2 42] mem by blast
  with c mem show ?thesis by blast
qed

end
