(* ===== verification/Leb128.thy ===== *)
theory Leb128
  imports Marvin_Prelude
begin

text \<open>
  Variable-length integers (src/runtime/leb128.h). The data are a list of bytes and a pointer into them is the list that
  remains; the encoders append to a list, for the pointer and the vector version alike. A 32-bit integer is a
  \<^typ>\<open>32 word\<close>, read as signed where the code does.
\<close>

section \<open>Decoding\<close>

text \<open>Reading a byte as an int and moving on. A read behind the end of the data is None.\<close>

fun next_byte :: "byte list \<Rightarrow> (32 word \<times> byte list) option" where
  "next_byte [] = None"
| "next_byte (b # ptr) = Some (ucast b, ptr)"

definition DecodeUnsignedLeb128 :: "byte list \<Rightarrow> (32 word \<times> byte list) option" where
  "DecodeUnsignedLeb128 data = do {
     (result, ptr) \<leftarrow> next_byte data;
     if result > 0x7f then do {
       (cur, ptr) \<leftarrow> next_byte ptr;
       let result = (result AND 0x7f) OR push_bit 7 (cur AND 0x7f);
       if cur > 0x7f then do {
         (cur, ptr) \<leftarrow> next_byte ptr;
         let result = result OR push_bit 14 (cur AND 0x7f);
         if cur > 0x7f then do {
           (cur, ptr) \<leftarrow> next_byte ptr;
           let result = result OR push_bit 21 (cur AND 0x7f);
           if cur > 0x7f then do {
             (cur, ptr) \<leftarrow> next_byte ptr;
             Some (result OR push_bit 28 cur, ptr)
           }
           else Some (result, ptr)
         }
         else Some (result, ptr)
       }
       else Some (result, ptr)
     }
     else Some (result, ptr)
   }"

text \<open>The value minus one, as a signed number.\<close>

definition DecodeUnsignedLeb128P1 :: "byte list \<Rightarrow> (int \<times> byte list) option" where
  "DecodeUnsignedLeb128P1 data = do {
     (value', ptr) \<leftarrow> DecodeUnsignedLeb128 data;
     Some (sint (value' - 1), ptr)
   }"

text \<open>A shift to the left and an arithmetic shift back.\<close>

definition sign_extend :: "nat \<Rightarrow> 32 word \<Rightarrow> 32 word" where
  "sign_extend n result = signed_drop_bit n (push_bit n result)"

definition DecodeSignedLeb128 :: "byte list \<Rightarrow> (32 word \<times> byte list) option" where
  "DecodeSignedLeb128 data = do {
     (result, ptr) \<leftarrow> next_byte data;
     if result \<le> 0x7f then Some (sign_extend 25 result, ptr)
     else do {
       (cur, ptr) \<leftarrow> next_byte ptr;
       let result = (result AND 0x7f) OR push_bit 7 (cur AND 0x7f);
       if cur \<le> 0x7f then Some (sign_extend 18 result, ptr)
       else do {
         (cur, ptr) \<leftarrow> next_byte ptr;
         let result = result OR push_bit 14 (cur AND 0x7f);
         if cur \<le> 0x7f then Some (sign_extend 11 result, ptr)
         else do {
           (cur, ptr) \<leftarrow> next_byte ptr;
           let result = result OR push_bit 21 (cur AND 0x7f);
           if cur \<le> 0x7f then Some (sign_extend 4 result, ptr)
           else do {
             (cur, ptr) \<leftarrow> next_byte ptr;
             Some (result OR push_bit 28 cur, ptr)
           }
         }
       }
     }
   }"

section \<open>Encoding\<close>

lemma drop_bit_less: "v \<noteq> 0 \<Longrightarrow> unat (drop_bit 7 v) < unat v" for v :: "32 word"
proof -
  assume "v \<noteq> 0"
  then have "0 < unat v" by (simp add: word_unat_eq_iff)
  then show ?thesis by (simp add: unat_drop_bit)
qed

text \<open>The bytes the loop writes.\<close>

function encode_unsigned_loop :: "byte \<Rightarrow> 32 word \<Rightarrow> byte list" where
  "encode_unsigned_loop out value' =
     (if value' \<noteq> 0 then (out OR 0x80) # encode_unsigned_loop (ucast (value' AND 0x7f)) (drop_bit 7 value') else [out])"
  by pat_completeness auto
termination
  by (relation "measure (\<lambda>(out, v). unat v)") (simp_all add: drop_bit_less)

definition EncodeUnsignedLeb128 :: "byte list \<Rightarrow> 32 word \<Rightarrow> byte list" where
  "EncodeUnsignedLeb128 dest value' = dest @ encode_unsigned_loop (ucast (value' AND 0x7f)) (drop_bit 7 value')"

function encode_signed_loop :: "byte \<Rightarrow> 32 word \<Rightarrow> 32 word \<Rightarrow> byte list" where
  "encode_signed_loop out value' extra_bits =
     (if extra_bits \<noteq> 0
      then let value' = signed_drop_bit 7 value'
           in (out OR 0x80) # encode_signed_loop (ucast (value' AND 0x7f)) value' (drop_bit 7 extra_bits)
      else [out])"
  by pat_completeness auto
termination
  by (relation "measure (\<lambda>(out, v, x). unat x)") (simp_all add: drop_bit_less)

definition EncodeSignedLeb128 :: "byte list \<Rightarrow> 32 word \<Rightarrow> byte list" where
  "EncodeSignedLeb128 dest value' =
     (let extra_bits = drop_bit 6 (value' XOR signed_drop_bit 31 value')
      in dest @ encode_signed_loop (ucast (value' AND 0x7f)) value' extra_bits)"

text \<open>The number of leading zero bits.\<close>

fun bit_width :: "nat \<Rightarrow> nat" where
  "bit_width n = (if n = 0 then 0 else Suc (bit_width (n div 2)))"

definition CLZ :: "32 word \<Rightarrow> 32 word" where
  "CLZ x = of_nat (32 - bit_width (unat x))"

definition UnsignedLeb128Size :: "32 word \<Rightarrow> 32 word" where
  "UnsignedLeb128Size data = (let x = 6 + 32 - CLZ (data OR 1) in drop_bit 8 (x * 37))"

definition SignedLeb128Size :: "32 word \<Rightarrow> 32 word" where
  "SignedLeb128Size data =
     (let data = data XOR signed_drop_bit 31 data;
          x = 1 + 6 + 32 - CLZ (data OR 1)
      in drop_bit 8 (x * 37))"

text \<open>Overwriting an encoding: the padding turns the bytes behind the new value into continuation bytes.\<close>

fun pad_leb128 :: "byte list \<Rightarrow> nat \<Rightarrow> byte list" where
  "pad_leb128 bytes 0 = bytes"
| "pad_leb128 bytes (Suc n) = pad_leb128 (butlast bytes @ [last bytes OR 0x80, 0]) n"

definition UpdateUnsignedLeb128 :: "byte list \<Rightarrow> 32 word \<Rightarrow> byte list option" where
  "UpdateUnsignedLeb128 dest value' = do {
     (old_value, old_end) \<leftarrow> DecodeUnsignedLeb128 dest;
     let bytes = EncodeUnsignedLeb128 [] value';
     let old_length = length dest - length old_end;
     Some (pad_leb128 bytes (old_length - length bytes) @ drop (max old_length (length bytes)) dest)
   }"

declare encode_unsigned_loop.simps [simp del] encode_signed_loop.simps [simp del] bit_width.simps [simp del]

section \<open>The round trip\<close>

text \<open>The seven bits that go into byte \<open>i\<close>.\<close>

definition septet :: "nat \<Rightarrow> 32 word \<Rightarrow> byte" where
  "septet i v = ucast (drop_bit (7 * i) v AND 0x7f)"

lemma mask_7f: "(0x7f :: 32 word) = mask 7"
  by (simp add: mask_eq_exp_minus_1)

lemma bit_80: "bit (0x80 :: byte) n \<longleftrightarrow> n = 7" "bit (0x80 :: 32 word) n \<longleftrightarrow> n = 7"
proof -
  have "bit (2 ^ 7 :: byte) n \<longleftrightarrow> n = 7" "bit (2 ^ 7 :: 32 word) n \<longleftrightarrow> n = 7" unfolding bit_exp_iff by auto
  then show "bit (0x80 :: byte) n \<longleftrightarrow> n = 7" "bit (0x80 :: 32 word) n \<longleftrightarrow> n = 7" by simp_all
qed

lemma bit_septet: "bit (septet i v) n \<longleftrightarrow> n < 7 \<and> bit v (7 * i + n)"
  unfolding septet_def mask_7f by (auto simp: bit_simps dest: bit_imp_le_length)

lemma septet_small: "\<not> 0x7f < (ucast (septet i v) :: 32 word)"
proof -
  have "take_bit 7 (ucast (septet i v) :: 32 word) = ucast (septet i v)"
    by (rule bit_eqI) (auto simp: bit_simps bit_septet)
  moreover have "unat (take_bit 7 (ucast (septet i v) :: 32 word)) < 2 ^ 7"
    using take_bit_nat_less_exp by (simp add: unsigned_take_bit_eq flip: power_numeral)
  ultimately show ?thesis by (simp add: word_less_nat_alt)
qed

lemma septet_continues: "0x7f < (ucast (septet i v OR 0x80) :: 32 word)"
proof (rule ccontr)
  assume "\<not> ?thesis"
  then have "unat (ucast (septet i v OR 0x80) :: 32 word) < 2 ^ 7" by (simp add: word_less_nat_alt not_less word_le_nat_alt)
  moreover have "bit (ucast (septet i v OR 0x80) :: 32 word) 7"
    by (simp add: bit_simps bit_80)
  ultimately show False using bit_small by blast
qed

lemma septet_low: "(ucast (septet i v OR 0x80) :: 32 word) AND 0x7f = ucast (septet i v)"
  "(ucast (septet i v) :: 32 word) AND 0x7f = ucast (septet i v)"
proof -
  have "bit (septet i v OR 0x80) n \<longleftrightarrow> n = 7 \<or> bit (septet i v) n" for n
    by (simp only: bit_or_iff bit_80) auto
  then show "(ucast (septet i v OR 0x80) :: 32 word) AND 0x7f = ucast (septet i v)"
    unfolding mask_7f(1) by (intro bit_eqI) (auto simp: bit_and_iff bit_ucast_iff bit_mask_iff bit_septet)
  show "(ucast (septet i v) :: 32 word) AND 0x7f = ucast (septet i v)"
    unfolding mask_7f(1) by (intro bit_eqI) (auto simp: bit_and_iff bit_ucast_iff bit_mask_iff bit_septet)
qed

lemma drop_bit_zero: "drop_bit k v = 0 \<longleftrightarrow> unat v < 2 ^ k" for v :: "32 word"
  by (simp add: word_unat_eq_iff unat_drop_bit div_eq_0_iff)

lemma encode_unsigned_cases:
  "EncodeUnsignedLeb128 [] v =
     (if unat v < 2 ^ 7 then [septet 0 v]
      else if unat v < 2 ^ 14 then [septet 0 v OR 0x80, septet 1 v]
      else if unat v < 2 ^ 21 then [septet 0 v OR 0x80, septet 1 v OR 0x80, septet 2 v]
      else if unat v < 2 ^ 28 then [septet 0 v OR 0x80, septet 1 v OR 0x80, septet 2 v OR 0x80, septet 3 v]
      else [septet 0 v OR 0x80, septet 1 v OR 0x80, septet 2 v OR 0x80, septet 3 v OR 0x80, septet 4 v])"
proof -
  have "unat v < 2 ^ 32" using unsigned_less [of v, where 'a = nat] by simp
  then have "drop_bit 35 v = 0" by (simp add: drop_bit_zero)
  then show ?thesis
    by (simp add: EncodeUnsignedLeb128_def encode_unsigned_loop.simps drop_bit_zero septet_def)
qed

lemma bit_join:
  "bit (push_bit (7 * i) (ucast (septet i v)) :: 32 word) n \<longleftrightarrow> 7 * i \<le> n \<and> n < 7 * Suc i \<and> bit v n"
  by (auto simp: bit_simps bit_septet dest: bit_imp_le_length)

lemma join_septets:
  "unat v < 2 ^ 7 \<Longrightarrow> ucast (septet 0 v) = v"
  "unat v < 2 ^ 14 \<Longrightarrow> ucast (septet 0 v) OR push_bit 7 (ucast (septet 1 v)) = v"
  "unat v < 2 ^ 21 \<Longrightarrow> ucast (septet 0 v) OR push_bit 7 (ucast (septet 1 v)) OR push_bit 14 (ucast (septet 2 v)) = v"
  "unat v < 2 ^ 28 \<Longrightarrow> ucast (septet 0 v) OR push_bit 7 (ucast (septet 1 v)) OR push_bit 14 (ucast (septet 2 v)) OR
     push_bit 21 (ucast (septet 3 v)) = v"
  "ucast (septet 0 v) OR push_bit 7 (ucast (septet 1 v)) OR push_bit 14 (ucast (septet 2 v)) OR
     push_bit 21 (ucast (septet 3 v)) OR push_bit 28 (ucast (septet 4 v)) = v"
proof -
  note parts = bit_join [of 0] bit_join [of 1] bit_join [of 2] bit_join [of 3] bit_join [of 4]
  show "ucast (septet 0 v) = v" if "unat v < 2 ^ 7"
    using parts bit_small [OF _ that] by (intro bit_eqI) auto
  show "ucast (septet 0 v) OR push_bit 7 (ucast (septet 1 v)) = v" if "unat v < 2 ^ 14"
    using parts bit_small [OF _ that] by (intro bit_eqI) (auto simp: bit_or_iff not_less)
  show "ucast (septet 0 v) OR push_bit 7 (ucast (septet 1 v)) OR push_bit 14 (ucast (septet 2 v)) = v" if "unat v < 2 ^ 21"
    using parts bit_small [OF _ that] by (intro bit_eqI) (auto simp: bit_or_iff not_less)
  show "ucast (septet 0 v) OR push_bit 7 (ucast (septet 1 v)) OR push_bit 14 (ucast (septet 2 v)) OR
     push_bit 21 (ucast (septet 3 v)) = v" if "unat v < 2 ^ 28"
    using parts bit_small [OF _ that] by (intro bit_eqI) (auto simp: bit_or_iff not_less)
  show "ucast (septet 0 v) OR push_bit 7 (ucast (septet 1 v)) OR push_bit 14 (ucast (septet 2 v)) OR
     push_bit 21 (ucast (septet 3 v)) OR push_bit 28 (ucast (septet 4 v)) = v"
    using parts bit_imp_le_length [of v] by (intro bit_eqI) (auto simp: bit_or_iff not_less)
qed

text \<open>The five shapes of an encoding.\<close>

abbreviation more :: "byte \<Rightarrow> bool" where
  "more b \<equiv> 0x7f < (ucast b :: 32 word)"

abbreviation low7 :: "byte \<Rightarrow> 32 word" where
  "low7 b \<equiv> ucast b AND 0x7f"

lemma decode_shapes:
  "\<not> more b0 \<Longrightarrow> DecodeUnsignedLeb128 (b0 # r) = Some (ucast b0, r)"
  "more b0 \<Longrightarrow> \<not> more b1 \<Longrightarrow> DecodeUnsignedLeb128 (b0 # b1 # r) = Some (low7 b0 OR push_bit 7 (low7 b1), r)"
  "more b0 \<Longrightarrow> more b1 \<Longrightarrow> \<not> more b2 \<Longrightarrow>
     DecodeUnsignedLeb128 (b0 # b1 # b2 # r) = Some ((low7 b0 OR push_bit 7 (low7 b1)) OR push_bit 14 (low7 b2), r)"
  "more b0 \<Longrightarrow> more b1 \<Longrightarrow> more b2 \<Longrightarrow> \<not> more b3 \<Longrightarrow>
     DecodeUnsignedLeb128 (b0 # b1 # b2 # b3 # r) =
       Some (((low7 b0 OR push_bit 7 (low7 b1)) OR push_bit 14 (low7 b2)) OR push_bit 21 (low7 b3), r)"
  "more b0 \<Longrightarrow> more b1 \<Longrightarrow> more b2 \<Longrightarrow> more b3 \<Longrightarrow>
     DecodeUnsignedLeb128 (b0 # b1 # b2 # b3 # b4 # r) =
       Some ((((low7 b0 OR push_bit 7 (low7 b1)) OR push_bit 14 (low7 b2)) OR push_bit 21 (low7 b3)) OR push_bit 28 (ucast b4), r)"
  by (simp_all add: DecodeUnsignedLeb128_def Let_def)

text \<open>The encoding in \<open>m\<close> bytes, longer than necessary if need be.\<close>

definition encoding :: "nat \<Rightarrow> 32 word \<Rightarrow> byte list" where
  "encoding m v = map (\<lambda>i. septet i v OR 0x80) [0..<m - 1] @ [septet (m - 1) v]"

lemma encoding_simps:
  "encoding 1 v = [septet 0 v]" "encoding 2 v = [septet 0 v OR 0x80, septet 1 v]"
  "encoding 3 v = [septet 0 v OR 0x80, septet 1 v OR 0x80, septet 2 v]"
  "encoding 4 v = [septet 0 v OR 0x80, septet 1 v OR 0x80, septet 2 v OR 0x80, septet 3 v]"
  "encoding 5 v = [septet 0 v OR 0x80, septet 1 v OR 0x80, septet 2 v OR 0x80, septet 3 v OR 0x80, septet 4 v]"
  "encoding (Suc 0) v = [septet 0 v]" "encoding (Suc (Suc 0)) v = encoding 2 v" "encoding (Suc (Suc (Suc 0))) v = encoding 3 v"
  "encoding (Suc (Suc (Suc (Suc 0)))) v = encoding 4 v" "encoding (Suc (Suc (Suc (Suc (Suc 0))))) v = encoding 5 v"
  by (simp_all add: encoding_def upt_rec numeral_eq_Suc)

lemma encoding_shortest:
  "EncodeUnsignedLeb128 [] v = encoding (length (EncodeUnsignedLeb128 [] v)) v"
  by (simp add: encode_unsigned_cases encoding_simps)

lemma encoding_fits:
  "unat v < 2 ^ (7 * length (EncodeUnsignedLeb128 [] v))" "0 < length (EncodeUnsignedLeb128 [] v)"
  "length (EncodeUnsignedLeb128 [] v) \<le> 5"
proof -
  have "unat v < 2 ^ 32" using unsigned_less [of v, where 'a = nat] by simp
  then show "unat v < 2 ^ (7 * length (EncodeUnsignedLeb128 [] v))" "0 < length (EncodeUnsignedLeb128 [] v)"
    "length (EncodeUnsignedLeb128 [] v) \<le> 5"
    by (simp_all add: encode_unsigned_cases)
qed

lemma decode_encoding:
  assumes "unat v < 2 ^ (7 * m)" "0 < m" "m \<le> 5"
  shows "DecodeUnsignedLeb128 (encoding m v @ rest) = Some (v, rest)"
proof -
  note join = join_septets [of v, folded or.assoc]
  consider "m = 1" | "m = 2" | "m = 3" | "m = 4" | "m = 5" using assms(2,3) by linarith
  then show ?thesis
  proof cases
    case 1
    then show ?thesis
      using join(1) assms(1) decode_shapes(1) [OF septet_small, of 0 v rest] by (simp add: encoding_simps)
  next
    case 2
    then show ?thesis
      using join(2) assms(1) decode_shapes(2) [OF septet_continues septet_small, of 0 v 1 v rest, unfolded septet_low]
      by (simp add: encoding_simps)
  next
    case 3
    then show ?thesis
      using join(3) assms(1) decode_shapes(3) [OF septet_continues septet_continues septet_small, of 0 v 1 v 2 v rest, unfolded septet_low]
      by (simp add: encoding_simps)
  next
    case 4
    then show ?thesis
      using join(4) assms(1)
        decode_shapes(4) [OF septet_continues septet_continues septet_continues septet_small, of 0 v 1 v 2 v 3 v rest, unfolded septet_low]
      by (simp add: encoding_simps)
  next
    case 5
    then show ?thesis
      using join(5) by (simp only: encoding_simps append_Cons append_Nil decode_shapes septet_small septet_continues septet_low)
  qed
qed

lemma decode_encode_unsigned: "DecodeUnsignedLeb128 (EncodeUnsignedLeb128 [] v @ rest) = Some (v, rest)"
  by (subst encoding_shortest) (rule decode_encoding [OF encoding_fits])

section \<open>Sizes\<close>

lemma bit_width_le: "bit_width n \<le> k \<longleftrightarrow> n < 2 ^ k"
proof (induction n arbitrary: k rule: bit_width.induct)
  case (1 n)
  show ?case
  proof (cases k)
    case 0
    then show ?thesis by (subst bit_width.simps) simp
  next
    case (Suc k')
    then show ?thesis using 1 [of k'] by (subst bit_width.simps) (auto simp: less_mult_imp_div_less)
  qed
qed

lemma div7_trick:
  assumes "n \<le> 85"
  shows "unat (drop_bit 8 (of_nat n * 37 :: 32 word)) = n div 7"
proof -
  have n: "n = 7 * (n div 7) + n mod 7" and "n mod 7 \<le> 6" by simp_all
  with assms have "3 * (n div 7) + 37 * (n mod 7) < 256" by linarith
  moreover have "n * 37 = 256 * (n div 7) + (3 * (n div 7) + 37 * (n mod 7))" using n by linarith
  ultimately have "n * 37 div 256 = n div 7" by simp
  moreover have "unat (of_nat n * 37 :: 32 word) = n * 37"
    using assms by (simp add: unat_word_ariths unsigned_of_nat take_bit_nat_eq_self)
  ultimately show ?thesis
    by (simp add: unat_drop_bit)
qed

text \<open>The bits to encode, at least one.\<close>

definition bits_to_encode :: "32 word \<Rightarrow> nat" where
  "bits_to_encode v = bit_width (unat (v OR 1))"

lemma bits_to_encode_le: "0 < k \<Longrightarrow> bits_to_encode v \<le> k \<longleftrightarrow> unat v < 2 ^ k"
proof -
  assume "0 < k"
  then have "drop_bit k (v OR 1) = drop_bit k v"
    by (intro bit_eqI) (auto simp: bit_simps)
  then show ?thesis
    by (simp add: bits_to_encode_def bit_width_le flip: drop_bit_zero)
qed

lemma bits_to_encode_bounds: "0 < bits_to_encode v" "bits_to_encode v \<le> 32"
proof -
  have "v OR 1 \<noteq> 0" by (simp add: or_eq_0_iff)
  then show "0 < bits_to_encode v" by (simp add: bits_to_encode_def bit_width.simps word_unat_eq_iff)
  show "bits_to_encode v \<le> 32" using bits_to_encode_le [of 32 v] unsigned_less [of v, where 'a = nat] by simp
qed

lemma leb128_size: "unat (drop_bit 8 ((of_nat a + 32 - CLZ (v OR 1)) * 37)) = (a + bits_to_encode v) div 7" if "a \<le> 7"
proof -
  have eq: "of_nat a + 32 - CLZ (v OR 1) = (of_nat (a + bits_to_encode v) :: 32 word)"
    using bits_to_encode_bounds(2) [of v] by (simp add: CLZ_def bits_to_encode_def of_nat_diff)
  show ?thesis
    unfolding eq using bits_to_encode_bounds(2) [of v] that by (intro div7_trick) simp
qed

lemma UnsignedLeb128Size_eq: "unat (UnsignedLeb128Size v) = length (EncodeUnsignedLeb128 [] v)"
proof -
  let ?n = "bits_to_encode v"
  have size: "unat (UnsignedLeb128Size v) = (6 + ?n) div 7"
    using leb128_size [of 6 v] by (simp add: UnsignedLeb128Size_def Let_def)
  have "0 < ?n" "?n \<le> 32" by (rule bits_to_encode_bounds)+
  then show ?thesis
    using bits_to_encode_le [of 7 v] bits_to_encode_le [of 14 v] bits_to_encode_le [of 21 v] bits_to_encode_le [of 28 v]
    unfolding size encode_unsigned_cases by (auto simp: not_less)
qed

section \<open>Signed numbers\<close>

definition sseptet :: "nat \<Rightarrow> 32 word \<Rightarrow> byte" where
  "sseptet i v = ucast (signed_drop_bit (7 * i) v AND 0x7f)"

text \<open>The bits that differ from the sign.\<close>

definition magnitude :: "32 word \<Rightarrow> 32 word" where
  "magnitude v = v XOR signed_drop_bit 31 v"

lemma bit_sseptet: "i \<le> 4 \<Longrightarrow> bit (sseptet i v) n \<longleftrightarrow> n < 7 \<and> bit v (min 31 (7 * i + n))"
  unfolding sseptet_def mask_7f
  by (cases "7 * i + n" "31 :: nat" rule: linorder_cases) (auto simp: bit_simps min_def)

lemma sseptet_septet: "i \<le> 4 \<Longrightarrow> \<exists>u. sseptet i v = septet 0 u"
  by (rule exI [of _ "ucast (sseptet i v)"]) (auto intro!: bit_eqI simp: bit_septet bit_sseptet bit_simps)

lemma encode_signed_cases:
  "EncodeSignedLeb128 [] v =
     (if unat (magnitude v) < 2 ^ 6 then [sseptet 0 v]
      else if unat (magnitude v) < 2 ^ 13 then [sseptet 0 v OR 0x80, sseptet 1 v]
      else if unat (magnitude v) < 2 ^ 20 then [sseptet 0 v OR 0x80, sseptet 1 v OR 0x80, sseptet 2 v]
      else if unat (magnitude v) < 2 ^ 27 then [sseptet 0 v OR 0x80, sseptet 1 v OR 0x80, sseptet 2 v OR 0x80, sseptet 3 v]
      else [sseptet 0 v OR 0x80, sseptet 1 v OR 0x80, sseptet 2 v OR 0x80, sseptet 3 v OR 0x80, sseptet 4 v])"
proof -
  have "unat (magnitude v) < 2 ^ 32" using unsigned_less [of "magnitude v", where 'a = nat] by simp
  then have "drop_bit 34 (magnitude v) = 0" by (simp add: drop_bit_zero)
  then show ?thesis
    by (simp add: EncodeSignedLeb128_def encode_signed_loop.simps drop_bit_zero sseptet_def Let_def flip: magnitude_def)
qed

lemma sseptet_facts:
  assumes "i \<le> 4"
  shows "\<not> more (sseptet i v)" "more (sseptet i v OR 0x80)" "low7 (sseptet i v OR 0x80) = ucast (sseptet i v)"
    "low7 (sseptet i v) = ucast (sseptet i v)"
  using sseptet_septet [OF assms, of v] septet_small septet_continues septet_low by auto

lemma bit_sjoin:
  "i \<le> 4 \<Longrightarrow> bit (push_bit (7 * i) (ucast (sseptet i v)) :: 32 word) n \<longleftrightarrow> 7 * i \<le> n \<and> n < 7 * Suc i \<and> bit v n"
  by (cases "n" "31 :: nat" rule: linorder_cases) (auto simp: bit_simps bit_sseptet min_def dest: bit_imp_le_length)

lemma bit_sign_extend:
  assumes "k < 32"
  shows "bit (sign_extend k r) n \<longleftrightarrow> n < 32 \<and> bit r (min (31 - k) n)"
proof (cases "n < 32 - k")
  case True
  then have "min (31 - k) n = n" "k + n < 32" by auto
  with True show ?thesis
    by (simp add: sign_extend_def bit_signed_drop_bit_iff bit_push_bit_iff)
next
  case False
  then have "n < 32 \<Longrightarrow> min (31 - k) n = 31 - k" by auto
  with False assms show ?thesis
    by (simp add: sign_extend_def bit_signed_drop_bit_iff bit_push_bit_iff)
qed

lemma magnitude_bits: "unat (magnitude v) < 2 ^ k \<Longrightarrow> k \<le> n \<Longrightarrow> n < 32 \<Longrightarrow> bit v n \<longleftrightarrow> bit v 31"
proof -
  assume "unat (magnitude v) < 2 ^ k" "k \<le> n" "n < 32"
  then have "\<not> bit (magnitude v) n" using bit_small [of "magnitude v" n k] by auto
  moreover have "bit (magnitude v) n \<longleftrightarrow> bit v n \<noteq> bit v 31"
    using \<open>n < 32\<close> by (cases "n = 0") (auto simp: magnitude_def bit_simps)
  ultimately show ?thesis by blast
qed

lemma extend_joined:
  assumes "k = 32 - 7 * m" "0 < m" "m \<le> 4" and "unat (magnitude v) < 2 ^ (7 * m - 1)"
    and "\<And>n. bit r n \<longleftrightarrow> n < 7 * m \<and> bit v n"
  shows "sign_extend k r = v"
proof (rule bit_eqI)
  fix n
  have k: "k < 32" "31 - k = 7 * m - 1" using assms(1-3) by auto
  have "bit v n \<longleftrightarrow> n < 32 \<and> bit v (min (7 * m - 1) n)"
  proof (cases "n < 7 * m \<or> 32 \<le> n")
    case True
    moreover have "min (7 * m - 1) n = n" if "n < 7 * m" using that by simp
    ultimately show ?thesis using assms(3) by (auto dest: bit_imp_le_length)
  next
    case False
    then show ?thesis
      using magnitude_bits [OF assms(4), of n] magnitude_bits [OF assms(4), of "7 * m - 1"] assms(2,3) by (auto simp: min_def)
  qed
  moreover have "min (7 * m - 1) n < 7 * m" using assms(2) by simp
  ultimately show "bit (sign_extend k r) n \<longleftrightarrow> bit v n"
    unfolding bit_sign_extend [OF k(1)] k(2) assms(5) by blast
qed

lemma decode_signed_shapes:
  "\<not> more b0 \<Longrightarrow> DecodeSignedLeb128 (b0 # r) = Some (sign_extend 25 (ucast b0), r)"
  "more b0 \<Longrightarrow> \<not> more b1 \<Longrightarrow> DecodeSignedLeb128 (b0 # b1 # r) = Some (sign_extend 18 (low7 b0 OR push_bit 7 (low7 b1)), r)"
  "more b0 \<Longrightarrow> more b1 \<Longrightarrow> \<not> more b2 \<Longrightarrow>
     DecodeSignedLeb128 (b0 # b1 # b2 # r) = Some (sign_extend 11 ((low7 b0 OR push_bit 7 (low7 b1)) OR push_bit 14 (low7 b2)), r)"
  "more b0 \<Longrightarrow> more b1 \<Longrightarrow> more b2 \<Longrightarrow> \<not> more b3 \<Longrightarrow>
     DecodeSignedLeb128 (b0 # b1 # b2 # b3 # r) =
       Some (sign_extend 4 (((low7 b0 OR push_bit 7 (low7 b1)) OR push_bit 14 (low7 b2)) OR push_bit 21 (low7 b3)), r)"
  "more b0 \<Longrightarrow> more b1 \<Longrightarrow> more b2 \<Longrightarrow> more b3 \<Longrightarrow>
     DecodeSignedLeb128 (b0 # b1 # b2 # b3 # b4 # r) =
       Some ((((low7 b0 OR push_bit 7 (low7 b1)) OR push_bit 14 (low7 b2)) OR push_bit 21 (low7 b3)) OR push_bit 28 (ucast b4), r)"
  by (simp_all only: DecodeSignedLeb128_def linorder_not_less [symmetric] Let_def next_byte.simps bind.bind_lunit prod.case
      if_True if_False not_True_eq_False not_False_eq_True)

lemma sjoined:
  "unat (magnitude v) < 2 ^ 6 \<Longrightarrow> sign_extend 25 (ucast (sseptet 0 v)) = v"
  "unat (magnitude v) < 2 ^ 13 \<Longrightarrow> sign_extend 18 (ucast (sseptet 0 v) OR push_bit 7 (ucast (sseptet 1 v))) = v"
  "unat (magnitude v) < 2 ^ 20 \<Longrightarrow>
     sign_extend 11 ((ucast (sseptet 0 v) OR push_bit 7 (ucast (sseptet 1 v))) OR push_bit 14 (ucast (sseptet 2 v))) = v"
  "unat (magnitude v) < 2 ^ 27 \<Longrightarrow>
     sign_extend 4 (((ucast (sseptet 0 v) OR push_bit 7 (ucast (sseptet 1 v))) OR push_bit 14 (ucast (sseptet 2 v))) OR
       push_bit 21 (ucast (sseptet 3 v))) = v"
  "(((ucast (sseptet 0 v) OR push_bit 7 (ucast (sseptet 1 v))) OR push_bit 14 (ucast (sseptet 2 v))) OR
       push_bit 21 (ucast (sseptet 3 v))) OR push_bit 28 (ucast (sseptet 4 v)) = v"
proof -
  note parts = bit_sjoin [of 0] bit_sjoin [of 1] bit_sjoin [of 2] bit_sjoin [of 3] bit_sjoin [of 4]
  show "unat (magnitude v) < 2 ^ 6 \<Longrightarrow> sign_extend 25 (ucast (sseptet 0 v)) = v"
    by (rule extend_joined [of _ 1]) (use parts in \<open>auto simp: bit_or_iff\<close>)
  show "unat (magnitude v) < 2 ^ 13 \<Longrightarrow> sign_extend 18 (ucast (sseptet 0 v) OR push_bit 7 (ucast (sseptet 1 v))) = v"
    by (rule extend_joined [of _ 2]) (use parts in \<open>auto simp: bit_or_iff\<close>)
  show "unat (magnitude v) < 2 ^ 20 \<Longrightarrow>
     sign_extend 11 ((ucast (sseptet 0 v) OR push_bit 7 (ucast (sseptet 1 v))) OR push_bit 14 (ucast (sseptet 2 v))) = v"
    by (rule extend_joined [of _ 3]) (use parts in \<open>auto simp: bit_or_iff\<close>)
  show "unat (magnitude v) < 2 ^ 27 \<Longrightarrow>
     sign_extend 4 (((ucast (sseptet 0 v) OR push_bit 7 (ucast (sseptet 1 v))) OR push_bit 14 (ucast (sseptet 2 v))) OR
       push_bit 21 (ucast (sseptet 3 v))) = v"
    by (rule extend_joined [of _ 4]) (use parts in \<open>auto simp: bit_or_iff\<close>)
  show "(((ucast (sseptet 0 v) OR push_bit 7 (ucast (sseptet 1 v))) OR push_bit 14 (ucast (sseptet 2 v))) OR
       push_bit 21 (ucast (sseptet 3 v))) OR push_bit 28 (ucast (sseptet 4 v)) = v"
    using parts bit_imp_le_length [of v] by (intro bit_eqI) (auto simp: bit_or_iff not_less)
qed

lemma decode_encode_signed: "DecodeSignedLeb128 (EncodeSignedLeb128 [] v @ rest) = Some (v, rest)"
proof -
  let ?u = "unat (magnitude v)"
  have zero: "\<not> more (sseptet 0 v)" using sseptet_facts by simp
  consider "?u < 2 ^ 6" | "?u < 2 ^ 13" "\<not> ?u < 2 ^ 6" | "?u < 2 ^ 20" "\<not> ?u < 2 ^ 13" "\<not> ?u < 2 ^ 6"
    | "?u < 2 ^ 27" "\<not> ?u < 2 ^ 20" "\<not> ?u < 2 ^ 13" "\<not> ?u < 2 ^ 6"
    | "\<not> ?u < 2 ^ 27" "\<not> ?u < 2 ^ 20" "\<not> ?u < 2 ^ 13" "\<not> ?u < 2 ^ 6"
    by blast
  then show ?thesis
  proof cases
    case 1
    then show ?thesis
      using sjoined(1) decode_signed_shapes(1) [OF zero] by (simp add: encode_signed_cases)
  qed (simp_all only: encode_signed_cases if_True if_False append_Cons append_Nil decode_signed_shapes sjoined(2-) [unfolded One_nat_def]
        sseptet_facts [of 0, simplified] sseptet_facts [of 1, simplified] sseptet_facts [of 2, simplified]
        sseptet_facts [of 3, simplified] sseptet_facts [of 4, simplified] One_nat_def not_False_eq_True simp_thms)
qed

lemma SignedLeb128Size_eq: "unat (SignedLeb128Size v) = length (EncodeSignedLeb128 [] v)"
proof -
  let ?n = "bits_to_encode (magnitude v)"
  have size: "unat (SignedLeb128Size v) = (7 + ?n) div 7"
    using leb128_size [of 7 "magnitude v"] by (simp add: SignedLeb128Size_def Let_def flip: magnitude_def)
  have "0 < ?n" "?n \<le> 32" by (rule bits_to_encode_bounds)+
  then show ?thesis
    using bits_to_encode_le [of 6 "magnitude v"] bits_to_encode_le [of 13 "magnitude v"] bits_to_encode_le [of 20 "magnitude v"]
      bits_to_encode_le [of 27 "magnitude v"]
    unfolding size encode_signed_cases by (auto simp: not_less)
qed

section \<open>Updates in place\<close>

lemma septet_zero: "unat v < 2 ^ (7 * m) \<Longrightarrow> m \<le> i \<Longrightarrow> septet i v = 0"
proof (rule bit_eqI)
  fix n
  assume "unat v < 2 ^ (7 * m)" "m \<le> i"
  then have "\<not> bit v (7 * i + n)" using bit_small [of v "7 * i + n" "7 * m"] by auto
  then show "bit (septet i v) n = bit 0 n" by (simp add: bit_septet)
qed

lemma pad_encoding: "unat v < 2 ^ (7 * m) \<Longrightarrow> 0 < m \<Longrightarrow> pad_leb128 (encoding m v) k = encoding (m + k) v"
proof (induction k arbitrary: m)
  case (Suc k)
  have "butlast (encoding m v) @ [last (encoding m v) OR 0x80, 0] = encoding (Suc m) v"
    using Suc.prems septet_zero [OF Suc.prems(1), of m] by (cases m) (simp_all add: encoding_def)
  moreover have "unat v < 2 ^ (7 * Suc m)"
    using Suc.prems(1) by (rule order_less_le_trans) (rule power_increasing, simp_all)
  ultimately show ?case using Suc.IH [of "Suc m"] by simp
qed simp

lemma UpdateUnsignedLeb128_eq:
  assumes "unat value' \<le> unat old"
  shows "\<exists>bytes. UpdateUnsignedLeb128 (EncodeUnsignedLeb128 [] old @ rest) value' = Some (bytes @ rest) \<and>
     length bytes = length (EncodeUnsignedLeb128 [] old) \<and> DecodeUnsignedLeb128 (bytes @ rest) = Some (value', rest)"
proof -
  let ?n = "length (EncodeUnsignedLeb128 [] value')" and ?m = "length (EncodeUnsignedLeb128 [] old)"
  have le: "?n \<le> ?m"
    using assms by (simp add: encode_unsigned_cases)
  let ?b = "encoding ?m value'"
  have "unat value' < 2 ^ (7 * ?m)" using assms encoding_fits(1) [of old] by linarith
  then have "DecodeUnsignedLeb128 (?b @ rest) = Some (value', rest)"
    by (rule decode_encoding [OF _ encoding_fits(2,3)])
  moreover have "pad_leb128 (EncodeUnsignedLeb128 [] value') (?m - ?n) = ?b"
    using pad_encoding [OF encoding_fits(1,2), of value' "?m - ?n"] le by (simp flip: encoding_shortest)
  moreover have "length ?b = ?m" using encoding_fits(2) [of old] by (simp add: encoding_def)
  ultimately show ?thesis
    using le by (auto simp: UpdateUnsignedLeb128_def decode_encode_unsigned Let_def max_def)
qed

section \<open>Properties\<close>

text \<open>C39. Decoding undoes encoding, for unsigned and for signed numbers, leaves the data behind the number alone, and the two size
  functions, which replace a division by a multiplication and a shift, give the number of bytes encoded.\<close>

theorem leb128_roundtrip:
  "DecodeUnsignedLeb128 (EncodeUnsignedLeb128 [] v @ rest) = Some (v, rest) \<and>
   DecodeSignedLeb128 (EncodeSignedLeb128 [] v @ rest) = Some (v, rest) \<and>
   unat (UnsignedLeb128Size v) = length (EncodeUnsignedLeb128 [] v) \<and>
   unat (SignedLeb128Size v) = length (EncodeSignedLeb128 [] v)"
  by (intro conjI decode_encode_unsigned decode_encode_signed UnsignedLeb128Size_eq SignedLeb128Size_eq)

text \<open>C40. Overwriting an encoded number by a smaller one keeps its length, so that what follows stays in place, and decodes to the
  new number.\<close>

theorem UpdateUnsignedLeb128_in_place:
  assumes "unat value' \<le> unat old"
  shows "\<exists>bytes. UpdateUnsignedLeb128 (EncodeUnsignedLeb128 [] old @ rest) value' = Some (bytes @ rest) \<and>
     length bytes = length (EncodeUnsignedLeb128 [] old) \<and> DecodeUnsignedLeb128 (bytes @ rest) = Some (value', rest)"
  using assms by (rule UpdateUnsignedLeb128_eq)

theorem UpdateUnsignedLeb128_in_place_witness:
  "\<exists>bytes. UpdateUnsignedLeb128 (EncodeUnsignedLeb128 [] 300 @ [7]) 5 = Some (bytes @ [7]) \<and>
     length bytes = length (EncodeUnsignedLeb128 [] 300) \<and> DecodeUnsignedLeb128 (bytes @ [7]) = Some (5, [7])"
  by (rule UpdateUnsignedLeb128_in_place) simp

end
