(* ===== verification/Utf.thy ===== *)
theory Utf
  imports Marvin_Prelude
begin

text \<open>
  Conversions between UTF-16 and modified UTF-8 (src/runtime/utf.cc and utf-inl.h). Text is a list of bytes or of 16-bit
  characters; a read behind the end of the bytes gives None. Where the code tells the length of a buffer by a second
  argument, that is the length of the list.
\<close>

section \<open>Characters\<close>

definition GetTrailingUtf16Char :: "32 word \<Rightarrow> 16 word" where
  "GetTrailingUtf16Char maybe_pair = ucast (drop_bit 16 maybe_pair)"

definition GetLeadingUtf16Char :: "32 word \<Rightarrow> 16 word" where
  "GetLeadingUtf16Char maybe_pair = ucast (maybe_pair AND 0x0000FFFF)"

fun read_byte :: "byte list \<Rightarrow> (32 word \<times> byte list) option" where
  "read_byte [] = None"
| "read_byte (b # utf8) = Some (ucast b, utf8)"

definition GetUtf16FromUtf8 :: "byte list \<Rightarrow> (32 word \<times> byte list) option" where
  "GetUtf16FromUtf8 utf8_data_in = do {
     (one, utf8) \<leftarrow> read_byte utf8_data_in;
     if one AND 0x80 = 0 then Some (one, utf8)
     else do {
       (two, utf8) \<leftarrow> read_byte utf8;
       if one AND 0x20 = 0 then Some (push_bit 6 (one AND 0x1f) OR (two AND 0x3f), utf8)
       else do {
         (three, utf8) \<leftarrow> read_byte utf8;
         if one AND 0x10 = 0
         then Some (push_bit 12 (one AND 0x0f) OR push_bit 6 (two AND 0x3f) OR (three AND 0x3f), utf8)
         else do {
           (four, utf8) \<leftarrow> read_byte utf8;
           let code_point = push_bit 18 (one AND 0x0f) OR push_bit 12 (two AND 0x3f) OR push_bit 6 (three AND 0x3f) OR (four AND 0x3f);
           let surrogate_pair = (drop_bit 10 code_point + 0xd7c0) AND 0xffff;
           Some (surrogate_pair OR push_bit 16 ((code_point AND 0x03ff) + 0xdc00), utf8)
         }
       }
     }
   }"

section \<open>Conversions\<close>

text \<open>The number of UTF-16 characters of some bytes. The pointer may move past the end.\<close>

function CountModifiedUtf8Chars :: "byte list \<Rightarrow> nat" where
  "CountModifiedUtf8Chars [] = 0"
| "CountModifiedUtf8Chars (ic # utf8) =
     (if ic AND 0x80 = 0 then 1 + CountModifiedUtf8Chars utf8
      else if ic AND 0x20 = 0 then 1 + CountModifiedUtf8Chars (drop 1 utf8)
      else if ic AND 0x10 = 0 then 1 + CountModifiedUtf8Chars (drop 2 utf8)
      else 2 + CountModifiedUtf8Chars (drop 3 utf8))"
  by pat_completeness auto
termination
  by (relation "measure length") simp_all

definition put_pair :: "32 word \<Rightarrow> 16 word list" where
  "put_pair ch =
     (let leading = GetLeadingUtf16Char ch; trailing = GetTrailingUtf16Char ch
      in if trailing \<noteq> 0 then [leading, trailing] else [leading])"

lemma read_byte_shorter: "read_byte xs = Some (b, ys) \<Longrightarrow> length ys < length xs"
  by (cases xs) auto

lemma GetUtf16FromUtf8_shorter: "GetUtf16FromUtf8 xs = Some (c, ys) \<Longrightarrow> length ys < length xs"
  by (auto simp: GetUtf16FromUtf8_def bind_eq_Some_conv Let_def split: if_splits dest!: read_byte_shorter)

text \<open>The loop of the conversion with a length, for input with characters beyond ASCII.\<close>

function convert_to_utf16 :: "byte list \<Rightarrow> 16 word list option" where
  "convert_to_utf16 p =
     (if p = [] then Some []
      else case GetUtf16FromUtf8 p of
          None \<Rightarrow> None
        | Some (ch, p) \<Rightarrow> map_option (append (put_pair ch)) (convert_to_utf16 p))"
  by pat_completeness auto
termination
  by (relation "measure length") (auto dest: GetUtf16FromUtf8_shorter)

definition ConvertModifiedUtf8ToUtf16 :: "nat \<Rightarrow> byte list \<Rightarrow> 16 word list option" where
  "ConvertModifiedUtf8ToUtf16 out_chars utf8_data_in =
     (if out_chars = length utf8_data_in then Some (map ucast utf8_data_in)
      else convert_to_utf16 utf8_data_in)"

text \<open>The loop over characters of which some are not ASCII.\<close>

definition is_high :: "16 word \<Rightarrow> bool" where
  "is_high ch \<longleftrightarrow> ch \<ge> 0xd800 \<and> ch \<le> 0xdbff"

definition is_low :: "16 word \<Rightarrow> bool" where
  "is_low ch \<longleftrightarrow> ch \<ge> 0xdc00 \<and> ch \<le> 0xdfff"

definition four_bytes :: "16 word \<Rightarrow> 16 word \<Rightarrow> byte list" where
  "four_bytes ch ch2 =
     (let code_point = push_bit 10 (ucast ch) + ucast ch2 - 0x035fdc00 :: 32 word
      in [ucast (drop_bit 18 code_point OR 0xf0), ucast ((drop_bit 12 code_point AND 0x3f) OR 0x80),
          ucast ((drop_bit 6 code_point AND 0x3f) OR 0x80), ucast ((code_point AND 0x3f) OR 0x80)])"

definition three_or_two_bytes :: "16 word \<Rightarrow> byte list" where
  "three_or_two_bytes ch =
     (if ch > 0x07ff
      then [ucast (drop_bit 12 ch OR 0xe0), ucast ((drop_bit 6 ch AND 0x3f) OR 0x80), ucast ((ch AND 0x3f) OR 0x80)]
      else [ucast (drop_bit 6 ch OR 0xc0), ucast ((ch AND 0x3f) OR 0x80)])"

fun convert_to_utf8 :: "16 word list \<Rightarrow> byte list" where
  "convert_to_utf8 [] = []"
| "convert_to_utf8 [ch] = (if ch > 0 \<and> ch \<le> 0x7f then [ucast ch] else three_or_two_bytes ch)"
| "convert_to_utf8 (ch # ch2 # utf16_in) =
     (if ch > 0 \<and> ch \<le> 0x7f then ucast ch # convert_to_utf8 (ch2 # utf16_in)
      else if is_high ch \<and> is_low ch2 then four_bytes ch ch2 @ convert_to_utf8 utf16_in
      else three_or_two_bytes ch @ convert_to_utf8 (ch2 # utf16_in))"

definition ConvertUtf16ToModifiedUtf8 :: "nat \<Rightarrow> 16 word list \<Rightarrow> byte list" where
  "ConvertUtf16ToModifiedUtf8 byte_count utf16_in =
     (if byte_count = length utf16_in then map ucast utf16_in else convert_to_utf8 utf16_in)"

fun CountUtf8Bytes :: "16 word list \<Rightarrow> nat" where
  "CountUtf8Bytes [] = 0"
| "CountUtf8Bytes [ch] = (if ch \<noteq> 0 \<and> ch < 0x80 then 1 else if ch < 0x800 then 2 else 3)"
| "CountUtf8Bytes (ch # ch2 # chars) =
     (if ch \<noteq> 0 \<and> ch < 0x80 then 1 + CountUtf8Bytes (ch2 # chars)
      else if ch < 0x800 then 2 + CountUtf8Bytes (ch2 # chars)
      else if ch \<ge> 0xd800 \<and> ch < 0xdc00 \<and> ch2 \<ge> 0xdc00 \<and> ch2 < 0xe000 then 4 + CountUtf8Bytes chars
      else 3 + CountUtf8Bytes (ch2 # chars))"

section \<open>Hashes and comparisons\<close>

definition ComputeUtf16Hash :: "16 word list \<Rightarrow> 32 word" where
  "ComputeUtf16Hash chars = foldl (\<lambda>hash c. hash * 31 + ucast c) 0 chars"

text \<open>The length counts down in UTF-16 characters; it wraps around below 0, where the loop would go on.\<close>

fun hash_from_utf8 :: "32 word \<Rightarrow> byte list \<Rightarrow> nat \<Rightarrow> 32 word option" where
  "hash_from_utf8 hash utf8 0 = Some hash"
| "hash_from_utf8 hash utf8 (Suc utf16_length) = do {
     (pair, utf8) \<leftarrow> GetUtf16FromUtf8 utf8;
     let first = GetLeadingUtf16Char pair;
     let hash = hash * 31 + ucast first;
     let second = GetTrailingUtf16Char pair;
     if second \<noteq> 0 then
       let hash = hash * 31 + ucast second
       in if utf16_length = 0 then None else hash_from_utf8 hash utf8 (utf16_length - 1)
     else hash_from_utf8 hash utf8 utf16_length
   }"

definition ComputeUtf16HashFromModifiedUtf8 :: "byte list \<Rightarrow> nat \<Rightarrow> 32 word option" where
  "ComputeUtf16HashFromModifiedUtf8 utf8 utf16_length = hash_from_utf8 0 utf8 utf16_length"

text \<open>UTF-8 text ends with a null byte. The result is 0, 1 or -1.\<close>

function CompareModifiedUtf8ToUtf16AsCodePointValues :: "byte list \<Rightarrow> 16 word list \<Rightarrow> int option" where
  "CompareModifiedUtf8ToUtf16AsCodePointValues utf8 utf16 =
     (if utf8 = [] then None
      else if hd utf8 = 0 then Some (if utf16 = [] then 0 else -1)
      else if utf16 = [] then Some 1
      else case GetUtf16FromUtf8 utf8 of
          None \<Rightarrow> None
        | Some (pair, utf8) \<Rightarrow>
            (let lhs = GetLeadingUtf16Char pair; rhs = hd utf16; utf16 = tl utf16 in
             if lhs \<noteq> rhs then Some (if lhs > rhs then 1 else -1)
             else
               let lhs2 = GetTrailingUtf16Char pair in
               if lhs2 \<noteq> 0 then
                 (if utf16 = [] then Some 1
                  else
                    let rhs2 = hd utf16; utf16 = tl utf16 in
                    if lhs2 \<noteq> rhs2 then Some (if lhs2 > rhs2 then 1 else -1)
                    else CompareModifiedUtf8ToUtf16AsCodePointValues utf8 utf16)
               else CompareModifiedUtf8ToUtf16AsCodePointValues utf8 utf16))"
  by pat_completeness auto
termination
  by (relation "measure (length \<circ> fst)") (auto dest: GetUtf16FromUtf8_shorter)

declare convert_to_utf16.simps [simp del] CompareModifiedUtf8ToUtf16AsCodePointValues.simps [simp del]

section \<open>One character\<close>

lemma utf_masks:
  "(0xc0 :: 16 word) = push_bit 6 (mask 2)" "(0xe0 :: 16 word) = push_bit 5 (mask 3)" "(0xf0 :: 32 word) = push_bit 4 (mask 4)"
  "(0x80 :: 16 word) = push_bit 7 (mask 1)" "(0x80 :: 32 word) = push_bit 7 (mask 1)" "(0x3f :: 16 word) = mask 6"
  "(0x3f :: 32 word) = mask 6" "(0x1f :: 32 word) = mask 5" "(0x0f :: 32 word) = mask 4"
  by (simp_all add: mask_eq_exp_minus_1)

lemma bit_128 [simp]: "bit (128 :: int) n \<longleftrightarrow> n = 7"
proof -
  have "bit (2 ^ 7 :: int) n \<longleftrightarrow> n = 7" unfolding bit_exp_iff by auto
  then show ?thesis by simp
qed

lemma utf_tests: "(w :: 32 word) AND 0x80 = 0 \<longleftrightarrow> \<not> bit w 7" "w AND 0x20 = 0 \<longleftrightarrow> \<not> bit w 5" "w AND 0x10 = 0 \<longleftrightarrow> \<not> bit w 4"
  using and_exp_eq_0_iff_not_bit [of w 7] and_exp_eq_0_iff_not_bit [of w 5] and_exp_eq_0_iff_not_bit [of w 4] by simp_all

lemma utf_byte_tests: "(w :: byte) AND 0x80 = 0 \<longleftrightarrow> \<not> bit w 7" "w AND 0x20 = 0 \<longleftrightarrow> \<not> bit w 5" "w AND 0x10 = 0 \<longleftrightarrow> \<not> bit w 4"
  using and_exp_eq_0_iff_not_bit [of w 7] and_exp_eq_0_iff_not_bit [of w 5] and_exp_eq_0_iff_not_bit [of w 4] by simp_all

lemma decode_one:
  fixes ch :: "16 word"
  assumes "ch \<le> 0x7f"
  shows "GetUtf16FromUtf8 (ucast ch # r) = Some (ucast ch, r)" and "\<not> bit (ucast ch :: byte) 7"
proof -
  have small: "unat ch < 2 ^ 7" using assms by (simp add: word_le_nat_alt)
  then have bits: "bit ch n \<Longrightarrow> n < 7" for n using bit_small by blast
  then show "\<not> bit (ucast ch :: byte) 7" by (auto simp: bit_simps)
  then have "\<not> bit (ucast (ucast ch :: byte) :: 32 word) 7" by (simp add: bit_simps)
  moreover have "(ucast (ucast ch :: byte) :: 32 word) = ucast ch"
    by (rule bit_eqI) (auto simp: bit_simps dest: bits)
  ultimately show "GetUtf16FromUtf8 (ucast ch # r) = Some (ucast ch, r)"
    by (simp add: GetUtf16FromUtf8_def utf_tests)
qed

lemma decode_two:
  fixes ch :: "16 word"
  assumes "ch \<le> 0x7ff"
  shows "GetUtf16FromUtf8 (ucast (drop_bit 6 ch OR 0xc0) # ucast ((ch AND 0x3f) OR 0x80) # r) = Some (ucast ch, r)"
proof -
  have small: "unat ch < 2 ^ 11" using assms by (simp add: word_le_nat_alt)
  then have bits: "bit ch n \<Longrightarrow> n < 11" for n using bit_small by blast
  let ?one = "ucast (ucast (drop_bit 6 ch OR 0xc0) :: byte) :: 32 word" and ?two = "ucast (ucast ((ch AND 0x3f) OR 0x80) :: byte) :: 32 word"
  have "bit ?one 7" "\<not> bit ?one 5"
    unfolding utf_masks by (auto simp: bit_simps dest: bits)
  moreover have "push_bit 6 (?one AND 0x1f) OR (?two AND 0x3f) = ucast ch"
    unfolding utf_masks by (rule bit_eqI) (auto simp: bit_simps dest: bits)
  ultimately show ?thesis
    by (simp add: GetUtf16FromUtf8_def utf_tests)
qed

lemma decode_three:
  fixes ch :: "16 word"
  shows "GetUtf16FromUtf8 (ucast (drop_bit 12 ch OR 0xe0) # ucast ((drop_bit 6 ch AND 0x3f) OR 0x80) # ucast ((ch AND 0x3f) OR 0x80) # r)
    = Some (ucast ch, r)"
proof -
  let ?one = "ucast (ucast (drop_bit 12 ch OR 0xe0) :: byte) :: 32 word"
  let ?two = "ucast (ucast ((drop_bit 6 ch AND 0x3f) OR 0x80) :: byte) :: 32 word"
  let ?three = "ucast (ucast ((ch AND 0x3f) OR 0x80) :: byte) :: 32 word"
  have top: "\<not> bit ch n" if "16 \<le> n" for n
    using bit_imp_le_length [of ch n] that by auto
  have "bit ?one 7" "bit ?one 5" "\<not> bit ?one 4"
    unfolding utf_masks by (simp_all add: bit_simps top)
  moreover have "push_bit 12 (?one AND 0x0f) OR push_bit 6 (?two AND 0x3f) OR (?three AND 0x3f) = ucast ch"
  proof (rule bit_eqI)
    fix n
    have "bit (?three AND 0x3f) n \<longleftrightarrow> n < 6 \<and> bit ch n"
      unfolding utf_masks by (auto simp: bit_simps)
    moreover have "bit (push_bit 6 (?two AND 0x3f)) n \<longleftrightarrow> 6 \<le> n \<and> n < 12 \<and> bit ch n"
      unfolding utf_masks by (auto simp: bit_simps)
    moreover have "bit (push_bit 12 (?one AND 0x0f)) n \<longleftrightarrow> 12 \<le> n \<and> n < 16 \<and> bit ch n"
      unfolding utf_masks by (auto simp: bit_simps)
    ultimately show "bit (push_bit 12 (?one AND 0x0f) OR push_bit 6 (?two AND 0x3f) OR (?three AND 0x3f)) n \<longleftrightarrow> bit (ucast ch :: 32 word) n"
      using top [of n] by (auto simp: bit_or_iff bit_ucast_iff)
  qed
  ultimately show ?thesis
    by (simp add: GetUtf16FromUtf8_def utf_tests)
qed

definition pair_code_point :: "16 word \<Rightarrow> 16 word \<Rightarrow> 32 word" where
  "pair_code_point ch ch2 = push_bit 10 (ucast ch) + ucast ch2 - 0x035fdc00"

lemma surrogate_bounds:
  "is_high ch \<Longrightarrow> 0xd800 \<le> unat ch \<and> unat ch \<le> 0xdbff" "is_low ch \<Longrightarrow> 0xdc00 \<le> unat ch \<and> unat ch \<le> 0xdfff"
  by (simp_all add: is_high_def is_low_def word_le_nat_alt)

lemma unat_pair_code_point:
  assumes "is_high ch" and "is_low ch2"
  shows "unat (pair_code_point ch ch2) = 0x10000 + (unat ch - 0xd800) * 1024 + (unat ch2 - 0xdc00)"
proof -
  note bounds = surrogate_bounds(1) [OF assms(1)] surrogate_bounds(2) [OF assms(2)]
  have "unat (push_bit 10 (ucast ch) + ucast ch2 :: 32 word) = unat ch * 1024 + unat ch2"
    using bounds by (simp add: push_bit_eq_mult unat_word_ariths unsigned_ucast_eq take_bit_nat_eq_self)
  moreover have "unat (0x035fdc00 :: 32 word) = 0x035fdc00" by simp
  ultimately have "unat (pair_code_point ch ch2) = unat ch * 1024 + unat ch2 - 0x035fdc00"
    using bounds unfolding pair_code_point_def by (subst unat_sub) (auto simp: word_le_nat_alt)
  moreover obtain a b where "unat ch = 0xd800 + a" "unat ch2 = 0xdc00 + b"
    using bounds le_Suc_ex by metis
  ultimately show ?thesis by simp
qed

lemma pair_parts:
  assumes "is_high ch" and "is_low ch2"
  shows "unat (pair_code_point ch ch2) < 2 ^ 21"
    "(drop_bit 10 (pair_code_point ch ch2) + 0xd7c0) AND 0xffff = ucast ch"
    "(pair_code_point ch ch2 AND 0x03ff) + 0xdc00 = ucast ch2"
proof -
  note bounds = surrogate_bounds(1) [OF assms(1)] surrogate_bounds(2) [OF assms(2)]
  obtain a b where ab: "unat ch = 0xd800 + a" "unat ch2 = 0xdc00 + b" using bounds le_Suc_ex by metis
  have small: "a \<le> 0x3ff" "b \<le> 0x3ff" using bounds ab by auto
  have cp: "unat (pair_code_point ch ch2) = 0x10000 + a * 1024 + b"
    using unat_pair_code_point [OF assms] ab by simp
  show "unat (pair_code_point ch ch2) < 2 ^ 21"
    using small by (simp add: cp)
  have "unat (drop_bit 10 (pair_code_point ch ch2)) = 64 + (unat ch - 0xd800)"
    using small ab by (simp add: unat_drop_bit cp)
  then have sum: "unat (drop_bit 10 (pair_code_point ch ch2) + 0xd7c0) = unat ch"
    using bounds by (simp add: unat_word_ariths)
  have masks: "(0xffff :: 32 word) = mask 16" "(0x03ff :: 32 word) = mask 10" by (simp_all add: mask_eq_exp_minus_1)
  have "take_bit 16 (drop_bit 10 (pair_code_point ch ch2) + 0xd7c0) = drop_bit 10 (pair_code_point ch ch2) + 0xd7c0"
    by (rule take_bit_small) (use sum bounds in simp)
  then show "(drop_bit 10 (pair_code_point ch ch2) + 0xd7c0) AND 0xffff = ucast ch"
    using sum bounds by (simp add: masks(1) word_unat_eq_iff unsigned_ucast_eq take_bit_nat_eq_self flip: take_bit_eq_mask)
  have "0x10000 + a * 1024 + b = b + (64 + a) * 1024" by simp
  then have "(0x10000 + a * 1024 + b) mod 1024 = b" using small by (simp only: mod_mult_self1) simp
  then have "unat (take_bit 10 (pair_code_point ch ch2)) = unat ch2 - 0xdc00"
    using ab by (simp add: unsigned_take_bit_eq cp) (simp add: take_bit_eq_mod)
  then have "unat (take_bit 10 (pair_code_point ch ch2) + 0xdc00) = unat ch2"
    using bounds by (simp add: unat_word_ariths)
  then show "(pair_code_point ch ch2 AND 0x03ff) + 0xdc00 = ucast ch2"
    using bounds by (simp add: masks(2) word_unat_eq_iff unsigned_ucast_eq take_bit_nat_eq_self flip: take_bit_eq_mask)
qed

definition surrogates :: "32 word \<Rightarrow> 32 word" where
  "surrogates cp = ((drop_bit 10 cp + 0xd7c0) AND 0xffff) OR push_bit 16 ((cp AND 0x03ff) + 0xdc00)"

lemma decode_four_raw:
  assumes "bit (ucast a :: 32 word) 7" "bit (ucast a :: 32 word) 5" "bit (ucast a :: 32 word) 4"
  shows "GetUtf16FromUtf8 (a # b # c # d # r) =
    Some (surrogates (push_bit 18 (ucast a AND 0x0f) OR push_bit 12 (ucast b AND 0x3f) OR push_bit 6 (ucast c AND 0x3f) OR (ucast d AND 0x3f)), r)"
  using assms by (simp add: GetUtf16FromUtf8_def utf_tests Let_def surrogates_def)

lemma decode_four:
  assumes "is_high ch" and "is_low ch2"
  shows "GetUtf16FromUtf8 (four_bytes ch ch2 @ r) = Some (ucast ch OR push_bit 16 (ucast ch2), r)"
proof -
  let ?cp = "pair_code_point ch ch2"
  let ?one = "ucast (ucast (drop_bit 18 ?cp OR 0xf0) :: byte) :: 32 word"
  let ?two = "ucast (ucast ((drop_bit 12 ?cp AND 0x3f) OR 0x80) :: byte) :: 32 word"
  let ?three = "ucast (ucast ((drop_bit 6 ?cp AND 0x3f) OR 0x80) :: byte) :: 32 word"
  let ?four = "ucast (ucast ((?cp AND 0x3f) OR 0x80) :: byte) :: 32 word"
  have bits: "bit ?cp n \<Longrightarrow> n < 21" for n
    using pair_parts(1) [OF assms] bit_small by blast
  have one: "bit ?one 7" "bit ?one 5" "bit ?one 4"
    unfolding utf_masks by (simp_all add: bit_simps)
  have joined: "push_bit 18 (?one AND 0x0f) OR push_bit 12 (?two AND 0x3f) OR push_bit 6 (?three AND 0x3f) OR (?four AND 0x3f) = ?cp"
    (is "?joined = _")
  proof (rule bit_eqI)
    fix n
    have "bit (?four AND 0x3f) n \<longleftrightarrow> n < 6 \<and> bit ?cp n"
      unfolding utf_masks by (auto simp: bit_simps)
    moreover have "bit (push_bit 6 (?three AND 0x3f)) n \<longleftrightarrow> 6 \<le> n \<and> n < 12 \<and> bit ?cp n"
      unfolding utf_masks by (auto simp: bit_simps)
    moreover have "bit (push_bit 12 (?two AND 0x3f)) n \<longleftrightarrow> 12 \<le> n \<and> n < 18 \<and> bit ?cp n"
      unfolding utf_masks by (auto simp: bit_simps)
    moreover have "bit (push_bit 18 (?one AND 0x0f)) n \<longleftrightarrow> 18 \<le> n \<and> n < 22 \<and> bit ?cp n"
      unfolding utf_masks by (auto simp: bit_simps)
    ultimately show "bit ?joined n \<longleftrightarrow> bit ?cp n"
      using bits [of n] by (auto simp: bit_or_iff)
  qed
  have "four_bytes ch ch2 @ r = ucast (drop_bit 18 ?cp OR 0xf0) # ucast ((drop_bit 12 ?cp AND 0x3f) OR 0x80) #
      ucast ((drop_bit 6 ?cp AND 0x3f) OR 0x80) # ucast ((?cp AND 0x3f) OR 0x80) # r"
    by (simp add: four_bytes_def pair_code_point_def Let_def)
  then show ?thesis
    by (simp only: decode_four_raw [OF one] joined) (simp add: surrogates_def pair_parts(2,3) [OF assms])
qed

section \<open>Strings\<close>

lemma leading_trailing:
  "GetLeadingUtf16Char (ucast ch) = ch" "GetTrailingUtf16Char (ucast ch) = 0"
  "GetLeadingUtf16Char (ucast ch OR push_bit 16 (ucast ch2)) = ch" "GetTrailingUtf16Char (ucast ch OR push_bit 16 (ucast ch2)) = ch2"
proof -
  have mask: "(0xffff :: 32 word) = mask 16" by (simp add: mask_eq_exp_minus_1)
  show "GetLeadingUtf16Char (ucast ch) = ch" "GetLeadingUtf16Char (ucast ch OR push_bit 16 (ucast ch2)) = ch"
    unfolding GetLeadingUtf16Char_def mask by (intro bit_eqI; auto simp: bit_simps)+
  show "GetTrailingUtf16Char (ucast ch) = 0" "GetTrailingUtf16Char (ucast ch OR push_bit 16 (ucast ch2)) = ch2"
    unfolding GetTrailingUtf16Char_def by (intro bit_eqI; auto simp: bit_simps dest: bit_imp_le_length)+
qed

lemma decode_three_or_two: "GetUtf16FromUtf8 (three_or_two_bytes ch @ r) = Some (ucast ch, r)"
  using decode_three [of ch r] decode_two [of ch r] by (simp add: three_or_two_bytes_def)

lemma no_null_byte:
  "0 \<notin> set (three_or_two_bytes ch)" "0 \<notin> set (four_bytes ch ch2)" "0 < ch \<Longrightarrow> ch \<le> 0x7f \<Longrightarrow> (ucast ch :: byte) \<noteq> 0"
proof -
  have "w \<noteq> 0" if "bit w 7" for w :: byte using that by auto
  then have *: "w \<noteq> 0" if "bit w 7" for w :: byte using that by blast
  have "\<forall>b \<in> set (three_or_two_bytes ch). bit b 7"
    unfolding three_or_two_bytes_def utf_masks by (auto simp: bit_simps)
  with * show "0 \<notin> set (three_or_two_bytes ch)" by blast
  have "\<forall>b \<in> set (four_bytes ch ch2). bit b 7"
    unfolding four_bytes_def utf_masks Let_def by (auto simp: bit_simps)
  with * show "0 \<notin> set (four_bytes ch ch2)" by blast
  show "(ucast ch :: byte) \<noteq> 0" if "0 < ch" "ch \<le> 0x7f"
    using that by (simp add: word_unat_eq_iff unsigned_ucast_eq word_le_nat_alt word_less_nat_alt take_bit_nat_eq_self)
qed

text \<open>The bytes of the first character or surrogate pair of a string, and what is left of it.\<close>

lemma first_character:
  assumes "s \<noteq> []"
  obtains bs c rest where "convert_to_utf8 s = bs @ convert_to_utf8 rest" "bs \<noteq> []" "0 \<notin> set bs"
    "\<And>r. GetUtf16FromUtf8 (bs @ r) = Some (c, r)" "s = GetLeadingUtf16Char c # rest \<and> GetTrailingUtf16Char c = 0 \<or>
      s = GetLeadingUtf16Char c # GetTrailingUtf16Char c # rest \<and> GetTrailingUtf16Char c \<noteq> 0"
proof -
  obtain ch s' where s: "s = ch # s'" using assms by (cases s) auto
  consider (ascii) "0 < ch" "ch \<le> 0x7f" | (pair) ch2 s2 where "\<not> (0 < ch \<and> ch \<le> 0x7f)" "s' = ch2 # s2" "is_high ch" "is_low ch2"
    | (other) "convert_to_utf8 s = three_or_two_bytes ch @ convert_to_utf8 s'"
  proof -
    have "convert_to_utf8 s = three_or_two_bytes ch @ convert_to_utf8 s'"
      if "\<not> (0 < ch \<and> ch \<le> 0x7f)" "\<nexists>ch2 s2. s' = ch2 # s2 \<and> is_high ch \<and> is_low ch2"
      using that by (cases s') (auto simp: s)
    then show ?thesis using that by blast
  qed
  then show ?thesis
  proof cases
    case ascii
    then have "convert_to_utf8 s = [ucast ch] @ convert_to_utf8 s'" by (cases s') (simp_all add: s)
    then show ?thesis
      by (rule that [where c = "ucast ch"]) (use ascii in \<open>simp_all add: no_null_byte decode_one leading_trailing s\<close>)
  next
    case pair
    then have "convert_to_utf8 s = four_bytes ch ch2 @ convert_to_utf8 s2" by (auto simp: s)
    then show ?thesis
    proof (rule that)
      show "four_bytes ch ch2 \<noteq> []" by (simp add: four_bytes_def Let_def)
      show "GetUtf16FromUtf8 (four_bytes ch ch2 @ r) = Some (ucast ch OR push_bit 16 (ucast ch2), r)" for r
        by (rule decode_four [OF pair(3,4)])
      have "ch2 \<noteq> 0" using pair by (auto simp: is_low_def)
      then show "s = GetLeadingUtf16Char (ucast ch OR push_bit 16 (ucast ch2)) # s2 \<and>
          GetTrailingUtf16Char (ucast ch OR push_bit 16 (ucast ch2)) = 0 \<or>
        s = GetLeadingUtf16Char (ucast ch OR push_bit 16 (ucast ch2)) # GetTrailingUtf16Char (ucast ch OR push_bit 16 (ucast ch2)) # s2 \<and>
          GetTrailingUtf16Char (ucast ch OR push_bit 16 (ucast ch2)) \<noteq> 0"
        by (simp add: leading_trailing s pair(2))
    qed (rule no_null_byte)
  next
    case other
    then show ?thesis
    proof (rule that)
      show "three_or_two_bytes ch \<noteq> []" by (simp add: three_or_two_bytes_def)
      show "GetUtf16FromUtf8 (three_or_two_bytes ch @ r) = Some (ucast ch, r)" for r
        by (rule decode_three_or_two)
      show "s = GetLeadingUtf16Char (ucast ch) # s' \<and> GetTrailingUtf16Char (ucast ch) = 0 \<or>
        s = GetLeadingUtf16Char (ucast ch) # GetTrailingUtf16Char (ucast ch) # s' \<and> GetTrailingUtf16Char (ucast ch) \<noteq> 0"
        by (simp add: leading_trailing s)
    qed (rule no_null_byte)
  qed
qed

lemma decode_utf8: "convert_to_utf16 (convert_to_utf8 s) = Some s"
proof (induction s rule: length_induct)
  case (1 s)
  show ?case
  proof (cases "s = []")
    case False
    obtain bs c rest where *: "convert_to_utf8 s = bs @ convert_to_utf8 rest" "bs \<noteq> []"
      "\<And>r. GetUtf16FromUtf8 (bs @ r) = Some (c, r)" "s = put_pair c @ rest" "length rest < length s"
    proof (rule first_character [OF False], goal_cases)
      case (1 bs c rest)
      from this(6) have "s = put_pair c @ rest" "length rest < length s" by (auto simp: put_pair_def)
      with 1 show ?case by blast
    qed
    with 1 show ?thesis by (subst convert_to_utf16.simps) simp
  qed (simp add: convert_to_utf16.simps)
qed

lemma byte_lengths: "length (three_or_two_bytes ch) = (if ch < 0x800 then 2 else 3)" "length (four_bytes ch ch2) = 4"
  by (auto simp: three_or_two_bytes_def four_bytes_def Let_def word_le_nat_alt word_less_nat_alt)

lemma char_ranges:
  "ch > 0 \<and> ch \<le> 0x7f \<longleftrightarrow> ch \<noteq> 0 \<and> ch < 0x80" "is_high ch \<longleftrightarrow> ch \<ge> 0xd800 \<and> ch < 0xdc00" "is_low ch \<longleftrightarrow> ch \<ge> 0xdc00 \<and> ch < 0xe000"
  by (auto simp: is_high_def is_low_def word_le_nat_alt word_less_nat_alt word_unat_eq_iff)

lemma count_bytes: "length (convert_to_utf8 s) = CountUtf8Bytes s"
proof (induction s rule: convert_to_utf8.induct)
  case (3 ch ch2 s)
  have "\<not> ch < 0x800" if "ch \<ge> 0xd800" using that by (simp add: word_le_nat_alt word_less_nat_alt)
  with 3 show ?case by (auto simp: byte_lengths char_ranges)
qed (auto simp: byte_lengths char_ranges)

lemma count_step:
  "CountModifiedUtf8Chars (three_or_two_bytes ch @ r) = 1 + CountModifiedUtf8Chars r"
  "CountModifiedUtf8Chars (four_bytes ch ch2 @ r) = 2 + CountModifiedUtf8Chars r"
  "ch \<le> 0x7f \<Longrightarrow> CountModifiedUtf8Chars (ucast ch # r) = 1 + CountModifiedUtf8Chars r"
proof -
  have "unat ch < 2 ^ 11" if "\<not> ch > 0x7ff" using that by (simp add: word_less_nat_alt)
  then have "\<not> bit ch 11" if "\<not> ch > 0x7ff" using that bit_small by blast
  then have two: "bit (ucast (drop_bit 6 ch OR 0xc0) :: byte) 7" "ch \<le> 0x7ff \<Longrightarrow> \<not> bit (ucast (drop_bit 6 ch OR 0xc0) :: byte) 5"
    unfolding utf_masks by (simp_all add: bit_simps not_less)
  have three: "bit (ucast (drop_bit 12 ch OR 0xe0) :: byte) 7" "bit (ucast (drop_bit 12 ch OR 0xe0) :: byte) 5"
    "\<not> bit (ucast (drop_bit 12 ch OR 0xe0) :: byte) 4"
    unfolding utf_masks using bit_imp_le_length [of ch 16] by (auto simp: bit_simps)
  from two three show "CountModifiedUtf8Chars (three_or_two_bytes ch @ r) = 1 + CountModifiedUtf8Chars r"
    by (simp add: three_or_two_bytes_def utf_byte_tests)
  have "bit (ucast (drop_bit 18 (pair_code_point ch ch2) OR 0xf0) :: byte) n" if "4 \<le> n" "n < 8" for n
    using that unfolding utf_masks by (auto simp: bit_simps)
  then show "CountModifiedUtf8Chars (four_bytes ch ch2 @ r) = 2 + CountModifiedUtf8Chars r"
    by (simp add: four_bytes_def Let_def utf_byte_tests flip: pair_code_point_def)
  show "CountModifiedUtf8Chars (ucast ch # r) = 1 + CountModifiedUtf8Chars r" if "ch \<le> 0x7f"
    using decode_one(2) [OF that] by (simp add: utf_byte_tests)
qed

lemma count_chars: "CountModifiedUtf8Chars (convert_to_utf8 s) = length s"
  by (induction s rule: convert_to_utf8.induct) (auto simp: count_step count_step(1) [of _ "[]", simplified]
      simp del: CountModifiedUtf8Chars.simps(2))

lemma CountUtf8Bytes_ge: "length s \<le> CountUtf8Bytes s"
  by (induction s rule: CountUtf8Bytes.induct) auto

lemma ascii_only: "CountUtf8Bytes s = length s \<Longrightarrow> convert_to_utf8 s = map ucast s"
proof (induction s rule: CountUtf8Bytes.induct)
  case (3 ch ch2 s)
  then show ?case
    using CountUtf8Bytes_ge [of s] CountUtf8Bytes_ge [of "ch2 # s"] by (auto simp: char_ranges split: if_splits)
qed (auto simp: char_ranges split: if_splits)

lemma hash_decoded: "hash_from_utf8 h (convert_to_utf8 s @ r) (length s) = Some (foldl (\<lambda>hash c. hash * 31 + ucast c) h s)"
proof (induction s arbitrary: h rule: length_induct)
  case (1 s)
  show ?case
  proof (cases "s = []")
    case False
    show ?thesis
    proof (rule first_character [OF False], goal_cases)
      case (1 bs c rest)
      then have "length rest < length s" by auto
      note IH = \<open>\<forall>ys. length ys < length s \<longrightarrow> _\<close> [rule_format, OF this]
      from 1(5) show ?case
        using 1(1) by (auto simp: 1(4) IH Let_def)
    qed
  qed simp
qed

text \<open>The order of strings by their UTF-16 code units.\<close>

fun compare_units :: "16 word list \<Rightarrow> 16 word list \<Rightarrow> int" where
  "compare_units [] [] = 0"
| "compare_units [] (_ # _) = -1"
| "compare_units (_ # _) [] = 1"
| "compare_units (x # xs) (y # ys) = (if x < y then -1 else if x > y then 1 else compare_units xs ys)"

lemma compare_units_zero: "compare_units s t = 0 \<longleftrightarrow> s = t"
  by (induction s t rule: compare_units.induct) auto

lemma compare_decoded:
  "CompareModifiedUtf8ToUtf16AsCodePointValues (convert_to_utf8 s @ 0 # r) t = Some (compare_units s t)"
proof (induction s arbitrary: t rule: length_induct)
  case (1 s)
  show ?case
  proof (cases "s = []")
    case True
    then show ?thesis
      by (subst CompareModifiedUtf8ToUtf16AsCodePointValues.simps) (cases t; simp)
  next
    case False
    show ?thesis
    proof (rule first_character [OF False], goal_cases)
      case (1 bs c rest)
      then have "length rest < length s" by auto
      note IH = \<open>\<forall>ys. length ys < length s \<longrightarrow> _\<close> [rule_format, OF this]
      have "hd bs \<noteq> 0" using 1(2,3) by (cases bs) auto
      with 1(5) show ?case
        by (subst CompareModifiedUtf8ToUtf16AsCodePointValues.simps)
          (cases t; cases "tl t"; auto simp: 1(1,2,4) IH Let_def)
    qed
  qed
qed

lemma ascii_chars: "CountUtf8Bytes s = length s \<Longrightarrow> \<forall>ch \<in> set s. ch \<le> 0x7f"
proof (induction s rule: CountUtf8Bytes.induct)
  case (3 ch ch2 s)
  then show ?case
    using CountUtf8Bytes_ge [of s] CountUtf8Bytes_ge [of "ch2 # s"] by (auto simp: word_le_nat_alt word_less_nat_alt split: if_splits)
qed (auto simp: word_le_nat_alt word_less_nat_alt split: if_splits)

lemma ascii_back: "ch \<le> 0x7f \<Longrightarrow> ucast (ucast ch :: byte) = ch" for ch :: "16 word"
  using bit_small [of ch _ 8] by (intro bit_eqI) (auto simp: bit_simps word_le_nat_alt)

lemma fast_paths:
  "ConvertUtf16ToModifiedUtf8 (CountUtf8Bytes s) s = convert_to_utf8 s"
  "ConvertModifiedUtf8ToUtf16 (length s) (convert_to_utf8 s) = convert_to_utf16 (convert_to_utf8 s)"
proof -
  show "ConvertUtf16ToModifiedUtf8 (CountUtf8Bytes s) s = convert_to_utf8 s"
    by (simp add: ConvertUtf16ToModifiedUtf8_def ascii_only)
  have "map ucast (map ucast s :: byte list) = s" if "CountUtf8Bytes s = length s"
    using ascii_chars [OF that] by (simp add: ascii_back map_idI)
  then show "ConvertModifiedUtf8ToUtf16 (length s) (convert_to_utf8 s) = convert_to_utf16 (convert_to_utf8 s)"
    using ascii_only [of s] by (auto simp: ConvertModifiedUtf8ToUtf16_def count_bytes decode_utf8)
qed

lemma no_null: "0 \<notin> set (convert_to_utf8 s)"
proof (induction s rule: length_induct)
  case (1 s)
  show ?case
  proof (cases "s = []")
    case False
    show ?thesis
    proof (rule first_character [OF False], goal_cases)
      case (1 bs c rest)
      then have "length rest < length s" by auto
      with \<open>\<forall>ys. length ys < length s \<longrightarrow> _\<close> 1(1,3) show ?case by auto
    qed
  qed simp
qed

section \<open>Properties\<close>

text \<open>C37. Converting a UTF-16 string to modified UTF-8 and back gives the string, whatever it holds: null characters and unpaired
  surrogates too. The bytes are as many as were counted beforehand, none of them is null, and counting their characters gives the
  length of the string; the short cuts for ASCII text are taken only where they are right.\<close>

theorem utf8_roundtrip:
  "length (ConvertUtf16ToModifiedUtf8 (CountUtf8Bytes s) s) = CountUtf8Bytes s \<and>
   0 \<notin> set (ConvertUtf16ToModifiedUtf8 (CountUtf8Bytes s) s) \<and>
   CountModifiedUtf8Chars (ConvertUtf16ToModifiedUtf8 (CountUtf8Bytes s) s) = length s \<and>
   ConvertModifiedUtf8ToUtf16 (length s) (ConvertUtf16ToModifiedUtf8 (CountUtf8Bytes s) s) = Some s"
  by (simp add: fast_paths count_bytes count_chars decode_utf8 no_null)

text \<open>C38. Hashing the UTF-8 form of a string, and comparing it with a UTF-16 string, give what the same operations give on the
  UTF-16 form, without converting it. The order is that of the 16-bit code units.\<close>

theorem utf8_hash_and_order:
  "ComputeUtf16HashFromModifiedUtf8 (ConvertUtf16ToModifiedUtf8 (CountUtf8Bytes s) s) (length s) = Some (ComputeUtf16Hash s) \<and>
   CompareModifiedUtf8ToUtf16AsCodePointValues (ConvertUtf16ToModifiedUtf8 (CountUtf8Bytes s) s @ [0]) t = Some (compare_units s t) \<and>
   (compare_units s t = 0 \<longleftrightarrow> s = t)"
  using hash_decoded [of 0 s "[]"]
  by (simp add: fast_paths compare_decoded compare_units_zero ComputeUtf16HashFromModifiedUtf8_def ComputeUtf16Hash_def)

end
