(* ===== verification/Spec2Isabelle.thy ===== *)
theory Spec2Isabelle
  imports Swap_Invariants Monitor_Refinement Leb128 Utf
begin

text \<open>
  \<^bold>\<open>What this is.\<close> A model of the parts of the Android runtime under \<^verbatim>\<open>src/runtime\<close> that the Marvin fork adds or depends
  on, and proofs about it. Marvin swaps cold Java objects to a file without help from the kernel: an object is copied to a
  swap file, a small stub takes its place, the stub points through an entry of a reclamation table to the swapped-in copy,
  and the copy may be dropped and read back on demand.

  \<^bold>\<open>Parts and theories.\<close>
  \<^item> \<^verbatim>\<open>Marvin_Prelude\<close>: byte memory with little-endian loads and stores, \<^verbatim>\<open>std::map\<close> as a sorted association list (the
    locale \<^verbatim>\<open>std_map\<close> is its contract), words, and \<^verbatim>\<open>ensures\<close>, the postcondition of a computation that may fail.
  \<^item> \<^verbatim>\<open>Object_Header\<close>: the bit fields Marvin adds to \<^verbatim>\<open>mirror/object.h\<close>, their helpers, and when an object counts as cold.
  \<^item> \<^verbatim>\<open>Reclamation_Table\<close>: \<^verbatim>\<open>marvin_reclamation_table\<close>, entries and table.
  \<^item> \<^verbatim>\<open>Lock_Protocol\<close>: the protocol between application threads that pin an entry and the reclaimer, as interleaved steps.
  \<^item> \<^verbatim>\<open>Free_List_Space\<close>, \<^verbatim>\<open>Large_Object_Map_Space\<close>: the two spaces of \<^verbatim>\<open>gc/space/large_object_space.cc\<close>; the first holds the
    swapped-in copies. The locale \<^verbatim>\<open>object_space\<close> is the contract of an allocator, interpreted on the first.
  \<^item> \<^verbatim>\<open>Object_Model\<close>: classes, sizes and the visiting of references (\<^verbatim>\<open>mirror/object-inl.h\<close>, \<^verbatim>\<open>mirror/class\<close>).
  \<^item> \<^verbatim>\<open>Stub\<close>: \<^verbatim>\<open>marvin_stub\<close>, the layout of a stub, filling it from an object and copying its references back.
  \<^item> \<^verbatim>\<open>File_Stream\<close>: the file streams the code uses and the helpers of \<^verbatim>\<open>marvin_common\<close>.
  \<^item> \<^verbatim>\<open>Task_Processor\<close>, \<^verbatim>\<open>Card_Table\<close>: the timed tasks and the card table of the collector.
  \<^item> \<^verbatim>\<open>Swap_State\<close>, \<^verbatim>\<open>Swap_File\<close>, \<^verbatim>\<open>Swap_Write\<close>, \<^verbatim>\<open>Swap_Stubs\<close>: \<^verbatim>\<open>marvin_swap.cc\<close>. The record \<^verbatim>\<open>world\<close> holds its global
    variables with memory and files; \<^verbatim>\<open>env\<close> holds what the surroundings decide: the clock, the answers of \<^verbatim>\<open>mmap\<close> and of the
    system's allocators, the class table.
  \<^item> \<^verbatim>\<open>Object_Access\<close>: the accessors of objects with the preamble that sends an access to a stub on to its object.
  \<^item> \<^verbatim>\<open>Swap_Transparency\<close>, \<^verbatim>\<open>Swap_Compaction\<close>, \<^verbatim>\<open>Swap_Invariants\<close>: the properties of these parts together.
  \<^item> \<^verbatim>\<open>Lock_Word\<close>, \<^verbatim>\<open>Leb128\<close>, \<^verbatim>\<open>Utf\<close>: lock words and the two encodings of the runtime.

  \<^bold>\<open>Conventions.\<close> A failed \<^verbatim>\<open>CHECK\<close>, an \<^verbatim>\<open>abort\<close> and a loop that does not end are \<^term>\<open>None\<close>. Loops that may not end are
  \<^verbatim>\<open>partial_function\<close>s; no fuel is used anywhere. Mutexes are held for the whole of an operation, so an operation of the swap
  code is one step; where the order of single accesses matters (\<^verbatim>\<open>Lock_Protocol\<close>) the steps are single accesses. Log output
  is left out.

  \<^bold>\<open>What the lemmas show.\<close> Swapping an object out and in again is invisible to its readers; writing brings the file in step with
  memory; compaction keeps every image; the books (offsets, sizes, queue) stay consistent under every operation; the write
  loop ends; freeing forgets all records. The allocator keeps its blocks disjoint, finds room when there is room, takes the
  best fit and merges free neighbours. The reclaimer never drops a copy that a thread uses. The word-wise card scan equals the
  card-wise one. Encodings round-trip. Some properties record defects: stores through a stub also hit the stub, a copy that was
  never written is lost, compaction after an error drops offsets, and a short card scan leaves its range.

  \<^bold>\<open>Not modelled.\<close> The compiler, the tools, the class linker, the interpreter, the debugger and the collectors themselves: the
  swap code meets them only through the calls that are modelled. RosAlloc and dlmalloc are parameters. Instrumentation,
  histograms and traces only count and print. Live and mark bitmaps are not part of the swap state.
\<close>

end
